(* ===== verification/Prelude.thy ===== *)
theory Prelude
  imports Main "HOL-Library.Word"
begin

text \<open>
  Shared ground of the development: the C++ integer types (\<open>std::int64_t\<close> as \<^typ>\<open>int\<close> with
  its range written out, \<open>std::uint64_t\<close> as a 64-bit word that wraps), the exceptions the code
  throws, the two shapes of fallible results (a value, or a value with the state the code leaves
  behind), vector positions, and the generic lemmas the components use.
\<close>

named_theorems om_simps \<open>evaluation rules of the order manager under its invariant\<close>
named_theorems book_simps \<open>evaluation rules of the order book under its invariant\<close>
named_theorems side_simps \<open>case rules for the two sides of the market\<close>

subsection \<open>Integer types\<close>

type_synonym u64 = "64 word"

definition INT64_MAX :: int where
  "INT64_MAX = 9223372036854775807"

definition INT64_MIN :: int where
  "INT64_MIN = - 9223372036854775808"

definition UINT64_MAX :: u64 where
  "UINT64_MAX = 18446744073709551615"

definition i64 :: "int \<Rightarrow> bool" where
  "i64 x \<longleftrightarrow> INT64_MIN \<le> x \<and> x \<le> INT64_MAX"

text \<open>C++ integer division and remainder truncate towards zero.\<close>

definition cdiv :: "int \<Rightarrow> int \<Rightarrow> int" where
  "cdiv a b = sgn a * sgn b * (\<bar>a\<bar> div \<bar>b\<bar>)"

definition cmod :: "int \<Rightarrow> int \<Rightarrow> int" where
  "cmod a b = a - b * cdiv a b"

lemma cdiv_nonneg [simp]: "0 \<le> a \<Longrightarrow> 0 < b \<Longrightarrow> cdiv a b = a div b"
  by (cases "a = 0") (simp_all add: cdiv_def)

lemma cmod_nonneg [simp]: "0 \<le> a \<Longrightarrow> 0 < b \<Longrightarrow> cmod a b = a mod b"
  by (simp add: cmod_def minus_mult_div_eq_mod)

lemma i64_bounds: "i64 x \<Longrightarrow> INT64_MIN \<le> x" "i64 x \<Longrightarrow> x \<le> INT64_MAX"
  by (simp_all add: i64_def)

lemma INT64_MAX_pos [simp]: "0 < INT64_MAX" "0 \<le> INT64_MAX"
  by (simp_all add: INT64_MAX_def)

lemma INT64_MIN_neg [simp]: "INT64_MIN < 0" "INT64_MIN \<le> 0"
  by (simp_all add: INT64_MIN_def)

lemma INT64_MIN_eq: "INT64_MIN = - INT64_MAX - 1"
  by (simp add: INT64_MIN_def INT64_MAX_def)

lemma i64_nonneg_iff: "0 \<le> x \<Longrightarrow> i64 x \<longleftrightarrow> x \<le> INT64_MAX"
  by (auto simp: i64_def intro: order_trans [OF INT64_MIN_neg(2)])

text \<open>
  The conversion of a wider integer to \<open>int64_t\<close>, which is modulo \<open>2 ^ 64\<close>. Where the sources add or negate
  \<open>int64_t\<close> values and could leave the range, which C++ does not define, the model wraps around the same
  way, and the theorems say when the range is not left.
\<close>

definition to_i64 :: "int \<Rightarrow> int" where
  "to_i64 x = (x + 2 ^ 63) mod 2 ^ 64 - 2 ^ 63"

lemma to_i64_id [simp]: "i64 x \<Longrightarrow> to_i64 x = x"
  by (simp add: to_i64_def i64_def INT64_MIN_def INT64_MAX_def)

lemma to_i64_range: "i64 (to_i64 x)"
proof -
  have "0 \<le> (x + 9223372036854775808) mod 18446744073709551616"
    "(x + 9223372036854775808) mod 18446744073709551616 < 18446744073709551616" by simp_all
  then have "- 9223372036854775808 \<le> (x + 9223372036854775808) mod 18446744073709551616 - 9223372036854775808"
    "(x + 9223372036854775808) mod 18446744073709551616 - 9223372036854775808 \<le> 9223372036854775807" by linarith+
  then show ?thesis by (simp add: i64_def to_i64_def INT64_MIN_def INT64_MAX_def)
qed

lemma i64_abs: "\<bar>x\<bar> \<le> INT64_MAX \<Longrightarrow> i64 x"
  unfolding i64_def INT64_MIN_def INT64_MAX_def by linarith

subsection \<open>Exceptions and results\<close>

text \<open>
  One constructor per standard exception class the sources throw, with the message. A vector
  that cannot grow past \<open>max_size()\<close> throws \<open>std::length_error\<close>. \<open>Json_exception\<close> is the base class of what
  the JSON library throws.
\<close>

datatype cpp_error =
    Invalid_argument string
  | Overflow_error string
  | Logic_error string
  | Runtime_error string
  | Out_of_range string
  | Json_exception string
  | Length_error

type_synonym 'a result = "cpp_error + 'a"

text \<open>
  A method that changes an object: the outcome (an exception or a value) and the object as the
  method leaves it. A throwing method may leave a changed object behind, which is what the
  rollback code of the matching engine is about.
\<close>

type_synonym ('a, 's) outcome = "'a result \<times> 's"

definition and_then :: "'a result \<Rightarrow> ('a \<Rightarrow> 'b result) \<Rightarrow> 'b result" where
  "and_then r f = (case r of Inl e \<Rightarrow> Inl e | Inr a \<Rightarrow> f a)"

lemma and_then_Inl [simp]: "and_then (Inl e) f = Inl e"
  by (simp add: and_then_def)

lemma and_then_Inr [simp]: "and_then (Inr a) f = f a"
  by (simp add: and_then_def)

lemma and_then_eq_Inr_iff: "and_then r f = Inr b \<longleftrightarrow> (\<exists>a. r = Inr a \<and> f a = Inr b)"
  by (cases r) auto

lemma and_then_eq_Inl_iff:
  "and_then r f = Inl e \<longleftrightarrow> r = Inl e \<or> (\<exists>a. r = Inr a \<and> f a = Inl e)"
  by (cases r) auto

definition throws :: "('a, 's) outcome \<Rightarrow> bool" where
  "throws r = (case fst r of Inl e \<Rightarrow> True | Inr a \<Rightarrow> False)"

lemma throws_simps [simp]: "throws (Inl e, s)" "\<not> throws (Inr a, s)"
  by (simp_all add: throws_def)

text \<open>Sequencing of two state changing statements: an exception skips the second.\<close>

definition seq :: "('a, 's) outcome \<Rightarrow> ('a \<Rightarrow> 's \<Rightarrow> ('b, 's) outcome) \<Rightarrow> ('b, 's) outcome" where
  "seq r f = (case r of (Inl e, s) \<Rightarrow> (Inl e, s) | (Inr a, s) \<Rightarrow> f a s)"

lemma seq_simps [simp]: "seq (Inl e, s) f = (Inl e, s)" "seq (Inr a, s) f = f a s"
  by (simp_all add: seq_def)

lemma seq_eq_Inr_iff: "seq r f = (Inr b, s') \<longleftrightarrow> (\<exists>a s. r = (Inr a, s) \<and> f a s = (Inr b, s'))"
  by (auto simp: seq_def split: prod.splits sum.splits)

lemma seq_keeps: "P (snd r) \<Longrightarrow> (\<And>a s. P s \<Longrightarrow> P (snd (f a s))) \<Longrightarrow> P (snd (seq r f))"
  by (auto simp: seq_def split: prod.splits sum.splits)

subsection \<open>Vector positions\<close>

text \<open>\<open>vector::insert\<close> before, and \<open>vector::erase\<close> at, an iterator given by its index.\<close>

definition insert_at :: "nat \<Rightarrow> 'a \<Rightarrow> 'a list \<Rightarrow> 'a list" where
  "insert_at i x xs = take i xs @ x # drop i xs"

definition erase_at :: "nat \<Rightarrow> 'a list \<Rightarrow> 'a list" where
  "erase_at i xs = take i xs @ drop (Suc i) xs"

subsection \<open>Lists\<close>

lemma sorted_wrt_filter [intro]: "sorted_wrt R xs \<Longrightarrow> sorted_wrt R (filter P xs)"
  by (rule List.sorted_wrt_filter)

lemma sum_list_filter_split:
  fixes f :: "'a \<Rightarrow> int"
  shows "sum_list (map f xs) = sum_list (map f (filter P xs)) + sum_list (map f (filter (\<lambda>x. \<not> P x) xs))"
  by (induction xs) auto

lemma sum_list_map_update:
  fixes f :: "'a \<Rightarrow> int"
  assumes "i < length xs"
  shows "sum_list (map f (xs[i := y])) = sum_list (map f xs) - f (xs ! i) + f y"
  using assms by (induction xs arbitrary: i) (auto split: nat.splits)

lemma filter_map_update_eq:
  assumes "i < length xs" "P y = P (xs ! i)" "P y \<Longrightarrow> f y = f (xs ! i)"
  shows "map f (filter P (xs[i := y])) = map f (filter P xs)"
  using assms by (induction xs arbitrary: i) (auto split: nat.splits)

lemma set_update_distinct:
  assumes "distinct (map f xs)" "i < length xs" "f y = f (xs ! i)"
  shows "set (xs[i := y]) = insert y {x \<in> set xs. f x \<noteq> f y}"
  using assms
proof (induction xs arbitrary: i)
  case (Cons x xs)
  then show ?case by (cases i) (auto simp: image_iff)
qed simp

lemma find_Some_distinct:
  assumes "distinct (map f xs)" "x \<in> set xs"
  shows "List.find (\<lambda>y. f y = f x) xs = Some x"
  using assms by (induction xs) (auto simp: image_iff)

lemma length_filter_sum: "length (filter P xs) = sum_list (map (\<lambda>x. of_bool (P x)) xs)"
  by (induction xs) simp_all

subsection \<open>Machines and their runs\<close>

text \<open>
  The contract between a step relation and its runs, which grow at their end. Every state machine of
  the development is an instance; what its runs keep and how they wind down follows from its steps.
\<close>

locale machine =
  fixes step :: "'s \<Rightarrow> 'e \<Rightarrow> 's \<Rightarrow> bool" and runs :: "'s \<Rightarrow> 'e list \<Rightarrow> 's \<Rightarrow> bool"
  assumes runs_rule: "runs s es s' \<Longrightarrow> P [] s \<Longrightarrow>
    (\<And>es s1 e s2. runs s es s1 \<Longrightarrow> P es s1 \<Longrightarrow> step s1 e s2 \<Longrightarrow> P (es @ [e]) s2) \<Longrightarrow> P es s'"
begin

lemma keeps:
  assumes "\<And>s e s'. good s \<Longrightarrow> step s e s' \<Longrightarrow> good s'" "runs s es s'" "good s"
  shows "good s'"
  by (rule runs_rule [OF assms(2), where P = "\<lambda>_. good"]) (use assms(1,3) in blast)+

text \<open>A measure that every step with work to its account lowers bounds the work of every run.\<close>

lemma winds_down:
  fixes work :: "'e \<Rightarrow> nat"
  assumes step: "\<And>s e s'. good s \<Longrightarrow> step s e s' \<Longrightarrow> good s' \<and> work e + left s' \<le> left s" and "runs s es s'" "good s"
  shows "good s' \<and> sum_list (map work es) + left s' \<le> left s"
proof (rule runs_rule [OF assms(2), where P = "\<lambda>es s'. good s' \<and> sum_list (map work es) + left s' \<le> left s"])
  fix es s1 e s2
  assume "good s1 \<and> sum_list (map work es) + left s1 \<le> left s" "step s1 e s2"
  with step [of s1 e s2] show "good s2 \<and> sum_list (map work (es @ [e])) + left s2 \<le> left s" by auto
qed (simp add: assms(3))

text \<open>Something that no step of a kind brings about, a run that has it owes to a step of another kind.\<close>

lemma owed:
  assumes step: "\<And>s e s'. good s \<Longrightarrow> step s e s' \<Longrightarrow> good s' \<and> (flag s' \<longrightarrow> flag s \<or> cause e)"
    and "runs s es s'" "good s" "\<not> flag s"
  shows "good s' \<and> (flag s' \<longrightarrow> (\<exists>e \<in> set es. cause e))"
proof (rule runs_rule [OF assms(2), where P = "\<lambda>es s'. good s' \<and> (flag s' \<longrightarrow> (\<exists>e \<in> set es. cause e))"])
  fix es s1 e s2
  assume "good s1 \<and> (flag s1 \<longrightarrow> (\<exists>e \<in> set es. cause e))" "step s1 e s2"
  with step [of s1 e s2] show "good s2 \<and> (flag s2 \<longrightarrow> (\<exists>e \<in> set (es @ [e]). cause e))" by auto
qed (simp add: assms(3,4))

end

end
