(* ===== verification/Ordered_Containers.thy ===== *)
theory Ordered_Containers
  imports Prelude
begin

text \<open>
  The ordered containers of the C++ standard library as the sources use them: \<open>std::set\<close> with
  a comparator (kept as the list its iterators visit), and \<open>std::lower_bound\<close> on a vector (the
  halving loop of the standard algorithm). The locale \<open>strict_total\<close> is the contract a
  comparator has to meet; the two priority comparators of the order manager and the two price
  orders of the book are its interpretations.
\<close>

subsection \<open>\<open>std::set\<close> with a comparator\<close>

fun set_insert :: "('k \<Rightarrow> 'k \<Rightarrow> bool) \<Rightarrow> 'k \<Rightarrow> 'k list \<Rightarrow> bool \<times> 'k list" where
  "set_insert lt k [] = (True, [k])"
| "set_insert lt k (x # xs) =
     (if lt k x then (True, k # x # xs)
      else if lt x k then (case set_insert lt k xs of (b, ys) \<Rightarrow> (b, x # ys))
      else (False, x # xs))"

fun set_erase :: "('k \<Rightarrow> 'k \<Rightarrow> bool) \<Rightarrow> 'k \<Rightarrow> 'k list \<Rightarrow> nat \<times> 'k list" where
  "set_erase lt k [] = (0, [])"
| "set_erase lt k (x # xs) =
     (if lt x k then (case set_erase lt k xs of (n, ys) \<Rightarrow> (n, x # ys))
      else if lt k x then (0, x # xs)
      else (1, xs))"

text \<open>\<open>extract\<close> takes the node out of the set: the node handle is empty when there is none.\<close>

definition set_extract :: "('k \<Rightarrow> 'k \<Rightarrow> bool) \<Rightarrow> 'k \<Rightarrow> 'k list \<Rightarrow> 'k option \<times> 'k list" where
  "set_extract lt k xs =
     (case set_erase lt k xs of
        (n, ys) \<Rightarrow> (if n = 1 then Some (the (List.find (\<lambda>x. \<not> lt x k \<and> \<not> lt k x) xs)) else None, ys))"

subsection \<open>\<open>std::lower_bound\<close>\<close>

function lower_bound_loop :: "('a \<Rightarrow> 'v \<Rightarrow> bool) \<Rightarrow> 'a list \<Rightarrow> 'v \<Rightarrow> nat \<Rightarrow> nat \<Rightarrow> nat" where
  "lower_bound_loop cmp xs v first len =
     (if len = 0 then first
      else (let half = len div 2; middle = first + half
            in if cmp (xs ! middle) v
               then lower_bound_loop cmp xs v (Suc middle) (len - half - 1)
               else lower_bound_loop cmp xs v first half))"
  by pat_completeness auto
termination
  by (relation "measure (\<lambda>(cmp, xs, v, first, len). len)") auto

declare lower_bound_loop.simps [simp del]

definition lower_bound :: "('a \<Rightarrow> 'v \<Rightarrow> bool) \<Rightarrow> 'a list \<Rightarrow> 'v \<Rightarrow> nat" where
  "lower_bound cmp xs v = lower_bound_loop cmp xs v 0 (length xs)"

text \<open>
  The standard asks for a partitioned range: the elements that \<open>cmp\<close> puts before the value come
  first.
\<close>

definition partitioned :: "('a \<Rightarrow> 'v \<Rightarrow> bool) \<Rightarrow> 'a list \<Rightarrow> 'v \<Rightarrow> bool" where
  "partitioned cmp xs v \<longleftrightarrow> sorted_wrt (\<lambda>x y. cmp y v \<longrightarrow> cmp x v) xs"

lemma partitioned_nth:
  "partitioned cmp xs v \<Longrightarrow> i < j \<Longrightarrow> j < length xs \<Longrightarrow> cmp (xs ! j) v \<Longrightarrow> cmp (xs ! i) v"
  by (auto simp: partitioned_def sorted_wrt_iff_nth_less)

lemma lower_bound_loop_bounds:
  assumes "partitioned cmp xs v" "first + len \<le> length xs"
    and "\<forall>i < first. cmp (xs ! i) v"
    and "\<forall>i < length xs. first + len \<le> i \<longrightarrow> \<not> cmp (xs ! i) v"
  shows "lower_bound_loop cmp xs v first len \<le> length xs
    \<and> (\<forall>i < lower_bound_loop cmp xs v first len. cmp (xs ! i) v)
    \<and> (\<forall>i < length xs. lower_bound_loop cmp xs v first len \<le> i \<longrightarrow> \<not> cmp (xs ! i) v)"
  using assms
proof (induction cmp xs v first len rule: lower_bound_loop.induct)
  case (1 cmp xs v first len)
  show ?case
  proof (cases "len = 0")
    case True
    with "1.prems" show ?thesis by (simp add: lower_bound_loop.simps [of cmp xs v first 0])
  next
    case False
    define half where "half = len div 2"
    define middle where "middle = first + half"
    have half: "half < len" using False by (simp add: half_def)
    have mid: "middle < length xs" using half "1.prems"(2) by (simp add: middle_def)
    show ?thesis
    proof (cases "cmp (xs ! middle) v")
      case True
      have below: "\<forall>i < Suc middle. cmp (xs ! i) v"
        using True mid partitioned_nth [OF "1.prems"(1)] by (metis less_antisym)
      have above: "\<forall>i < length xs. Suc middle + (len - half - 1) \<le> i \<longrightarrow> \<not> cmp (xs ! i) v"
        using "1.prems"(4) half by (simp add: middle_def)
      have "Suc middle + (len - half - 1) \<le> length xs"
        using "1.prems"(2) half by (simp add: middle_def)
      then show ?thesis
        using "1.IH"(1) [OF False half_def middle_def True "1.prems"(1) _ below above] False True
        by (simp add: lower_bound_loop.simps [of cmp xs v first len] Let_def half_def middle_def)
    next
      case nofit: False
      have above: "\<forall>i < length xs. first + half \<le> i \<longrightarrow> \<not> cmp (xs ! i) v"
        using nofit partitioned_nth [OF "1.prems"(1)] unfolding middle_def
        by (metis le_neq_implies_less)
      have "first + half \<le> length xs" using mid by (simp add: middle_def)
      then show ?thesis
        using "1.IH"(2) [OF False half_def middle_def nofit "1.prems"(1) _ "1.prems"(3) above]
          False nofit
        by (simp add: lower_bound_loop.simps [of cmp xs v first len] Let_def half_def middle_def)
    qed
  qed
qed

lemma takeWhile_length_eqI:
  assumes "n \<le> length xs" "\<forall>i < n. P (xs ! i)" "n < length xs \<longrightarrow> \<not> P (xs ! n)"
  shows "length (takeWhile P xs) = n"
proof (cases "n < length xs")
  case True
  with assms show ?thesis
    by (subst takeWhile_eq_take_P_nth [of n]) auto
next
  case False
  with assms(1) have "n = length xs" by simp
  with assms(2) show ?thesis by (simp add: all_set_conv_all_nth takeWhile_eq_all_conv [THEN iffD2])
qed

lemma lower_bound_partition_point:
  assumes "partitioned cmp xs v"
  shows "lower_bound cmp xs v = length (takeWhile (\<lambda>x. cmp x v) xs)"
proof -
  have "lower_bound cmp xs v \<le> length xs
    \<and> (\<forall>i < lower_bound cmp xs v. cmp (xs ! i) v)
    \<and> (\<forall>i < length xs. lower_bound cmp xs v \<le> i \<longrightarrow> \<not> cmp (xs ! i) v)"
    unfolding lower_bound_def using assms by (intro lower_bound_loop_bounds) auto
  then show ?thesis by (intro takeWhile_length_eqI [symmetric]) auto
qed

subsection \<open>The comparator contract\<close>

locale strict_total =
  fixes lt :: "'k \<Rightarrow> 'k \<Rightarrow> bool"
  assumes lt_irrefl: "\<not> lt x x"
    and lt_trans: "lt x y \<Longrightarrow> lt y z \<Longrightarrow> lt x z"
    and lt_linear: "x \<noteq> y \<Longrightarrow> lt x y \<or> lt y x"
begin

lemma lt_asym: "lt x y \<Longrightarrow> \<not> lt y x"
  using lt_irrefl lt_trans by blast

lemma equiv_iff: "\<not> lt x y \<and> \<not> lt y x \<longleftrightarrow> x = y"
  using lt_irrefl lt_linear by blast

lemma set_insert_fresh:
  "sorted_wrt lt xs \<Longrightarrow> k \<notin> set xs \<Longrightarrow>
     fst (set_insert lt k xs) \<and> sorted_wrt lt (snd (set_insert lt k xs))
     \<and> set (snd (set_insert lt k xs)) = insert k (set xs)"
proof (induction xs)
  case (Cons x xs)
  then have xs: "sorted_wrt lt xs" "\<forall>y \<in> set xs. lt x y" "k \<notin> set xs" "k \<noteq> x" by auto
  show ?case
  proof (cases "lt k x")
    case True
    then have "\<forall>y \<in> set xs. lt k y" using xs(2) lt_trans by blast
    with True xs show ?thesis by simp
  next
    case False
    then have "lt x k" using xs(4) lt_linear by blast
    with False xs Cons.IH [OF xs(1,3)] show ?thesis by (auto split: prod.splits)
  qed
qed simp

lemma set_insert_present:
  "sorted_wrt lt xs \<Longrightarrow> k \<in> set xs \<Longrightarrow> set_insert lt k xs = (False, xs)"
  by (induction xs) (auto simp: lt_irrefl dest: lt_asym split: prod.splits)

lemma set_erase_present:
  "sorted_wrt lt xs \<Longrightarrow> k \<in> set xs \<Longrightarrow>
     fst (set_erase lt k xs) = 1 \<and> sorted_wrt lt (snd (set_erase lt k xs))
     \<and> set (snd (set_erase lt k xs)) = set xs - {k}"
proof (induction xs)
  case (Cons x xs)
  show ?case
  proof (cases "k = x")
    case True
    with Cons.prems show ?thesis by (auto simp: lt_irrefl)
  next
    case False
    with Cons have "lt x k" by auto
    with Cons False show ?thesis by (auto simp: lt_irrefl split: prod.splits)
  qed
qed simp

lemma set_erase_absent:
  "sorted_wrt lt xs \<Longrightarrow> k \<notin> set xs \<Longrightarrow> set_erase lt k xs = (0, xs)"
proof (induction xs)
  case (Cons x xs)
  then show ?case using lt_linear [of x k] by auto
qed simp

lemma sorted_unique:
  "sorted_wrt lt xs \<Longrightarrow> sorted_wrt lt ys \<Longrightarrow> set xs = set ys \<Longrightarrow> xs = ys"
proof (induction xs arbitrary: ys)
  case (Cons x xs)
  then obtain y ys' where ys: "ys = y # ys'" by (cases ys) auto
  have "x = y"
    using Cons.prems unfolding ys by (metis lt_asym list.set_intros(1) set_ConsD sorted_wrt.simps(2))
  moreover have "x \<notin> set xs" "y \<notin> set ys'"
    using Cons.prems lt_irrefl unfolding ys by auto
  ultimately have "set xs = set ys'"
    using Cons.prems(3) unfolding ys by (simp add: insert_ident)
  then show ?case using Cons \<open>x = y\<close> ys by simp
qed simp

lemma set_extract_present:
  assumes "sorted_wrt lt xs" "k \<in> set xs"
  shows "set_extract lt k xs = (Some k, snd (set_erase lt k xs))"
proof -
  have "List.find (\<lambda>x. \<not> lt x k \<and> \<not> lt k x) xs = List.find (\<lambda>x. x = k) xs"
    by (simp only: equiv_iff)
  also have "\<dots> = Some k"
    using assms(2) by (induction xs) auto
  finally have found: "List.find (\<lambda>x. \<not> lt x k \<and> \<not> lt k x) xs = Some k" .
  obtain n ys where er: "set_erase lt k xs = (n, ys)" by (cases "set_erase lt k xs")
  then have "n = 1" using set_erase_present [OF assms] by simp
  with er found show ?thesis by (simp add: set_extract_def)
qed

lemma set_extract_absent:
  "sorted_wrt lt xs \<Longrightarrow> k \<notin> set xs \<Longrightarrow> set_extract lt k xs = (None, xs)"
  by (simp add: set_extract_def set_erase_absent)

lemma insert_after_erase:
  assumes "sorted_wrt lt xs" "k \<in> set xs"
  shows "set_insert lt k (snd (set_erase lt k xs)) = (True, xs)"
proof -
  let ?ys = "snd (set_erase lt k xs)"
  have ys: "sorted_wrt lt ?ys" "set ?ys = set xs - {k}"
    using set_erase_present [OF assms] by auto
  then have ins: "fst (set_insert lt k ?ys)" "sorted_wrt lt (snd (set_insert lt k ?ys))"
    "set (snd (set_insert lt k ?ys)) = set xs"
    using set_insert_fresh [of ?ys k] assms(2) by auto
  then have "snd (set_insert lt k ?ys) = xs"
    using sorted_unique assms(1) by blast
  with ins(1) show ?thesis by (cases "set_insert lt k ?ys") simp
qed

lemma erase_after_insert:
  assumes "sorted_wrt lt xs" "k \<notin> set xs"
  shows "set_erase lt k (snd (set_insert lt k xs)) = (1, xs)"
proof -
  let ?ys = "snd (set_insert lt k xs)"
  have ys: "sorted_wrt lt ?ys" "set ?ys = insert k (set xs)"
    using set_insert_fresh [OF assms] by auto
  then have er: "fst (set_erase lt k ?ys) = 1" "sorted_wrt lt (snd (set_erase lt k ?ys))"
    "set (snd (set_erase lt k ?ys)) = set xs"
    using set_erase_present [of ?ys k] assms(2) by auto
  then have "snd (set_erase lt k ?ys) = xs"
    using sorted_unique assms(1) by blast
  with er(1) show ?thesis by (cases "set_erase lt k ?ys") simp
qed

lemma begin_least:
  "sorted_wrt lt (x # xs) \<Longrightarrow> y \<in> set (x # xs) \<Longrightarrow> y = x \<or> lt x y"
  by auto

end

end
