(* ===== verification/Floating.thy ===== *)
theory Floating
  imports Complex_Main Prelude "HOL-Library.Log_Nat"
begin

text \<open>
  Floating point as the sources use it: \<open>long double\<close> (and \<open>double\<close>) arithmetic is exact rational
  arithmetic followed by a rounding. The rounding depends on the platform (80-bit extended, 128-bit
  or plain 64-bit formats all occur for \<open>long double\<close>), so it is an argument of every definition
  that uses it. The locale \<open>rounding\<close> is what IEEE 754 round-to-nearest promises of every such
  format: it is monotone and leaves the integers alone that fit its significand. The locale
  \<open>binary_format\<close> extends that to every value of a binary format.
\<close>

type_synonym rounding_mode = "rat \<Rightarrow> rat"

text \<open>\<open>static_cast<std::int64_t>\<close> of a floating point value truncates towards zero.\<close>

definition trunc :: "rat \<Rightarrow> int" where
  "trunc x = (if 0 \<le> x then \<lfloor>x\<rfloor> else \<lceil>x\<rceil>)"

definition exact_upto :: "int \<Rightarrow> rounding_mode \<Rightarrow> bool" where
  "exact_upto bound rnd \<longleftrightarrow> (\<forall>n. \<bar>n\<bar> \<le> bound \<longrightarrow> rnd (of_int n) = of_int n)"

lemma trunc_of_int [simp]: "trunc (of_int n) = n"
  by (simp add: trunc_def)

lemma trunc_mono: "x \<le> y \<Longrightarrow> trunc x \<le> trunc y"
proof (cases "0 \<le> x")
  case True
  moreover assume "x \<le> y"
  ultimately show ?thesis by (simp add: trunc_def floor_mono)
next
  case neg: False
  assume le: "x \<le> y"
  show ?thesis
  proof (cases "0 \<le> y")
    case True
    have "\<lceil>x\<rceil> \<le> 0" using neg by (simp add: ceiling_le_iff)
    also have "0 \<le> \<lfloor>y\<rfloor>" using True by simp
    finally show ?thesis using neg True by (simp add: trunc_def)
  next
    case False
    with neg le show ?thesis by (simp add: trunc_def ceiling_mono)
  qed
qed

locale rounding =
  fixes rnd :: rounding_mode and bound :: int
  assumes rnd_mono: "x \<le> y \<Longrightarrow> rnd x \<le> rnd y"
    and rnd_exact: "\<bar>n\<bar> \<le> bound \<Longrightarrow> rnd (of_int n) = of_int n"
    and bound_nonneg: "0 \<le> bound"
begin

lemma rnd_0: "rnd 0 = 0"
  using rnd_exact [of 0] bound_nonneg by simp

lemma rnd_between:
  assumes "of_int lo \<le> x" "x \<le> of_int hi" "\<bar>lo\<bar> \<le> bound" "\<bar>hi\<bar> \<le> bound"
  shows "of_int lo \<le> rnd x" "rnd x \<le> of_int hi"
  using rnd_mono [OF assms(1)] rnd_mono [OF assms(2)] rnd_exact assms(3,4) by simp_all

text \<open>A rounded quotient of integers, truncated, stays between integer bounds of the quotient.\<close>

lemma trunc_rnd_between:
  assumes "of_int lo \<le> x" "x \<le> of_int hi" "\<bar>lo\<bar> \<le> bound" "\<bar>hi\<bar> \<le> bound"
  shows "lo \<le> trunc (rnd x) \<and> trunc (rnd x) \<le> hi"
  using rnd_between [OF assms] trunc_mono [of "of_int lo" "rnd x"] trunc_mono [of "rnd x" "of_int hi"]
  by simp

text \<open>Sums of integers are exact while every partial sum fits the significand.\<close>

lemma rnd_sum_exact:
  assumes "\<forall>x \<in> set xs. 0 \<le> f x" "0 \<le> a" "a + sum_list (map f xs) \<le> bound"
  shows "foldl (\<lambda>acc x. rnd (acc + rnd (of_int (f x)))) (of_int a) xs = of_int (a + sum_list (map f xs))"
  using assms
proof (induction xs arbitrary: a)
  case (Cons x xs)
  have nn: "0 \<le> sum_list (map f xs)"
    using Cons.prems(1) by (intro sum_list_nonneg) auto
  have "rnd (of_int (f x)) = of_int (f x)"
    using Cons.prems nn by (intro rnd_exact) auto
  moreover have "rnd (of_int (a + f x)) = of_int (a + f x)"
    using Cons.prems nn by (intro rnd_exact) auto
  ultimately show ?case
    using Cons.IH [of "a + f x"] Cons.prems by (simp add: add.assoc)
qed simp

text \<open>The rounded quotient of a part by the whole, and of the difference of two parts by their sum.\<close>

lemma ratio_bounds:
  assumes "1 \<le> bound" "\<bar>x\<bar> \<le> y"
  shows "- 1 \<le> rnd (of_int x / of_int y) \<and> rnd (of_int x / of_int y) \<le> 1"
proof -
  have le: "- of_int y \<le> (of_int x :: rat)" "(of_int x :: rat) \<le> of_int y"
    using assms(2) unfolding of_int_minus [symmetric] of_int_le_iff by linarith+
  have "0 \<le> y" using assms(2) by simp
  then have "- 1 \<le> (of_int x / of_int y :: rat)" "(of_int x / of_int y :: rat) \<le> 1"
    using le by (simp_all add: le_divide_eq divide_le_eq)
  then show ?thesis using rnd_between [of "- 1" "of_int x / of_int y" 1] assms(1) by simp
qed

end

subsection \<open>Round to nearest, ties to even\<close>

text \<open>
  The formats themselves, without exponent limits: a significand of \<open>p\<close> bits, rounded to the nearest
  with ties to even. \<open>p = 64\<close> is the extended format of x87, \<open>p = 113\<close> the quadruple format,
  \<open>p = 53\<close> \<open>double\<close>.
\<close>

definition round_half_even :: "rat \<Rightarrow> int" where
  "round_half_even x =
     (if x - of_int \<lfloor>x\<rfloor> < 1 / 2 then \<lfloor>x\<rfloor>
      else if x - of_int \<lfloor>x\<rfloor> > 1 / 2 then \<lfloor>x\<rfloor> + 1
      else if even \<lfloor>x\<rfloor> then \<lfloor>x\<rfloor> else \<lfloor>x\<rfloor> + 1)"

lemma round_half_even_of_int [simp]: "round_half_even (of_int n) = n"
  by (simp add: round_half_even_def)

lemma round_half_even_floor: "\<lfloor>x\<rfloor> \<le> round_half_even x" "round_half_even x \<le> \<lfloor>x\<rfloor> + 1"
  by (simp_all add: round_half_even_def)

lemma round_half_even_mono: "x \<le> y \<Longrightarrow> round_half_even x \<le> round_half_even y"
proof (cases "\<lfloor>x\<rfloor> = \<lfloor>y\<rfloor>")
  case True
  moreover assume "x \<le> y"
  ultimately show ?thesis by (simp add: round_half_even_def)
next
  case False
  assume "x \<le> y"
  then have "\<lfloor>x\<rfloor> + 1 \<le> \<lfloor>y\<rfloor>" using False floor_mono [of x y] by linarith
  then show ?thesis using round_half_even_floor(2) [of x] round_half_even_floor(1) [of y] by linarith
qed

definition binade :: "rat \<Rightarrow> int" where
  "binade x = \<lfloor>log 2 (real_of_rat x)\<rfloor>"

definition nearest_pos :: "nat \<Rightarrow> rat \<Rightarrow> rat" where
  "nearest_pos p x = (let u = 2 powi (binade x + 1 - int p) in of_int (round_half_even (x / u)) * u)"

definition nearest :: "nat \<Rightarrow> rounding_mode" where
  "nearest p x = (if x = 0 then 0 else if 0 < x then nearest_pos p x else - nearest_pos p (- x))"

lemma real_of_rat_powi: "real_of_rat (2 powi k) = 2 powr of_int k"
  unfolding powr_real_of_int' [of 2, simplified] by (simp add: power_int_def of_rat_power of_rat_divide)

lemma binade_bounds:
  assumes "0 < x"
  shows "2 powi binade x \<le> x" "x < 2 powi (binade x + 1)"
proof -
  note * = real_of_rat_powi
  have "2 powr binade x \<le> real_of_rat x" "real_of_rat x < 2 powr (binade x + 1)"
    using assms floor_log_eq_powr_iff [of "real_of_rat x" 2 "binade x"] by (simp_all add: binade_def)
  then have "real_of_rat (2 powi binade x) \<le> real_of_rat x" "real_of_rat x < real_of_rat (2 powi (binade x + 1))"
    unfolding * by simp_all
  then show "2 powi binade x \<le> x" "x < 2 powi (binade x + 1)"
    unfolding of_rat_less_eq of_rat_less by simp_all
qed

lemma binade_mono: "0 < x \<Longrightarrow> x \<le> y \<Longrightarrow> binade x \<le> binade y"
  unfolding binade_def by (intro floor_mono) (simp add: of_rat_less_eq)

lemma nearest_pos_bounds:
  assumes "0 < x" "0 < p"
  shows "2 powi binade x \<le> nearest_pos p x" "nearest_pos p x \<le> 2 powi (binade x + 1)"
proof -
  define u :: rat where "u = 2 powi (binade x + 1 - int p)"
  have u: "0 < u" by (simp add: u_def)
  have lo: "of_int (2 ^ (p - 1)) * u = 2 powi binade x"
  proof -
    have "binade x = int (p - 1) + (binade x + 1 - int p)" using assms(2) by simp
    then have "(2::rat) powi binade x = 2 powi int (p - 1) * u"
      unfolding u_def by (metis power_int_add zero_neq_numeral)
    then show ?thesis by simp
  qed
  have hi: "of_int (2 ^ p) * u = 2 powi (binade x + 1)"
  proof -
    have "binade x + 1 = int p + (binade x + 1 - int p)" by simp
    then have "(2::rat) powi (binade x + 1) = 2 powi int p * u"
      unfolding u_def by (metis power_int_add zero_neq_numeral)
    then show ?thesis by simp
  qed
  have "of_int (2 ^ (p - 1)) \<le> x / u" "x / u \<le> of_int (2 ^ p)"
    using binade_bounds [OF assms(1)] u unfolding lo [symmetric] hi [symmetric] by (simp_all add: field_simps)
  then have "2 ^ (p - 1) \<le> round_half_even (x / u)" "round_half_even (x / u) \<le> 2 ^ p"
    using round_half_even_mono [of "of_int (2 ^ (p - 1))" "x / u"] round_half_even_mono [of "x / u" "of_int (2 ^ p)"]
    unfolding round_half_even_of_int by simp_all
  then show "2 powi binade x \<le> nearest_pos p x" "nearest_pos p x \<le> 2 powi (binade x + 1)"
    unfolding lo [symmetric] hi [symmetric] nearest_pos_def Let_def u_def [symmetric]
    using u by (simp_all only: mult_le_cancel_right_pos of_int_le_iff)
qed

lemma nearest_pos_mono:
  assumes "0 < x" "x \<le> y" "0 < p"
  shows "nearest_pos p x \<le> nearest_pos p y"
proof (cases "binade x = binade y")
  case True
  have "(0::rat) < 2 powi (binade y + 1 - int p)" by simp
  moreover from this have "x / 2 powi (binade y + 1 - int p) \<le> y / 2 powi (binade y + 1 - int p)"
    using assms(2) by (simp add: divide_right_mono)
  ultimately show ?thesis
    unfolding nearest_pos_def Let_def True using round_half_even_mono by simp
next
  case False
  then have "binade x + 1 \<le> binade y" using binade_mono [OF assms(1,2)] by simp
  then have "(2::rat) powi (binade x + 1) \<le> 2 powi binade y" by (simp add: power_int_increasing)
  then show ?thesis using nearest_pos_bounds [of x p] nearest_pos_bounds [of y p] assms by linarith
qed

lemma nearest_pos_exact:
  assumes "0 < n" "n \<le> 2 ^ p" "0 < p"
  shows "nearest_pos p (of_int n) = of_int n"
proof -
  let ?x = "of_int n :: rat"
  define u :: rat where "u = 2 powi (binade ?x + 1 - int p)"
  have u: "0 < u" by (simp add: u_def)
  have "\<exists>m. ?x / u = of_int m"
  proof (cases "binade ?x < int p")
    case True
    then have "binade ?x + 1 - int p = - int (nat (int p - 1 - binade ?x))" by simp
    then have "u = inverse (2 ^ nat (int p - 1 - binade ?x))"
      unfolding u_def by (metis power_int_minus power_int_of_nat)
    then have "?x / u = of_int (n * 2 ^ nat (int p - 1 - binade ?x))"
      by (simp add: divide_inverse)
    then show ?thesis by blast
  next
    case False
    have le: "2 powi binade ?x \<le> ?x" using binade_bounds(1) [of ?x] assms(1) by simp
    have pw: "(2::rat) powi int p \<le> 2 powi binade ?x"
      using False by (intro power_int_increasing) simp_all
    have "?x \<le> 2 powi int p" using assms(2) by (metis of_int_le_iff of_int_numeral of_int_power power_int_of_nat)
    then have x: "?x = 2 powi int p" "(2::rat) powi binade ?x = 2 powi int p" using le pw by linarith+
    have "\<not> int p < binade ?x"
      using power_int_strict_increasing [of "int p" "binade ?x" "2::rat"] x(2) by auto
    then have "binade ?x = int p" using False by simp
    then have "u = 2" by (simp add: u_def)
    moreover have "?x = of_int (2 ^ (p - 1)) * 2"
      using x(1) assms(3) by (simp add: power_int_of_nat flip: power_Suc2)
    ultimately show ?thesis by (metis nonzero_mult_div_cancel_right zero_neq_numeral)
  qed
  then show ?thesis
    using u unfolding nearest_pos_def Let_def u_def [symmetric] by (metis nonzero_divide_eq_eq order_less_irrefl round_half_even_of_int)
qed

lemma nearest_pos_pos: "0 < x \<Longrightarrow> 0 < p \<Longrightarrow> 0 < nearest_pos p x"
  using nearest_pos_bounds(1) [of x p] by (meson order_less_le_trans zero_less_numeral zero_less_power_int)

lemma nearest_mono:
  assumes "x \<le> y" "0 < p"
  shows "nearest p x \<le> nearest p y"
proof -
  consider "0 < x" "0 < y" | "x \<le> 0" "0 \<le> y" | "x < 0" "y < 0" using assms(1) by linarith
  then show ?thesis
  proof cases
    case 1
    then show ?thesis using nearest_pos_mono assms by (simp add: nearest_def)
  next
    case 2
    then have "nearest p x \<le> 0" "0 \<le> nearest p y"
      using nearest_pos_pos [of "- x" p] nearest_pos_pos [of y p] assms(2) by (auto simp: nearest_def)
    then show ?thesis by simp
  next
    case 3
    then show ?thesis using nearest_pos_mono [of "- y" "- x" p] assms by (simp add: nearest_def)
  qed
qed

lemma nearest_exact:
  assumes "\<bar>n\<bar> \<le> 2 ^ p" "0 < p"
  shows "nearest p (of_int n) = of_int n"
proof -
  consider "n = 0" | "0 < n" | "n < 0" by linarith
  then show ?thesis
  proof cases
    case 3
    then have "nearest_pos p (of_int (- n)) = of_int (- n)" using assms by (intro nearest_pos_exact) auto
    then show ?thesis using 3 by (simp add: nearest_def)
  qed (use assms nearest_pos_exact [of n p] in \<open>auto simp: nearest_def\<close>)
qed

text \<open>The formats are binary: rounding commutes with powers of two.\<close>

lemma binade_scale:
  assumes "0 < x"
  shows "binade (x * 2 powi e) = binade x + e"
proof -
  have "log 2 (real_of_rat (x * 2 powi e)) = log 2 (real_of_rat x) + of_int e"
    using assms by (simp add: of_rat_mult real_of_rat_powi log_mult)
  then show ?thesis by (simp add: binade_def)
qed

lemma nearest_pos_scale:
  assumes "0 < x"
  shows "nearest_pos p (x * 2 powi e) = nearest_pos p x * 2 powi e"
proof -
  have u: "(2::rat) powi (binade (x * 2 powi e) + 1 - int p) = 2 powi (binade x + 1 - int p) * 2 powi e"
    unfolding binade_scale [OF assms] by (simp add: power_int_add [symmetric] algebra_simps)
  show ?thesis unfolding nearest_pos_def Let_def u by simp
qed

lemma nearest_scale: "nearest p (x * 2 powi e) = nearest p x * 2 powi e"
proof -
  have "0 < x * 2 powi e \<longleftrightarrow> 0 < x" "x * 2 powi e = 0 \<longleftrightarrow> x = 0"
    using mult_less_cancel_right_pos [of "2 powi e" 0 x] by simp_all
  then show ?thesis
    using nearest_pos_scale [of x p e] nearest_pos_scale [of "- x" p e] by (auto simp: nearest_def)
qed

text \<open>The binade from its bounds, for concrete values.\<close>

lemma binade_eqI:
  assumes "2 powi k \<le> x" "x < 2 powi (k + 1)"
  shows "binade x = k"
proof -
  have x: "0 < x" using assms(1) by (meson order_less_le_trans zero_less_numeral zero_less_power_int)
  have "k < binade x + 1" "binade x < k + 1"
    using binade_bounds [OF x] assms power_int_increasing [of "binade x + 1" k "2::rat"]
      power_int_increasing [of "k + 1" "binade x" "2::rat"] by (force simp: not_less [symmetric])+
  then show ?thesis by simp
qed

lemma nearest_rounding: "0 < p \<Longrightarrow> bound \<le> 2 ^ p \<Longrightarrow> 0 \<le> bound \<Longrightarrow> rounding (nearest p) bound"
  by unfold_locales (auto intro: nearest_mono nearest_exact)

interpretation x87: rounding "nearest 64" INT64_MAX
  by (rule nearest_rounding) (simp_all add: INT64_MAX_def)

interpretation double: rounding "nearest 53" "2 ^ 53"
  by (rule nearest_rounding) simp_all

text \<open>
  A binary format: monotone, and exact on every integer of \<open>p\<close> bits times a power of two whose exponent
  is in range. The values of the format are such numbers, so this says that rounding leaves them alone.
  The range leaves out overflow to infinity and loss of precision near zero.
\<close>

locale binary_format =
  fixes rnd :: rounding_mode and p :: nat and emin emax :: int
  assumes fmt_mono: "x \<le> y \<Longrightarrow> rnd x \<le> rnd y"
    and fmt_exact: "\<bar>n\<bar> \<le> 2 ^ p \<Longrightarrow> emin \<le> e \<Longrightarrow> e \<le> emax \<Longrightarrow> rnd (of_int n * 2 powi e) = of_int n * 2 powi e"
    and fmt_range: "emin \<le> 0" "0 \<le> emax"

sublocale binary_format \<subseteq> ints: rounding rnd "2 ^ p"
  using fmt_mono fmt_exact [where e = 0] fmt_range by unfold_locales simp_all

lemma format_rounding: "binary_format rnd p emin emax \<Longrightarrow> rounding rnd (2 ^ p)"
  using binary_format.fmt_mono binary_format.fmt_exact [where e = 0] binary_format.fmt_range by unfold_locales fastforce+

lemma nearest_format: "0 < p \<Longrightarrow> emin \<le> 0 \<Longrightarrow> 0 \<le> emax \<Longrightarrow> binary_format (nearest p) p emin emax"
  by unfold_locales (simp_all add: nearest_mono nearest_scale nearest_exact)

text \<open>The formats of \<open>double\<close> and of \<open>long double\<close> (x87, quadruple; on some platforms it is \<open>double\<close>).\<close>

interpretation double_format: binary_format "nearest 53" 53 "- 1074" 970
  by (rule nearest_format) simp_all

interpretation x87_format: binary_format "nearest 64" 64 "- 16445" 16319
  by (rule nearest_format) simp_all

interpretation quad_format: binary_format "nearest 113" 113 "- 16494" 16270
  by (rule nearest_format) simp_all

text \<open>Exact arithmetic meets the contract for every bound.\<close>

interpretation exact: rounding "\<lambda>x. x" INT64_MAX
  by unfold_locales simp_all

end
