(* ===== verification/Order_Book.thy ===== *)
theory Order_Book
  imports Ordered_Containers Floating
begin

text \<open>
  The aggregated order book (\<open>include/order_book.hpp\<close>, \<open>src/order_book.cpp\<close>): two vectors of price
  levels, best price first. Every public method runs under the book's mutex, so a method is one
  atomic step on the pair of vectors. The templates \<open>adjust_levels\<close> and the two copies of the
  update and normalisation code differ in the price order and in the side's name only; both are
  arguments here.
\<close>

subsection \<open>State\<close>

record price_level =
  pl_price_ticks :: int
  pl_quantity :: int

record order_book =
  ob_bids :: "price_level list"
  ob_asks :: "price_level list"

definition empty_book :: order_book where
  "empty_book = \<lparr>ob_bids = [], ob_asks = []\<rparr>"

text \<open>Copy construction, assignment (to oneself it does nothing) and the accessors, which copy the levels.\<close>

definition book_copy :: "order_book \<Rightarrow> order_book" where
  "book_copy other = empty_book\<lparr>ob_bids := ob_bids other, ob_asks := ob_asks other\<rparr>"

definition book_assign :: "order_book \<Rightarrow> order_book \<Rightarrow> order_book" where
  "book_assign other book = book\<lparr>ob_bids := ob_bids other, ob_asks := ob_asks other\<rparr>"

definition book_bids :: "order_book \<Rightarrow> price_level list" where
  "book_bids book = ob_bids book"

definition book_asks :: "order_book \<Rightarrow> price_level list" where
  "book_asks book = ob_asks book"

lemma book_copies: "book_copy other = other" "book_assign other book = other" "book_assign book book = book"
  by (simp_all add: book_copy_def book_assign_def empty_book_def)

text \<open>The lambdas handed to \<open>std::lower_bound\<close>: bids run downwards, asks upwards.\<close>

definition level_before :: "(int \<Rightarrow> int \<Rightarrow> bool) \<Rightarrow> price_level \<Rightarrow> int \<Rightarrow> bool" where
  "level_before before level target_price = before (pl_price_ticks level) target_price"

abbreviation (input) bid_before :: "int \<Rightarrow> int \<Rightarrow> bool" where
  "bid_before \<equiv> (\<lambda>p q. p > q)"

abbreviation (input) ask_before :: "int \<Rightarrow> int \<Rightarrow> bool" where
  "ask_before \<equiv> (\<lambda>p q. p < q)"

subsection \<open>Checks\<close>

definition validate_level :: "int \<Rightarrow> int \<Rightarrow> string \<Rightarrow> unit result" where
  "validate_level price_ticks quantity side_name =
     (if price_ticks < 0 then Inl (Invalid_argument (side_name @ '' price cannot be negative.''))
      else if quantity < 0 then Inl (Invalid_argument (side_name @ '' quantity cannot be negative.''))
      else Inr ())"

definition validate_adjustment_price :: "int \<Rightarrow> string \<Rightarrow> unit result" where
  "validate_adjustment_price price_ticks side_name =
     (if price_ticks < 0 then Inl (Invalid_argument (side_name @ '' price cannot be negative.''))
      else Inr ())"

subsection \<open>Snapshots\<close>

text \<open>
  \<open>std::map\<close> from price to quantity in the side's order, kept as the association list its iterators
  visit. \<open>aggregated[price]\<close> reads 0 for a price that is not there yet.
\<close>

fun map_store :: "(int \<Rightarrow> int \<Rightarrow> bool) \<Rightarrow> int \<Rightarrow> int \<Rightarrow> (int \<times> int) list \<Rightarrow> (int \<times> int) list" where
  "map_store before p q [] = [(p, q)]"
| "map_store before p q ((a, b) # m) =
     (if before p a then (p, q) # (a, b) # m
      else if before a p then (a, b) # map_store before p q m
      else (p, q) # m)"

definition map_get :: "(int \<times> int) list \<Rightarrow> int \<Rightarrow> int" where
  "map_get m p = (case map_of m p of None \<Rightarrow> 0 | Some q \<Rightarrow> q)"

fun aggregate_levels ::
  "(int \<Rightarrow> int \<Rightarrow> bool) \<Rightarrow> string \<Rightarrow> string \<Rightarrow> price_level list \<Rightarrow> (int \<times> int) list
   \<Rightarrow> (int \<times> int) list result" where
  "aggregate_levels before side_name overflow_message [] aggregated = Inr aggregated"
| "aggregate_levels before side_name overflow_message (level # levels) aggregated =
     and_then (validate_level (pl_price_ticks level) (pl_quantity level) side_name) (\<lambda>_.
       if pl_quantity level = 0
       then aggregate_levels before side_name overflow_message levels aggregated
       else (let quantity = map_get aggregated (pl_price_ticks level)
             in if pl_quantity level > INT64_MAX - quantity then Inl (Overflow_error overflow_message)
                else aggregate_levels before side_name overflow_message levels
                       (map_store before (pl_price_ticks level) (quantity + pl_quantity level)
                         aggregated)))"

definition normalized_levels :: "(int \<times> int) list \<Rightarrow> price_level list" where
  "normalized_levels m = map (\<lambda>(p, q). \<lparr>pl_price_ticks = p, pl_quantity = q\<rparr>) m"

definition normalize_bids :: "price_level list \<Rightarrow> price_level list result" where
  "normalize_bids levels =
     and_then (aggregate_levels bid_before ''Bid'' ''Duplicate bid quantity overflow.'' levels [])
       (\<lambda>m. Inr (normalized_levels m))"

definition normalize_asks :: "price_level list \<Rightarrow> price_level list result" where
  "normalize_asks levels =
     and_then (aggregate_levels ask_before ''Ask'' ''Duplicate ask quantity overflow.'' levels [])
       (\<lambda>m. Inr (normalized_levels m))"

definition replace_snapshot ::
  "price_level list \<Rightarrow> price_level list \<Rightarrow> order_book \<Rightarrow> (unit, order_book) outcome" where
  "replace_snapshot bids asks book =
     (case normalize_bids bids of
        Inl e \<Rightarrow> (Inl e, book)
      | Inr normalized_bids \<Rightarrow>
          (case normalize_asks asks of
             Inl e \<Rightarrow> (Inl e, book)
           | Inr normalized_asks \<Rightarrow>
               (Inr (), book\<lparr>ob_bids := normalized_bids, ob_asks := normalized_asks\<rparr>)))"

definition replace_normalized_snapshot ::
  "price_level list \<Rightarrow> price_level list \<Rightarrow> order_book \<Rightarrow> order_book" where
  "replace_normalized_snapshot bids asks book = book\<lparr>ob_bids := bids, ob_asks := asks\<rparr>"

subsection \<open>Incremental updates\<close>

definition update_levels ::
  "(int \<Rightarrow> int \<Rightarrow> bool) \<Rightarrow> string \<Rightarrow> price_level list \<Rightarrow> int \<Rightarrow> int \<Rightarrow> price_level list result" where
  "update_levels before side_name levels price_ticks quantity =
     and_then (validate_level price_ticks quantity side_name) (\<lambda>_.
       let i = lower_bound (level_before before) levels price_ticks
       in if i \<noteq> length levels \<and> pl_price_ticks (levels ! i) = price_ticks
          then (if quantity = 0 then Inr (erase_at i levels)
                else Inr (levels[i := (levels ! i)\<lparr>pl_quantity := quantity\<rparr>]))
          else if quantity = 0 then Inr levels
          else Inr (insert_at i \<lparr>pl_price_ticks = price_ticks, pl_quantity = quantity\<rparr> levels))"

definition update_bid_levels :: "price_level list \<Rightarrow> int \<Rightarrow> int \<Rightarrow> price_level list result" where
  "update_bid_levels levels price_ticks quantity =
     update_levels bid_before ''Bid'' levels price_ticks quantity"

definition update_ask_levels :: "price_level list \<Rightarrow> int \<Rightarrow> int \<Rightarrow> price_level list result" where
  "update_ask_levels levels price_ticks quantity =
     update_levels ask_before ''Ask'' levels price_ticks quantity"

definition negative_adjustment :: "string \<Rightarrow> cpp_error" where
  "negative_adjustment side_name =
     Invalid_argument (side_name @ '' quantity adjustment would make quantity negative.'')"

definition adjust_levels ::
  "price_level list \<Rightarrow> int \<Rightarrow> int \<Rightarrow> string \<Rightarrow> (int \<Rightarrow> int \<Rightarrow> bool) \<Rightarrow> price_level list result" where
  "adjust_levels levels price_ticks quantity_delta side_name before =
     and_then (validate_adjustment_price price_ticks side_name) (\<lambda>_.
       let i = lower_bound (level_before before) levels price_ticks
       in if i = length levels \<or> pl_price_ticks (levels ! i) \<noteq> price_ticks
          then (if quantity_delta < 0 then Inl (negative_adjustment side_name)
                else if quantity_delta = 0 then Inr levels
                else Inr (insert_at i \<lparr>pl_price_ticks = price_ticks, pl_quantity = quantity_delta\<rparr>
                            levels))
          else if quantity_delta = 0 then Inr levels
          else if quantity_delta > 0
          then (if pl_quantity (levels ! i) > INT64_MAX - quantity_delta
                then Inl (Overflow_error (side_name @ '' quantity adjustment overflow.''))
                else Inr (levels[i := (levels ! i)
                            \<lparr>pl_quantity := pl_quantity (levels ! i) + quantity_delta\<rparr>]))
          else if quantity_delta = INT64_MIN then Inl (negative_adjustment side_name)
          else (let quantity_to_remove = - quantity_delta
                in if quantity_to_remove > pl_quantity (levels ! i)
                   then Inl (negative_adjustment side_name)
                   else if quantity_to_remove = pl_quantity (levels ! i)
                   then Inr (erase_at i levels)
                   else Inr (levels[i := (levels ! i)
                               \<lparr>pl_quantity := pl_quantity (levels ! i) - quantity_to_remove\<rparr>])))"

text \<open>The four locked entry points: an exception leaves the vectors as they were.\<close>

definition on_bids ::
  "(price_level list \<Rightarrow> price_level list result) \<Rightarrow> order_book \<Rightarrow> (unit, order_book) outcome" where
  "on_bids f book = (case f (ob_bids book) of Inl e \<Rightarrow> (Inl e, book)
                     | Inr levels \<Rightarrow> (Inr (), book\<lparr>ob_bids := levels\<rparr>))"

definition on_asks ::
  "(price_level list \<Rightarrow> price_level list result) \<Rightarrow> order_book \<Rightarrow> (unit, order_book) outcome" where
  "on_asks f book = (case f (ob_asks book) of Inl e \<Rightarrow> (Inl e, book)
                     | Inr levels \<Rightarrow> (Inr (), book\<lparr>ob_asks := levels\<rparr>))"

definition update_bid :: "int \<Rightarrow> int \<Rightarrow> order_book \<Rightarrow> (unit, order_book) outcome" where
  "update_bid price_ticks quantity = on_bids (\<lambda>levels. update_bid_levels levels price_ticks quantity)"

definition update_ask :: "int \<Rightarrow> int \<Rightarrow> order_book \<Rightarrow> (unit, order_book) outcome" where
  "update_ask price_ticks quantity = on_asks (\<lambda>levels. update_ask_levels levels price_ticks quantity)"

definition adjust_bid :: "int \<Rightarrow> int \<Rightarrow> order_book \<Rightarrow> (unit, order_book) outcome" where
  "adjust_bid price_ticks quantity_delta =
     on_bids (\<lambda>levels. adjust_levels levels price_ticks quantity_delta ''Bid'' bid_before)"

definition adjust_ask :: "int \<Rightarrow> int \<Rightarrow> order_book \<Rightarrow> (unit, order_book) outcome" where
  "adjust_ask price_ticks quantity_delta =
     on_asks (\<lambda>levels. adjust_levels levels price_ticks quantity_delta ''Ask'' ask_before)"

subsection \<open>Queries\<close>

definition best_bid :: "order_book \<Rightarrow> price_level option" where
  "best_bid book = (case ob_bids book of [] \<Rightarrow> None | level # _ \<Rightarrow> Some level)"

definition best_ask :: "order_book \<Rightarrow> price_level option" where
  "best_ask book = (case ob_asks book of [] \<Rightarrow> None | level # _ \<Rightarrow> Some level)"

definition spread_ticks :: "order_book \<Rightarrow> int option" where
  "spread_ticks book =
     (case (ob_bids book, ob_asks book) of
        (bid # _, ask # _) \<Rightarrow> Some (pl_price_ticks ask - pl_price_ticks bid)
      | _ \<Rightarrow> None)"

definition mid_price_ticks :: "order_book \<Rightarrow> int option" where
  "mid_price_ticks book =
     (case (ob_bids book, ob_asks book) of
        (bid # _, ask # _) \<Rightarrow>
          Some (pl_price_ticks bid + cdiv (pl_price_ticks ask - pl_price_ticks bid) 2)
      | _ \<Rightarrow> None)"

fun calculate_depth_from :: "int \<Rightarrow> price_level list \<Rightarrow> int result" where
  "calculate_depth_from depth [] = Inr depth"
| "calculate_depth_from depth (level # levels) =
     (if pl_quantity level > INT64_MAX - depth
      then Inl (Overflow_error ''Order-book depth overflow.'')
      else calculate_depth_from (depth + pl_quantity level) levels)"

definition calculate_depth :: "price_level list \<Rightarrow> int result" where
  "calculate_depth levels = calculate_depth_from 0 levels"

definition bid_depth :: "order_book \<Rightarrow> int" where
  "bid_depth book = (case calculate_depth (ob_bids book) of Inl _ \<Rightarrow> INT64_MAX | Inr depth \<Rightarrow> depth)"

definition ask_depth :: "order_book \<Rightarrow> int" where
  "ask_depth book = (case calculate_depth (ob_asks book) of Inl _ \<Rightarrow> INT64_MAX | Inr depth \<Rightarrow> depth)"

definition total_depth :: "order_book \<Rightarrow> int" where
  "total_depth book =
     (case calculate_depth (ob_bids book) of
        Inl _ \<Rightarrow> INT64_MAX
      | Inr bid_total \<Rightarrow>
          (case calculate_depth (ob_asks book) of
             Inl _ \<Rightarrow> INT64_MAX
           | Inr ask_total \<Rightarrow>
               (if bid_total > INT64_MAX - ask_total then INT64_MAX else bid_total + ask_total)))"

definition sum_quantities :: "rounding_mode \<Rightarrow> price_level list \<Rightarrow> rat" where
  "sum_quantities ld levels =
     foldl (\<lambda>acc level. ld (acc + ld (of_int (pl_quantity level)))) 0 levels"

definition sum_notional :: "rounding_mode \<Rightarrow> price_level list \<Rightarrow> rat" where
  "sum_notional ld levels =
     foldl (\<lambda>acc level. ld (acc + ld (ld (of_int (pl_price_ticks level)) * ld (of_int (pl_quantity level)))))
       0 levels"

definition calculate_imbalance ::
  "rounding_mode \<Rightarrow> rounding_mode \<Rightarrow> price_level list \<Rightarrow> price_level list \<Rightarrow> rat option" where
  "calculate_imbalance ld dbl bids asks =
     (let bid_total = sum_quantities ld bids;
          ask_total = sum_quantities ld asks;
          total = ld (bid_total + ask_total)
      in if total = 0 then None else Some (dbl (ld (ld (bid_total - ask_total) / total))))"

definition order_book_imbalance :: "rounding_mode \<Rightarrow> rounding_mode \<Rightarrow> order_book \<Rightarrow> rat option" where
  "order_book_imbalance ld dbl book = calculate_imbalance ld dbl (ob_bids book) (ob_asks book)"

definition calculate_vwap_ticks :: "rounding_mode \<Rightarrow> price_level list \<Rightarrow> int option" where
  "calculate_vwap_ticks ld levels =
     (if levels = [] then None
      else let weighted_price_total = sum_notional ld levels;
               quantity_total = sum_quantities ld levels
           in if quantity_total = 0 then None
              else let vwap = ld (weighted_price_total / quantity_total)
                   in if vwap > ld (of_int INT64_MAX) then None else Some (trunc vwap))"

definition bid_vwap_ticks :: "rounding_mode \<Rightarrow> order_book \<Rightarrow> int option" where
  "bid_vwap_ticks ld book = calculate_vwap_ticks ld (ob_bids book)"

definition ask_vwap_ticks :: "rounding_mode \<Rightarrow> order_book \<Rightarrow> int option" where
  "ask_vwap_ticks ld book = calculate_vwap_ticks ld (ob_asks book)"

definition microprice_ticks :: "rounding_mode \<Rightarrow> order_book \<Rightarrow> int option" where
  "microprice_ticks ld book =
     (case (ob_bids book, ob_asks book) of
        (bid # _, ask # _) \<Rightarrow>
          (let bid_quantity = ld (of_int (pl_quantity bid));
               ask_quantity = ld (of_int (pl_quantity ask));
               total_quantity = ld (bid_quantity + ask_quantity)
           in if total_quantity = 0 then None
              else let weighted_price = ld (ld (ld (of_int (pl_price_ticks bid)) * ask_quantity)
                                          + ld (ld (of_int (pl_price_ticks ask)) * bid_quantity))
                   in Some (trunc (ld (weighted_price / total_quantity))))
      | _ \<Rightarrow> None)"

definition book_empty :: "order_book \<Rightarrow> bool" where
  "book_empty book \<longleftrightarrow> ob_bids book = [] \<and> ob_asks book = []"

subsection \<open>The abstract book side: a quantity per price\<close>

text \<open>
  A side of the book stands for a function from prices to quantities, 0 where there is no level.
  \<open>levels_ok\<close> is the representation invariant (strictly ordered, positive quantities that fit
  \<open>int64_t\<close>), and \<open>set_level\<close> the reference update: it puts one price to a given quantity.
\<close>

definition level_qty :: "price_level list \<Rightarrow> int \<Rightarrow> int" where
  "level_qty levels p =
     (case List.find (\<lambda>l. pl_price_ticks l = p) levels of None \<Rightarrow> 0 | Some l \<Rightarrow> pl_quantity l)"

definition levels_ok :: "(int \<Rightarrow> int \<Rightarrow> bool) \<Rightarrow> price_level list \<Rightarrow> bool" where
  "levels_ok before levels \<longleftrightarrow>
     sorted_wrt (\<lambda>a b. before (pl_price_ticks a) (pl_price_ticks b)) levels
     \<and> (\<forall>l \<in> set levels. 0 \<le> pl_price_ticks l \<and> 0 < pl_quantity l \<and> pl_quantity l \<le> INT64_MAX)"

definition set_level :: "(int \<Rightarrow> int \<Rightarrow> bool) \<Rightarrow> price_level list \<Rightarrow> int \<Rightarrow> int \<Rightarrow> price_level list" where
  "set_level before levels p q =
     filter (\<lambda>l. before (pl_price_ticks l) p) levels
     @ (if q = 0 then [] else [\<lparr>pl_price_ticks = p, pl_quantity = q\<rparr>])
     @ filter (\<lambda>l. before p (pl_price_ticks l)) levels"

text \<open>What a snapshot lists for a price, over all the levels that name it.\<close>

definition listed_qty :: "price_level list \<Rightarrow> int \<Rightarrow> int" where
  "listed_qty levels p = sum_list (map pl_quantity (filter (\<lambda>l. pl_price_ticks l = p) levels))"

definition levels_valid :: "price_level list \<Rightarrow> bool" where
  "levels_valid levels \<longleftrightarrow> (\<forall>l \<in> set levels. 0 \<le> pl_price_ticks l \<and> 0 \<le> pl_quantity l)"

definition book_ok :: "order_book \<Rightarrow> bool" where
  "book_ok book \<longleftrightarrow> levels_ok bid_before (ob_bids book) \<and> levels_ok ask_before (ob_asks book)"

lemma level_qty_Nil [simp]: "level_qty [] p = 0"
  by (simp add: level_qty_def)

lemma level_qty_Cons:
  "level_qty (l # ls) p = (if pl_price_ticks l = p then pl_quantity l else level_qty ls p)"
  by (simp add: level_qty_def)

lemma level_qty_notin: "p \<notin> pl_price_ticks ` set ls \<Longrightarrow> level_qty ls p = 0"
  by (induction ls) (auto simp: level_qty_Cons)

lemma level_qty_append:
  "level_qty (xs @ ys) p = (if p \<in> pl_price_ticks ` set xs then level_qty xs p else level_qty ys p)"
  by (induction xs) (auto simp: level_qty_Cons)

lemma level_qty_pos:
  "levels_ok before ls \<Longrightarrow> p \<in> pl_price_ticks ` set ls \<Longrightarrow> 0 < level_qty ls p"
  by (induction ls) (auto simp: levels_ok_def level_qty_Cons)

lemma level_qty_range: "levels_ok before ls \<Longrightarrow> 0 \<le> level_qty ls p \<and> level_qty ls p \<le> INT64_MAX"
  by (induction ls) (auto simp: levels_ok_def level_qty_Cons)

lemma level_qty_eq_0_iff:
  "levels_ok before ls \<Longrightarrow> level_qty ls p = 0 \<longleftrightarrow> p \<notin> pl_price_ticks ` set ls"
  using level_qty_pos level_qty_notin by force

lemma levels_ok_Nil [simp]: "levels_ok before []"
  by (simp add: levels_ok_def)

lemma levels_ok_Cons:
  "levels_ok before (l # ls) \<longleftrightarrow>
     (\<forall>x \<in> set ls. before (pl_price_ticks l) (pl_price_ticks x))
     \<and> 0 \<le> pl_price_ticks l \<and> 0 < pl_quantity l \<and> pl_quantity l \<le> INT64_MAX \<and> levels_ok before ls"
  by (auto simp: levels_ok_def)

locale price_order = strict_total before for before :: "int \<Rightarrow> int \<Rightarrow> bool"
begin

lemma filter_equal_at_most_one:
  assumes "levels_ok before ls"
  shows "filter (\<lambda>l. pl_price_ticks l = p) ls =
    (case List.find (\<lambda>l. pl_price_ticks l = p) ls of None \<Rightarrow> [] | Some l \<Rightarrow> [l])"
  using assms
proof (induction ls)
  case (Cons l ls)
  have "pl_price_ticks l \<notin> pl_price_ticks ` set ls"
    using Cons.prems lt_irrefl by (auto simp: levels_ok_Cons image_iff)
  then have "filter (\<lambda>x. pl_price_ticks x = pl_price_ticks l) ls = []"
    by (force simp: filter_empty_conv image_iff)
  with Cons show ?case by (auto simp: levels_ok_Cons)
qed simp

lemma levels_split:
  assumes "levels_ok before ls"
  shows "ls = filter (\<lambda>l. before (pl_price_ticks l) p) ls
    @ filter (\<lambda>l. pl_price_ticks l = p) ls @ filter (\<lambda>l. before p (pl_price_ticks l)) ls"
  using assms
proof (induction ls)
  case (Cons l ls)
  let ?q = "pl_price_ticks l"
  have rest: "\<forall>x \<in> set ls. before ?q (pl_price_ticks x)" and ok: "levels_ok before ls"
    using Cons.prems by (auto simp: levels_ok_Cons)
  consider "before ?q p" | "?q = p" | "before p ?q" using lt_linear by blast
  then show ?case
  proof cases
    case 1
    then show ?thesis using Cons.IH [OF ok] lt_asym [OF 1] lt_irrefl by auto
  next
    case 2
    then have "\<forall>x \<in> set ls. before p (pl_price_ticks x)" using rest by simp
    then have "filter (\<lambda>l. before (pl_price_ticks l) p) ls = []"
      "filter (\<lambda>l. pl_price_ticks l = p) ls = []" "filter (\<lambda>l. before p (pl_price_ticks l)) ls = ls"
      using lt_asym lt_irrefl by (auto simp: filter_empty_conv filter_id_conv)
    with 2 show ?thesis by (simp add: lt_irrefl)
  next
    case 3
    then have "\<forall>x \<in> set ls. before p (pl_price_ticks x)" using rest lt_trans by blast
    then have "filter (\<lambda>l. before (pl_price_ticks l) p) ls = []"
      "filter (\<lambda>l. pl_price_ticks l = p) ls = []" "filter (\<lambda>l. before p (pl_price_ticks l)) ls = ls"
      using lt_asym lt_irrefl by (auto simp: filter_empty_conv filter_id_conv)
    with 3 show ?thesis using lt_asym [OF 3] lt_irrefl by auto
  qed
qed simp

lemma level_qty_filter_before:
  "levels_ok before ls \<Longrightarrow> level_qty (filter (\<lambda>l. before (pl_price_ticks l) p) ls) r =
     (if before r p then level_qty ls r else 0)"
  by (induction ls) (auto simp: level_qty_Cons levels_ok_Cons)

lemma level_qty_filter_after:
  "levels_ok before ls \<Longrightarrow> level_qty (filter (\<lambda>l. before p (pl_price_ticks l)) ls) r =
     (if before p r then level_qty ls r else 0)"
  by (induction ls) (auto simp: level_qty_Cons levels_ok_Cons)

lemma level_qty_set_level:
  assumes "levels_ok before ls"
  shows "level_qty (set_level before ls p q) = (level_qty ls)(p := q)"
proof
  fix r
  consider "before r p" | "r = p" | "before p r" using lt_linear by blast
  then show "level_qty (set_level before ls p q) r = ((level_qty ls)(p := q)) r"
  proof cases
    case 1
    then have "r \<noteq> p" "\<not> before p r" using lt_irrefl lt_asym by blast+
    with 1 show ?thesis
      using level_qty_filter_before [OF assms, of p r]
      by (auto simp: set_level_def level_qty_append level_qty_Cons
          level_qty_notin level_qty_filter_after [OF assms])
  next
    case 2
    then show ?thesis
      by (auto simp: set_level_def level_qty_append level_qty_Cons lt_irrefl
          level_qty_filter_after [OF assms] level_qty_filter_before [OF assms])
  next
    case 3
    then have "r \<noteq> p" "\<not> before r p" using lt_irrefl lt_asym by blast+
    with 3 show ?thesis
      by (auto simp: set_level_def level_qty_append level_qty_Cons
          level_qty_filter_after [OF assms] level_qty_filter_before [OF assms])
  qed
qed

lemma levels_ok_set_level:
  assumes "levels_ok before ls" "0 \<le> p" "0 \<le> q" "q \<le> INT64_MAX"
  shows "levels_ok before (set_level before ls p q)"
  using assms lt_trans by (auto simp: levels_ok_def set_level_def sorted_wrt_append sorted_wrt_filter)

lemma levels_ext:
  assumes "levels_ok before xs" "levels_ok before ys" "level_qty xs = level_qty ys"
  shows "xs = ys"
  using assms
proof (induction xs arbitrary: ys)
  case Nil
  then show ?case by (cases ys) (auto simp: levels_ok_Cons level_qty_Cons fun_eq_iff split: if_splits)
next
  case (Cons x xs)
  have "level_qty ys (pl_price_ticks x) \<noteq> 0"
    using Cons.prems by (metis level_qty_Cons levels_ok_Cons less_irrefl)
  then obtain y ys' where ys: "ys = y # ys'" by (cases ys) auto
  have heads: "pl_price_ticks x = pl_price_ticks y"
  proof (rule ccontr)
    assume ne: "pl_price_ticks x \<noteq> pl_price_ticks y"
    have "pl_price_ticks x \<in> pl_price_ticks ` set ys'"
      using \<open>level_qty ys (pl_price_ticks x) \<noteq> 0\<close> ne level_qty_notin
      by (fastforce simp: ys level_qty_Cons)
    moreover have "level_qty (x # xs) (pl_price_ticks y) \<noteq> 0"
      using Cons.prems unfolding ys by (metis level_qty_Cons levels_ok_Cons less_irrefl)
    then have "pl_price_ticks y \<in> pl_price_ticks ` set xs"
      using ne level_qty_notin by (fastforce simp: level_qty_Cons)
    ultimately show False
      using Cons.prems(1,2) lt_asym by (auto simp: ys levels_ok_Cons)
  qed
  have tails: "level_qty xs = level_qty ys'"
  proof
    fix p
    have nx: "level_qty xs (pl_price_ticks x) = 0" "level_qty ys' (pl_price_ticks x) = 0"
      using Cons.prems(1,2) heads lt_irrefl unfolding ys levels_ok_Cons
      by (auto intro!: level_qty_notin)
    show "level_qty xs p = level_qty ys' p"
      using fun_cong [OF Cons.prems(3), of p] heads nx by (auto simp: ys level_qty_Cons split: if_splits)
  qed
  have "pl_quantity x = pl_quantity y"
    using fun_cong [OF Cons.prems(3), of "pl_price_ticks x"] heads by (simp add: ys level_qty_Cons)
  with heads have "x = y" by simp
  with Cons tails ys show ?case by (auto simp: levels_ok_Cons)
qed

lemma set_level_head:
  assumes "levels_ok before (l # ls)"
  shows "set_level before (l # ls) (pl_price_ticks l) q =
    (if q = 0 then ls else \<lparr>pl_price_ticks = pl_price_ticks l, pl_quantity = q\<rparr> # ls)"
proof -
  have "\<forall>x \<in> set ls. before (pl_price_ticks l) (pl_price_ticks x)" using assms by (simp add: levels_ok_Cons)
  then have "filter (\<lambda>x. before (pl_price_ticks x) (pl_price_ticks l)) ls = []"
    "filter (\<lambda>x. before (pl_price_ticks l) (pl_price_ticks x)) ls = ls"
    using lt_asym by (auto simp: filter_empty_conv filter_id_conv)
  then show ?thesis using lt_irrefl by (simp add: set_level_def)
qed

lemma set_level_same: "levels_ok before ls \<Longrightarrow> 0 \<le> p \<Longrightarrow> set_level before ls p (level_qty ls p) = ls"
  by (rule levels_ext) (auto simp: levels_ok_set_level level_qty_set_level level_qty_range)

lemma set_level_twice:
  assumes "levels_ok before ls" "0 \<le> p" "0 \<le> q" "q \<le> INT64_MAX" "0 \<le> r" "r \<le> INT64_MAX"
  shows "set_level before (set_level before ls p q) p r = set_level before ls p r"
  by (rule levels_ext) (use assms in \<open>simp_all add: levels_ok_set_level level_qty_set_level\<close>)

lemma lower_bound_levels:
  assumes "levels_ok before ls"
  shows "lower_bound (level_before before) ls p = length (filter (\<lambda>l. before (pl_price_ticks l) p) ls)"
proof -
  have "partitioned (level_before before) ls p"
    using assms lt_trans unfolding partitioned_def levels_ok_def level_before_def
    by (auto elim!: sorted_wrt_mono_rel [rotated])
  moreover have "takeWhile (\<lambda>l. before (pl_price_ticks l) p) ls = filter (\<lambda>l. before (pl_price_ticks l) p) ls"
    using assms
  proof (induction ls)
    case (Cons l ls)
    show ?case
    proof (cases "before (pl_price_ticks l) p")
      case True
      with Cons show ?thesis by (simp add: levels_ok_Cons)
    next
      case False
      then have "\<not> before (pl_price_ticks x) p" if "x \<in> set ls" for x
        using that Cons.prems lt_trans by (auto simp: levels_ok_Cons)
      with False show ?thesis by (simp add: filter_empty_conv)
    qed
  qed simp
  ultimately show ?thesis
    by (simp add: lower_bound_partition_point level_before_def)
qed

text \<open>
  A vector edit at the lower bound of a price is a reference update: a level that is there is
  overwritten or erased, one that is not is inserted.
\<close>

lemma absent_split:
  assumes "levels_ok before ls" "p \<notin> pl_price_ticks ` set ls"
  shows "ls = filter (\<lambda>l. before (pl_price_ticks l) p) ls @ filter (\<lambda>l. before p (pl_price_ticks l)) ls"
  using levels_split [OF assms(1), of p] assms(2)
  by (metis (mono_tags, lifting) append_Nil filter_False image_eqI)

lemma present_split:
  assumes "levels_ok before ls" "p \<in> pl_price_ticks ` set ls"
  obtains l where
    "ls = filter (\<lambda>l. before (pl_price_ticks l) p) ls @ l # filter (\<lambda>l. before p (pl_price_ticks l)) ls"
    "pl_price_ticks l = p" "pl_quantity l = level_qty ls p"
proof -
  from assms(2) obtain l where l: "List.find (\<lambda>l. pl_price_ticks l = p) ls = Some l"
    by (cases "List.find (\<lambda>l. pl_price_ticks l = p) ls") (auto simp: find_None_iff)
  then have "filter (\<lambda>l. pl_price_ticks l = p) ls = [l]"
    using filter_equal_at_most_one [OF assms(1)] by simp
  moreover have "pl_price_ticks l = p" using l by (auto simp: find_Some_iff)
  moreover have "pl_quantity l = level_qty ls p" using l by (simp add: level_qty_def)
  ultimately show ?thesis
    using that levels_split [OF assms(1), of p] by (metis append_Cons append_Nil)
qed

lemma lower_bound_finds:
  assumes "levels_ok before ls"
  shows "(lower_bound (level_before before) ls p \<noteq> length ls
      \<and> pl_price_ticks (ls ! lower_bound (level_before before) ls p) = p)
    \<longleftrightarrow> p \<in> pl_price_ticks ` set ls" (is "?at \<longleftrightarrow> ?in")
proof
  assume ?at
  moreover have "lower_bound (level_before before) ls p \<le> length ls"
    by (simp add: lower_bound_levels [OF assms])
  ultimately show ?in by (metis image_eqI le_neq_implies_less nth_mem)
next
  assume ?in
  from present_split [OF assms this] show ?at
    by (metis length_append length_greater_0_conv less_add_same_cancel1 less_irrefl
        list.distinct(1) lower_bound_levels [OF assms] nth_append_length)
qed

lemma edit_present:
  assumes "levels_ok before ls" "p \<in> pl_price_ticks ` set ls"
    and i: "i = lower_bound (level_before before) ls p"
  shows "pl_quantity (ls ! i) = level_qty ls p"
    and "q \<noteq> 0 \<Longrightarrow> ls[i := (ls ! i)\<lparr>pl_quantity := q\<rparr>] = set_level before ls p q"
    and "erase_at i ls = set_level before ls p 0"
proof -
  let ?A = "filter (\<lambda>l. before (pl_price_ticks l) p) ls"
  let ?B = "filter (\<lambda>l. before p (pl_price_ticks l)) ls"
  obtain l where l: "ls = ?A @ l # ?B" "pl_price_ticks l = p" "pl_quantity l = level_qty ls p"
    by (rule present_split [OF assms(1,2)])
  have i': "i = length ?A" by (simp add: i lower_bound_levels [OF assms(1)])
  have cuts: "take i ls = ?A" "drop i ls = l # ?B" "ls ! i = l"
    using l(1) unfolding i' by (metis append_eq_conv_conj nth_append_length)+
  show "pl_quantity (ls ! i) = level_qty ls p" using cuts(3) l(3) by simp
  show "erase_at i ls = set_level before ls p 0"
    using cuts(1,2) by (simp add: erase_at_def set_level_def drop_Suc tl_drop [symmetric])
  assume "q \<noteq> 0"
  have "ls[i := l\<lparr>pl_quantity := q\<rparr>] = ?A @ l\<lparr>pl_quantity := q\<rparr> # ?B"
    using l(1) unfolding i' by (metis list_update_length)
  then show "ls[i := (ls ! i)\<lparr>pl_quantity := q\<rparr>] = set_level before ls p q"
    using l(2) \<open>q \<noteq> 0\<close> cuts(3) by (cases l) (simp add: set_level_def)
qed

lemma edit_absent:
  assumes "levels_ok before ls" "p \<notin> pl_price_ticks ` set ls"
    and i: "i = lower_bound (level_before before) ls p" and "q \<noteq> 0"
  shows "insert_at i \<lparr>pl_price_ticks = p, pl_quantity = q\<rparr> ls = set_level before ls p q"
proof -
  have "take i ls = filter (\<lambda>l. before (pl_price_ticks l) p) ls"
    "drop i ls = filter (\<lambda>l. before p (pl_price_ticks l)) ls"
    using absent_split [OF assms(1,2)] unfolding i lower_bound_levels [OF assms(1)]
    by (metis append_eq_conv_conj)+
  then show ?thesis using \<open>q \<noteq> 0\<close> by (simp add: insert_at_def set_level_def)
qed

lemma set_level_absent_0:
  "levels_ok before ls \<Longrightarrow> p \<notin> pl_price_ticks ` set ls \<Longrightarrow> set_level before ls p 0 = ls"
  using absent_split [of ls p] by (simp add: set_level_def)

subsection \<open>The operations as reference updates\<close>

lemma update_levels_eq:
  assumes "levels_ok before ls"
  shows "update_levels before side_name ls p q =
    and_then (validate_level p q side_name) (\<lambda>_. Inr (set_level before ls p q))"
proof (cases "p \<in> pl_price_ticks ` set ls")
  case True
  then show ?thesis
    using edit_present [OF assms True refl] lower_bound_finds [OF assms, of p]
    by (cases "q = 0") (auto simp: update_levels_def Let_def)
next
  case False
  then show ?thesis
    using edit_absent [OF assms False refl, of q] lower_bound_finds [OF assms, of p]
      set_level_absent_0 [OF assms False]
    by (cases "q = 0") (auto simp: update_levels_def Let_def)
qed

lemma adjust_levels_eq:
  assumes "levels_ok before ls" "0 \<le> p" "i64 d"
  shows "adjust_levels ls p d side_name before =
    (if level_qty ls p + d < 0 then Inl (negative_adjustment side_name)
     else if level_qty ls p + d > INT64_MAX
     then Inl (Overflow_error (side_name @ '' quantity adjustment overflow.''))
     else Inr (set_level before ls p (level_qty ls p + d)))"
proof -
  have valid: "validate_adjustment_price p side_name = Inr ()"
    using assms(2) by (simp add: validate_adjustment_price_def)
  have d: "INT64_MIN \<le> d" "d \<le> INT64_MAX" using assms(3) by (simp_all add: i64_def)
  show ?thesis
  proof (cases "p \<in> pl_price_ticks ` set ls")
    case True
    have q: "0 < level_qty ls p" "level_qty ls p \<le> INT64_MAX"
      using level_qty_pos [OF assms(1) True] level_qty_range [OF assms(1)] by auto
    note edit = edit_present [OF assms(1) True refl]
    have at: "\<not> (lower_bound (level_before before) ls p = length ls
        \<or> pl_price_ticks (ls ! lower_bound (level_before before) ls p) \<noteq> p)"
      using lower_bound_finds [OF assms(1), of p] True by blast
    consider "d = 0" | "0 < d" | "d < 0" by linarith
    then show ?thesis
    proof cases
      case 1
      then show ?thesis
        using q at by (simp add: adjust_levels_def valid Let_def set_level_same [OF assms(1,2)])
    next
      case 2
      then show ?thesis using q at by (auto simp: adjust_levels_def valid Let_def edit)
    next
      case 3
      show ?thesis
      proof (cases "d = - level_qty ls p")
        case True
        with q at show ?thesis by (simp add: adjust_levels_def valid Let_def edit INT64_MIN_eq)
      next
        case False
        with 3 q d at show ?thesis
          by (auto simp: adjust_levels_def valid Let_def edit INT64_MIN_eq)
      qed
    qed
  next
    case False
    have q: "level_qty ls p = 0" using False by (rule level_qty_notin)
    have at: "lower_bound (level_before before) ls p = length ls
        \<or> pl_price_ticks (ls ! lower_bound (level_before before) ls p) \<noteq> p"
      using lower_bound_finds [OF assms(1), of p] False by blast
    show ?thesis
      using q d at edit_absent [OF assms(1) False refl, of d] set_level_absent_0 [OF assms(1) False]
      by (auto simp: adjust_levels_def valid Let_def)
  qed
qed

subsection \<open>Snapshot normalisation\<close>

lemma map_get_normalized: "map_get m p = level_qty (normalized_levels m) p"
  by (induction m) (auto simp: map_get_def normalized_levels_def level_qty_Cons)

lemma normalized_map_store:
  assumes "levels_ok before (normalized_levels m)" "q \<noteq> 0"
  shows "normalized_levels (map_store before p q m) = set_level before (normalized_levels m) p q"
  using assms
proof (induction m)
  case Nil
  then show ?case by (simp add: normalized_levels_def set_level_def)
next
  case (Cons ab m)
  obtain a b where ab: "ab = (a, b)" by (cases ab)
  have rest: "\<forall>x \<in> set (normalized_levels m). before a (pl_price_ticks x)"
    and ok: "levels_ok before (normalized_levels m)"
    using Cons.prems(1) by (auto simp: ab normalized_levels_def levels_ok_Cons)
  have after: "filter (\<lambda>l. before (pl_price_ticks l) p) (normalized_levels m) = []"
    "filter (\<lambda>l. before p (pl_price_ticks l)) (normalized_levels m) = normalized_levels m"
    if "before p a \<or> p = a"
  proof -
    have "before p (pl_price_ticks x)" if "x \<in> set (normalized_levels m)" for x
      using that \<open>before p a \<or> p = a\<close> rest lt_trans by blast
    then show "filter (\<lambda>l. before (pl_price_ticks l) p) (normalized_levels m) = []"
      "filter (\<lambda>l. before p (pl_price_ticks l)) (normalized_levels m) = normalized_levels m"
      using lt_asym by (auto simp: filter_empty_conv filter_id_conv)
  qed
  have cons: "normalized_levels (ab # m) = \<lparr>pl_price_ticks = a, pl_quantity = b\<rparr> # normalized_levels m"
    by (simp add: ab normalized_levels_def)
  consider "before p a" | "p = a" | "before a p" using lt_linear by blast
  then show ?case
  proof cases
    case 1
    with after Cons.prems(2) lt_asym [OF 1] show ?thesis
      by (simp add: cons set_level_def) (simp add: ab normalized_levels_def)
  next
    case 2
    with after Cons.prems(2) lt_irrefl show ?thesis
      by (simp add: cons set_level_def) (simp add: ab normalized_levels_def)
  next
    case 3
    with Cons.IH [OF ok Cons.prems(2)] lt_asym [OF 3] Cons.prems(2) show ?thesis
      by (simp add: cons set_level_def) (simp add: ab normalized_levels_def)
  qed
qed

lemma aggregate_step:
  assumes "levels_ok before (normalized_levels m)" "0 \<le> p" "0 < q" "map_get m p + q \<le> INT64_MAX"
  shows "levels_ok before (normalized_levels (map_store before p (map_get m p + q) m))"
    and "level_qty (normalized_levels (map_store before p (map_get m p + q) m)) =
      (level_qty (normalized_levels m))(p := level_qty (normalized_levels m) p + q)"
proof -
  have q0: "0 \<le> map_get m p" using level_qty_range [OF assms(1)] by (simp add: map_get_normalized)
  have store: "normalized_levels (map_store before p (map_get m p + q) m)
      = set_level before (normalized_levels m) p (map_get m p + q)"
    using normalized_map_store [OF assms(1)] q0 assms(3) by simp
  show "levels_ok before (normalized_levels (map_store before p (map_get m p + q) m))"
    unfolding store using levels_ok_set_level [OF assms(1)] assms(2-4) q0 by simp
  show "level_qty (normalized_levels (map_store before p (map_get m p + q) m)) =
      (level_qty (normalized_levels m))(p := level_qty (normalized_levels m) p + q)"
    unfolding store level_qty_set_level [OF assms(1)] by (simp add: map_get_normalized)
qed

lemma aggregate_levels_sound:
  assumes "levels_ok before (normalized_levels m)"
    and "aggregate_levels before side_name msg ls m = Inr m'"
  shows "levels_valid ls \<and> levels_ok before (normalized_levels m')
    \<and> level_qty (normalized_levels m') = (\<lambda>p. level_qty (normalized_levels m) p + listed_qty ls p)"
  using assms
proof (induction ls arbitrary: m)
  case Nil
  then show ?case by (simp add: listed_qty_def levels_valid_def)
next
  case (Cons l ls)
  let ?p = "pl_price_ticks l" and ?q = "pl_quantity l"
  have valid: "0 \<le> ?p" "0 \<le> ?q"
    using Cons.prems(2) by (auto simp: validate_level_def and_then_eq_Inr_iff split: if_splits)
  show ?case
  proof (cases "?q = 0")
    case True
    then show ?thesis
      using Cons valid by (auto simp: validate_level_def listed_qty_def levels_valid_def fun_eq_iff)
  next
    case False
    let ?m = "map_store before ?p (map_get m ?p + ?q) m"
    have fits: "map_get m ?p + ?q \<le> INT64_MAX"
      and rest: "aggregate_levels before side_name msg ls ?m = Inr m'"
      using Cons.prems(2) valid False by (auto simp: validate_level_def Let_def split: if_splits)
    note step = aggregate_step [OF Cons.prems(1) valid(1) _ fits]
    have "0 < ?q" using valid(2) False by simp
    with Cons.IH [OF step(1) rest] valid show ?thesis
      by (auto simp: step(2) listed_qty_def levels_valid_def fun_eq_iff)
  qed
qed

lemma listed_qty_nonneg: "levels_valid ls \<Longrightarrow> 0 \<le> listed_qty ls p"
  by (auto simp: listed_qty_def levels_valid_def intro!: sum_list_nonneg)

lemma aggregate_levels_total:
  assumes "levels_ok before (normalized_levels m)" "levels_valid ls"
    and "\<forall>p. level_qty (normalized_levels m) p + listed_qty ls p \<le> INT64_MAX"
  shows "\<exists>m'. aggregate_levels before side_name msg ls m = Inr m'"
  using assms
proof (induction ls arbitrary: m)
  case (Cons l ls)
  let ?p = "pl_price_ticks l" and ?q = "pl_quantity l"
  have valid: "0 \<le> ?p" "0 \<le> ?q" "levels_valid ls"
    using Cons.prems(2) by (auto simp: levels_valid_def)
  have here: "level_qty (normalized_levels m) ?p + ?q + listed_qty ls ?p \<le> INT64_MAX"
    using spec [OF Cons.prems(3), of ?p] by (simp add: listed_qty_def)
  show ?case
  proof (cases "?q = 0")
    case True
    then show ?thesis
      using Cons.IH [OF Cons.prems(1) valid(3)] Cons.prems(3) valid
      by (auto simp: validate_level_def listed_qty_def split: if_splits)
  next
    case False
    let ?m = "map_store before ?p (map_get m ?p + ?q) m"
    have fits: "map_get m ?p + ?q \<le> INT64_MAX"
      using here listed_qty_nonneg [OF valid(3), of ?p] by (simp add: map_get_normalized)
    have pos: "0 < ?q" using valid(2) False by simp
    note step = aggregate_step [OF Cons.prems(1) valid(1) pos fits]
    have "level_qty (normalized_levels ?m) p + listed_qty ls p \<le> INT64_MAX" for p
      using spec [OF Cons.prems(3), of p] by (auto simp: step(2) listed_qty_def split: if_splits)
    then show ?thesis
      using Cons.IH [OF step(1) valid(3)] valid fits False by (auto simp: validate_level_def Let_def)
  qed
qed simp

lemma normalize_spec:
  assumes "nz = (\<lambda>ls. and_then (aggregate_levels before side_name msg ls []) (\<lambda>m. Inr (normalized_levels m)))"
  shows "nz ls = Inr ls' \<longleftrightarrow>
     levels_valid ls \<and> (\<forall>p. listed_qty ls p \<le> INT64_MAX)
     \<and> levels_ok before ls' \<and> level_qty ls' = listed_qty ls"
proof
  assume "nz ls = Inr ls'"
  then obtain m' where m': "aggregate_levels before side_name msg ls [] = Inr m'"
      "ls' = normalized_levels m'"
    by (auto simp: assms and_then_eq_Inr_iff)
  then show "levels_valid ls \<and> (\<forall>p. listed_qty ls p \<le> INT64_MAX)
     \<and> levels_ok before ls' \<and> level_qty ls' = listed_qty ls"
    using aggregate_levels_sound [OF _ m'(1)] level_qty_range [of before ls']
    by (auto simp: normalized_levels_def)
next
  assume r: "levels_valid ls \<and> (\<forall>p. listed_qty ls p \<le> INT64_MAX)
     \<and> levels_ok before ls' \<and> level_qty ls' = listed_qty ls"
  then obtain m' where m': "aggregate_levels before side_name msg ls [] = Inr m'"
    using aggregate_levels_total [of "[]" ls side_name msg] by (auto simp: normalized_levels_def)
  then have "levels_ok before (normalized_levels m')" "level_qty (normalized_levels m') = listed_qty ls"
    using aggregate_levels_sound [OF _ m'] by (auto simp: normalized_levels_def)
  with r have "normalized_levels m' = ls'" by (auto intro: levels_ext)
  with m' show "nz ls = Inr ls'" by (simp add: assms)
qed

end

interpretation bid_order: price_order bid_before
  by unfold_locales auto

interpretation ask_order: price_order ask_before
  by unfold_locales auto

subsection \<open>The book as two abstract sides\<close>

lemmas level_order_laws =
  bid_order.level_qty_set_level ask_order.level_qty_set_level
  bid_order.levels_ok_set_level ask_order.levels_ok_set_level

lemma normalize_bids_Inr_iff:
  "normalize_bids ls = Inr ls' \<longleftrightarrow>
     levels_valid ls \<and> (\<forall>p. listed_qty ls p \<le> INT64_MAX)
     \<and> levels_ok bid_before ls' \<and> level_qty ls' = listed_qty ls"
  using bid_order.normalize_spec [where side_name = "''Bid''" and
      msg = "''Duplicate bid quantity overflow.''", OF refl]
  by (simp add: normalize_bids_def)

lemma normalize_asks_Inr_iff:
  "normalize_asks ls = Inr ls' \<longleftrightarrow>
     levels_valid ls \<and> (\<forall>p. listed_qty ls p \<le> INT64_MAX)
     \<and> levels_ok ask_before ls' \<and> level_qty ls' = listed_qty ls"
  using ask_order.normalize_spec [where side_name = "''Ask''" and
      msg = "''Duplicate ask quantity overflow.''", OF refl]
  by (simp add: normalize_asks_def)

lemma book_ok_empty [simp]: "book_ok empty_book"
  by (simp add: book_ok_def empty_book_def)

lemma levels_total_nonneg: "levels_ok before ls \<Longrightarrow> 0 \<le> sum_list (map pl_quantity ls)"
  by (induction ls) (auto simp: levels_ok_Cons)

lemma calculate_depth_from_eq:
  assumes "levels_ok before ls"
  shows "calculate_depth_from d ls =
    (if d + sum_list (map pl_quantity ls) \<le> INT64_MAX \<or> ls = [] then Inr (d + sum_list (map pl_quantity ls))
     else Inl (Overflow_error ''Order-book depth overflow.''))"
  using assms
proof (induction ls arbitrary: d)
  case (Cons l ls)
  have "0 \<le> sum_list (map pl_quantity ls)"
    using Cons.prems levels_total_nonneg by (auto simp: levels_ok_Cons)
  with Cons show ?case by (auto simp: levels_ok_Cons)
qed simp

lemma calculate_depth_eq:
  assumes "levels_ok before ls"
  shows "calculate_depth ls =
    (if sum_list (map pl_quantity ls) \<le> INT64_MAX then Inr (sum_list (map pl_quantity ls))
     else Inl (Overflow_error ''Order-book depth overflow.''))"
  by (cases "ls = []") (simp_all add: calculate_depth_def calculate_depth_from_eq [OF assms])

lemma depth_saturates:
  assumes "book_ok book"
  shows "bid_depth book = min INT64_MAX (sum_list (map pl_quantity (ob_bids book)))"
    and "ask_depth book = min INT64_MAX (sum_list (map pl_quantity (ob_asks book)))"
    and "total_depth book = min INT64_MAX
           (sum_list (map pl_quantity (ob_bids book)) + sum_list (map pl_quantity (ob_asks book)))"
proof -
  have nn: "0 \<le> sum_list (map pl_quantity (ob_bids book))" "0 \<le> sum_list (map pl_quantity (ob_asks book))"
    using assms by (auto intro: levels_total_nonneg simp: book_ok_def)
  have b: "levels_ok bid_before (ob_bids book)" and a: "levels_ok ask_before (ob_asks book)"
    using assms by (simp_all add: book_ok_def)
  show "bid_depth book = min INT64_MAX (sum_list (map pl_quantity (ob_bids book)))"
    by (simp add: bid_depth_def calculate_depth_eq [OF b])
  show "ask_depth book = min INT64_MAX (sum_list (map pl_quantity (ob_asks book)))"
    by (simp add: ask_depth_def calculate_depth_eq [OF a])
  show "total_depth book = min INT64_MAX
           (sum_list (map pl_quantity (ob_bids book)) + sum_list (map pl_quantity (ob_asks book)))"
    using nn by (simp add: total_depth_def calculate_depth_eq [OF b] calculate_depth_eq [OF a])
qed

lemma best_bid_eq_None_iff [simp]: "best_bid book = None \<longleftrightarrow> ob_bids book = []"
  by (simp add: best_bid_def split: list.splits)

lemma best_ask_eq_None_iff [simp]: "best_ask book = None \<longleftrightarrow> ob_asks book = []"
  by (simp add: best_ask_def split: list.splits)

lemma best_bid_highest:
  "book_ok book \<Longrightarrow> best_bid book = Some l \<Longrightarrow>
     l \<in> set (ob_bids book) \<and> (\<forall>x \<in> set (ob_bids book). pl_price_ticks x \<le> pl_price_ticks l)"
  by (auto simp: best_bid_def book_ok_def levels_ok_Cons split: list.splits)

lemma best_ask_lowest:
  "book_ok book \<Longrightarrow> best_ask book = Some l \<Longrightarrow>
     l \<in> set (ob_asks book) \<and> (\<forall>x \<in> set (ob_asks book). pl_price_ticks l \<le> pl_price_ticks x)"
  by (auto simp: best_ask_def book_ok_def levels_ok_Cons split: list.splits)


subsection \<open>Averages over the book\<close>

text \<open>The sums of the quantities and of the notionals, and what keeps the averages exact before their last rounding.\<close>

definition side_quantity :: "price_level list \<Rightarrow> int" where
  "side_quantity ls = sum_list (map pl_quantity ls)"

definition side_notional :: "price_level list \<Rightarrow> int" where
  "side_notional ls = sum_list (map (\<lambda>l. pl_price_ticks l * pl_quantity l) ls)"

definition cross_notional :: "order_book \<Rightarrow> int" where
  "cross_notional book = (case (best_bid book, best_ask book) of
     (Some b, Some a) \<Rightarrow> pl_price_ticks b * pl_quantity a + pl_price_ticks a * pl_quantity b | _ \<Rightarrow> 0)"

definition queries_exact :: "int \<Rightarrow> order_book \<Rightarrow> bool" where
  "queries_exact bound book \<longleftrightarrow> side_quantity (ob_bids book) + side_quantity (ob_asks book) \<le> bound
     \<and> side_notional (ob_bids book) \<le> bound \<and> side_notional (ob_asks book) \<le> bound \<and> cross_notional book \<le> bound
     \<and> (\<forall>l \<in> set (ob_bids book) \<union> set (ob_asks book). pl_price_ticks l \<le> INT64_MAX)"

lemma side_quantity_pos:
  assumes "levels_ok before ls"
  shows "0 \<le> side_quantity ls" "side_quantity ls = 0 \<longleftrightarrow> ls = []"
  using assms levels_total_nonneg by (induction ls) (fastforce simp: side_quantity_def levels_ok_Cons)+

lemma side_notional_nonneg: "levels_ok before ls \<Longrightarrow> 0 \<le> side_notional ls"
  by (induction ls) (auto simp: side_notional_def levels_ok_Cons)

lemma side_notional_between:
  assumes "levels_ok before ls" "\<forall>l \<in> set ls. lo \<le> pl_price_ticks l \<and> pl_price_ticks l \<le> hi"
  shows "lo * side_quantity ls \<le> side_notional ls" "side_notional ls \<le> hi * side_quantity ls"
  using assms
  by (induction ls) (auto simp: side_notional_def side_quantity_def levels_ok_Cons distrib_left intro!: add_mono mult_right_mono)

lemma level_price_le:
  assumes "levels_ok before ls" "l \<in> set ls"
  shows "pl_price_ticks l \<le> side_notional ls" "0 \<le> pl_price_ticks l"
proof -
  have l: "0 \<le> pl_price_ticks l" "0 < pl_quantity l" using assms by (auto simp: levels_ok_def)
  have "pl_price_ticks l * 1 \<le> pl_price_ticks l * pl_quantity l" using l by (intro mult_left_mono) simp_all
  also have "\<dots> \<le> side_notional ls"
    unfolding side_notional_def using assms by (intro member_le_sum_list) (auto simp: levels_ok_def)
  finally show "pl_price_ticks l \<le> side_notional ls" "0 \<le> pl_price_ticks l" using l by simp_all
qed

context rounding
begin

lemma sum_quantities_exact:
  assumes "levels_ok before ls" "side_quantity ls \<le> bound"
  shows "sum_quantities rnd ls = of_int (side_quantity ls)"
  using rnd_sum_exact [of ls pl_quantity 0] assms
  by (auto simp: sum_quantities_def side_quantity_def levels_ok_def less_imp_le)

lemma product_exact:
  assumes "0 \<le> x" "0 < y" "y \<le> bound" "x * y \<le> bound"
  shows "rnd (rnd (of_int x) * rnd (of_int y)) = of_int (x * y)"
proof -
  have "x * 1 \<le> x * y" using assms by (intro mult_left_mono) simp_all
  then have "rnd (of_int x) = of_int x" "rnd (of_int y) = of_int y" using assms by (intro rnd_exact; simp)+
  then show ?thesis using rnd_exact [of "x * y"] assms by simp
qed

lemma sum_notional_from:
  assumes "levels_ok before ls" "0 \<le> a" "a + side_notional ls \<le> bound" "side_quantity ls \<le> bound"
  shows "foldl (\<lambda>acc l. rnd (acc + rnd (rnd (of_int (pl_price_ticks l)) * rnd (of_int (pl_quantity l))))) (of_int a) ls
    = of_int (a + side_notional ls)"
  using assms
proof (induction ls arbitrary: a)
  case (Cons l ls)
  let ?n = "pl_price_ticks l * pl_quantity l"
  have l: "0 \<le> pl_price_ticks l" "0 < pl_quantity l" and ls: "levels_ok before ls"
    using Cons.prems(1) by (simp_all add: levels_ok_Cons)
  have parts: "side_notional (l # ls) = ?n + side_notional ls" "side_quantity (l # ls) = pl_quantity l + side_quantity ls"
    by (simp_all add: side_notional_def side_quantity_def)
  have nn: "0 \<le> ?n" "0 \<le> side_notional ls" "0 \<le> side_quantity ls"
    using l side_notional_nonneg [OF ls] side_quantity_pos(1) [OF ls] by simp_all
  have "rnd (rnd (of_int (pl_price_ticks l)) * rnd (of_int (pl_quantity l))) = of_int ?n"
    using l nn Cons.prems(2-4) unfolding parts by (intro product_exact) simp_all
  moreover have "rnd (of_int (a + ?n)) = of_int (a + ?n)"
    using nn Cons.prems(2,3) unfolding parts by (intro rnd_exact) simp
  moreover have "foldl (\<lambda>acc l. rnd (acc + rnd (rnd (of_int (pl_price_ticks l)) * rnd (of_int (pl_quantity l))))) (of_int (a + ?n)) ls
      = of_int (a + ?n + side_notional ls)"
    using ls nn Cons.prems(2-4) l unfolding parts by (intro Cons.IH) simp_all
  ultimately show ?case unfolding parts by (simp add: add.assoc)
qed (simp add: side_notional_def)

lemma vwap_ticks_between:
  assumes ok: "levels_ok before ls" and b: "side_quantity ls \<le> bound" "side_notional ls \<le> bound"
    and p: "\<forall>l \<in> set ls. pl_price_ticks l \<le> INT64_MAX"
  shows "case calculate_vwap_ticks rnd ls of None \<Rightarrow> ls = []
    | Some v \<Rightarrow> ls \<noteq> [] \<and> v = trunc (rnd (of_int (side_notional ls) / of_int (side_quantity ls)))
        \<and> Min (pl_price_ticks ` set ls) \<le> v \<and> v \<le> Max (pl_price_ticks ` set ls)"
proof (cases "ls = []")
  case False
  let ?lo = "Min (pl_price_ticks ` set ls)" and ?hi = "Max (pl_price_ticks ` set ls)"
  have Q: "0 < side_quantity ls" using side_quantity_pos [OF ok] False by linarith
  have sums: "sum_quantities rnd ls = of_int (side_quantity ls)" "sum_notional rnd ls = of_int (side_notional ls)"
    using sum_quantities_exact [OF ok b(1)] sum_notional_from [OF ok, of 0] b by (simp_all add: sum_notional_def)
  have in_set: "?lo \<in> pl_price_ticks ` set ls" "?hi \<in> pl_price_ticks ` set ls" using False by (auto intro!: Min_in Max_in)
  have abs: "\<bar>?lo\<bar> \<le> bound" "\<bar>?hi\<bar> \<le> bound" "?hi \<le> INT64_MAX"
    using in_set level_price_le [OF ok] b(2) p by fastforce+
  have "?lo * side_quantity ls \<le> side_notional ls" "side_notional ls \<le> ?hi * side_quantity ls"
    using side_notional_between [OF ok, of ?lo ?hi] by auto
  then have q: "of_int ?lo \<le> (of_int (side_notional ls) / of_int (side_quantity ls) :: rat)"
    "of_int (side_notional ls) / of_int (side_quantity ls) \<le> (of_int ?hi :: rat)"
    using Q by (simp_all add: pos_le_divide_eq pos_divide_le_eq flip: of_int_mult)
  have "of_int (side_notional ls) / of_int (side_quantity ls) \<le> (of_int INT64_MAX :: rat)"
    by (rule order_trans [OF q(2)]) (use abs(3) in simp)
  from rnd_mono [OF this] have "\<not> rnd (of_int (side_notional ls) / of_int (side_quantity ls)) > rnd (of_int INT64_MAX)" by simp
  then show ?thesis
    using False Q sums trunc_rnd_between [OF q abs(1,2)] by (simp add: calculate_vwap_ticks_def Let_def)
qed (simp add: calculate_vwap_ticks_def)

lemma imbalance_bounded:
  assumes ok: "levels_ok before bs" "levels_ok before' as" and b: "side_quantity bs + side_quantity as \<le> bound" "1 \<le> bound"
    and dbl: "mono dbl" "dbl (- 1) = - 1" "dbl 1 = 1"
  shows "case calculate_imbalance rnd dbl bs as of None \<Rightarrow> bs = [] \<and> as = []
    | Some x \<Rightarrow> \<not> (bs = [] \<and> as = []) \<and> - 1 \<le> x \<and> x \<le> 1
        \<and> x = dbl (rnd (of_int (side_quantity bs - side_quantity as) / of_int (side_quantity bs + side_quantity as)))"
proof -
  let ?B = "side_quantity bs" and ?A = "side_quantity as"
  note nn = side_quantity_pos [OF ok(1)] side_quantity_pos [OF ok(2)]
  have sums: "sum_quantities rnd bs = of_int ?B" "sum_quantities rnd as = of_int ?A"
    using nn b by (simp_all add: sum_quantities_exact [OF ok(1)] sum_quantities_exact [OF ok(2)])
  have r: "rnd (of_int ?B + of_int ?A) = of_int (?B + ?A)" "rnd (of_int ?B - of_int ?A) = of_int (?B - ?A)"
    using rnd_exact [of "?B + ?A"] rnd_exact [of "?B - ?A"] nn b by simp_all
  let ?x = "rnd (of_int (?B - ?A) / of_int (?B + ?A))"
  have "- 1 \<le> ?x \<and> ?x \<le> 1" by (rule ratio_bounds [OF b(2)]) (use nn in linarith)
  then have "- 1 \<le> dbl ?x \<and> dbl ?x \<le> 1" using dbl by (metis monoD)
  moreover have "of_int (?B + ?A) = (0::rat) \<longleftrightarrow> bs = [] \<and> as = []"
    unfolding of_int_eq_0_iff using nn by linarith
  ultimately show ?thesis
    unfolding calculate_imbalance_def Let_def sums r by (simp split: option.splits)
qed

lemma microprice_between:
  assumes lv: "ob_bids book = b # bs" "ob_asks book = a # as" and ok: "book_ok book"
    and q: "pl_quantity b + pl_quantity a \<le> bound" "cross_notional book \<le> bound"
  shows "\<exists>m. microprice_ticks rnd book = Some m \<and> min (pl_price_ticks b) (pl_price_ticks a) \<le> m \<and> m \<le> max (pl_price_ticks b) (pl_price_ticks a)"
proof -
  let ?bp = "pl_price_ticks b" and ?bq = "pl_quantity b" and ?ap = "pl_price_ticks a" and ?aq = "pl_quantity a"
  have l: "0 \<le> ?bp" "0 < ?bq" "0 \<le> ?ap" "0 < ?aq" using ok lv by (auto simp: book_ok_def levels_ok_Cons)
  have W: "?bp * ?aq + ?ap * ?bq \<le> bound" using q(2) lv by (simp add: cross_notional_def best_bid_def best_ask_def)
  have nn: "0 \<le> ?bp * ?aq" "0 \<le> ?ap * ?bq" using l by simp_all
  have qs: "rnd (of_int ?bq) = of_int ?bq" "rnd (of_int ?aq) = of_int ?aq" "rnd (of_int ?bq + of_int ?aq) = of_int (?bq + ?aq)"
    using l q(1) rnd_exact [of ?bq] rnd_exact [of ?aq] rnd_exact [of "?bq + ?aq"] by simp_all
  have ps: "rnd (rnd (of_int ?bp) * of_int ?aq) = of_int (?bp * ?aq)" "rnd (rnd (of_int ?ap) * of_int ?bq) = of_int (?ap * ?bq)"
    "rnd (of_int (?bp * ?aq) + of_int (?ap * ?bq)) = of_int (?bp * ?aq + ?ap * ?bq)"
    using product_exact [of ?bp ?aq] product_exact [of ?ap ?bq] rnd_exact [of "?bp * ?aq + ?ap * ?bq"] qs l nn q(1) W by simp_all
  have m: "microprice_ticks rnd book = Some (trunc (rnd (of_int (?bp * ?aq + ?ap * ?bq) / of_int (?bq + ?aq))))"
    unfolding microprice_ticks_def lv using l by (simp add: Let_def qs ps del: of_int_add of_int_mult)
  let ?lo = "min ?bp ?ap" and ?hi = "max ?bp ?ap"
  have "?lo * ?aq + ?lo * ?bq \<le> ?bp * ?aq + ?ap * ?bq" "?bp * ?aq + ?ap * ?bq \<le> ?hi * ?aq + ?hi * ?bq"
    using l by (intro add_mono mult_right_mono; simp)+
  then have "?lo * (?bq + ?aq) \<le> ?bp * ?aq + ?ap * ?bq" "?bp * ?aq + ?ap * ?bq \<le> ?hi * (?bq + ?aq)"
    by (simp_all add: distrib_left)
  then have r: "of_int ?lo \<le> (of_int (?bp * ?aq + ?ap * ?bq) / of_int (?bq + ?aq) :: rat)"
    "of_int (?bp * ?aq + ?ap * ?bq) / of_int (?bq + ?aq) \<le> (of_int ?hi :: rat)"
    using l by (simp_all only: pos_le_divide_eq pos_divide_le_eq of_int_0_less_iff add_pos_pos of_int_mult [symmetric] of_int_le_iff)
  have "?bp * 1 \<le> ?bp * ?aq" "?ap * 1 \<le> ?ap * ?bq" using l by (intro mult_left_mono; simp)+
  then have "\<bar>?lo\<bar> \<le> bound" "\<bar>?hi\<bar> \<le> bound" using l nn W by auto
  from trunc_rnd_between [OF r this] m show ?thesis by blast
qed

end

lemma spread_and_mid:
  "case (best_bid book, best_ask book) of
     (Some b, Some a) \<Rightarrow> spread_ticks book = Some (pl_price_ticks a - pl_price_ticks b)
       \<and> (\<exists>m. mid_price_ticks book = Some m \<and> \<bar>2 * m - (pl_price_ticks b + pl_price_ticks a)\<bar> \<le> 1
            \<and> min (pl_price_ticks b) (pl_price_ticks a) \<le> m \<and> m \<le> max (pl_price_ticks b) (pl_price_ticks a))
   | _ \<Rightarrow> spread_ticks book = None \<and> mid_price_ticks book = None"
proof -
  have half: "\<bar>2 * (x + cdiv (y - x) 2) - (x + y)\<bar> \<le> 1 \<and> min x y \<le> x + cdiv (y - x) 2 \<and> x + cdiv (y - x) 2 \<le> max x y" for x y
    by (cases "x \<le> y") (auto simp: cdiv_def sgn_if)
  show ?thesis
    using half by (auto simp: best_bid_def best_ask_def spread_ticks_def mid_price_ticks_def split: list.splits option.splits)
qed

lemma microprice_query:
  assumes r: "rounding ld bound" and ok: "book_ok book"
    and q: "side_quantity (ob_bids book) + side_quantity (ob_asks book) \<le> bound" "cross_notional book \<le> bound"
  shows "case (best_bid book, best_ask book) of
      (Some b, Some a) \<Rightarrow> \<exists>m. microprice_ticks ld book = Some m
        \<and> min (pl_price_ticks b) (pl_price_ticks a) \<le> m \<and> m \<le> max (pl_price_ticks b) (pl_price_ticks a)
    | _ \<Rightarrow> microprice_ticks ld book = None"
proof (cases "ob_bids book = [] \<or> ob_asks book = []")
  case True
  then show ?thesis by (auto simp: best_bid_def best_ask_def microprice_ticks_def split: list.splits option.splits)
next
  case False
  then obtain b bs a as where lv: "ob_bids book = b # bs" "ob_asks book = a # as" by (meson list.exhaust)
  have "0 \<le> side_quantity bs" "0 \<le> side_quantity as"
    using ok lv side_quantity_pos(1) by (auto simp: book_ok_def levels_ok_Cons)
  then have "pl_quantity b + pl_quantity a \<le> bound" using q(1) by (simp add: lv side_quantity_def)
  from rounding.microprice_between [OF r lv ok this q(2)] show ?thesis by (simp add: best_bid_def best_ask_def lv)
qed

lemma adjust_side_spec:
  assumes "book_ok book" "0 \<le> p" "i64 d"
  shows "adjust_bid p d book = (let q = level_qty (ob_bids book) p + d in
      if q < 0 then (Inl (negative_adjustment ''Bid''), book)
      else if q > INT64_MAX then (Inl (Overflow_error ''Bid quantity adjustment overflow.''), book)
      else (Inr (), book\<lparr>ob_bids := set_level bid_before (ob_bids book) p q\<rparr>))"
    and "adjust_ask p d book = (let q = level_qty (ob_asks book) p + d in
      if q < 0 then (Inl (negative_adjustment ''Ask''), book)
      else if q > INT64_MAX then (Inl (Overflow_error ''Ask quantity adjustment overflow.''), book)
      else (Inr (), book\<lparr>ob_asks := set_level ask_before (ob_asks book) p q\<rparr>))"
proof -
  have b: "levels_ok bid_before (ob_bids book)" and a: "levels_ok ask_before (ob_asks book)"
    using assms(1) by (simp_all add: book_ok_def)
  from bid_order.adjust_levels_eq [OF b assms(2,3), of "''Bid''"]
  show "adjust_bid p d book = (let q = level_qty (ob_bids book) p + d in
      if q < 0 then (Inl (negative_adjustment ''Bid''), book)
      else if q > INT64_MAX then (Inl (Overflow_error ''Bid quantity adjustment overflow.''), book)
      else (Inr (), book\<lparr>ob_bids := set_level bid_before (ob_bids book) p q\<rparr>))"
    by (simp add: adjust_bid_def on_bids_def Let_def)
  from ask_order.adjust_levels_eq [OF a assms(2,3), of "''Ask''"]
  show "adjust_ask p d book = (let q = level_qty (ob_asks book) p + d in
      if q < 0 then (Inl (negative_adjustment ''Ask''), book)
      else if q > INT64_MAX then (Inl (Overflow_error ''Ask quantity adjustment overflow.''), book)
      else (Inr (), book\<lparr>ob_asks := set_level ask_before (ob_asks book) p q\<rparr>))"
    by (simp add: adjust_ask_def on_asks_def Let_def)
qed

subsection \<open>Properties\<close>

text \<open>C23 A snapshot is accepted exactly when no listed price or quantity is negative and no price's
  quantities add up to more than 64 bits hold. The new book is well formed (strictly ordered, best
  first, positive quantities) and shows for each price the sum of what the snapshot lists for it.\<close>
theorem snapshot_normalised:
  "replace_snapshot bids asks book = (Inr (), book') \<longleftrightarrow>
     levels_valid bids \<and> levels_valid asks
     \<and> (\<forall>p. listed_qty bids p \<le> INT64_MAX \<and> listed_qty asks p \<le> INT64_MAX)
     \<and> book_ok book' \<and> level_qty (ob_bids book') = listed_qty bids \<and> level_qty (ob_asks book') = listed_qty asks"
proof -
  have "replace_snapshot bids asks book = (Inr (), book') \<longleftrightarrow>
      normalize_bids bids = Inr (ob_bids book') \<and> normalize_asks asks = Inr (ob_asks book')"
    by (auto simp: replace_snapshot_def split: sum.splits)
  then show ?thesis by (auto simp: normalize_bids_Inr_iff normalize_asks_Inr_iff book_ok_def)
qed

text \<open>An adjustment of a side changes the quantity of its one price by the given amount, drops a
  level that becomes empty and leaves the other side and the order of levels alone; it throws, and
  changes nothing, exactly when the quantity would become negative or too large.\<close>
lemma adjust_changes_one_price:
  assumes "book_ok book" "0 \<le> p" "i64 d" "adjust_bid p d book = (r, bid_book)" "adjust_ask p d book = (s, ask_book)"
  shows "(if level_qty (ob_bids book) p + d \<in> {0..INT64_MAX}
      then r = Inr () \<and> book_ok bid_book \<and> ob_asks bid_book = ob_asks book
           \<and> level_qty (ob_bids bid_book) = (level_qty (ob_bids book))(p := level_qty (ob_bids book) p + d)
      else isl r \<and> bid_book = book)
    \<and> (if level_qty (ob_asks book) p + d \<in> {0..INT64_MAX}
      then s = Inr () \<and> book_ok ask_book \<and> ob_bids ask_book = ob_bids book
           \<and> level_qty (ob_asks ask_book) = (level_qty (ob_asks book))(p := level_qty (ob_asks book) p + d)
      else isl s \<and> ask_book = book)"
proof -
  have b: "levels_ok bid_before (ob_bids book)" and a: "levels_ok ask_before (ob_asks book)"
    using assms(1) by (simp_all add: book_ok_def)
  note laws = bid_order.levels_ok_set_level [OF b assms(2)] ask_order.levels_ok_set_level [OF a assms(2)]
    bid_order.level_qty_set_level [OF b] ask_order.level_qty_set_level [OF a]
  show ?thesis
    using assms(4,5) laws a b unfolding adjust_side_spec [OF assms(1-3)]
    by (auto simp: Let_def book_ok_def split: if_splits)
qed

text \<open>C24 On a well-formed book the best bid and ask are levels with the extreme prices of their sides, absent
  exactly when the side is empty. Spread and mid price are there exactly when both sides are; the
  spread is the difference of the best prices, the mid price lies between them and is their half sum up to
  half a tick, also on a crossed book. The depths are the sums of the quantities, saturated at the
  largest 64-bit value. The averages hold for roundings of \<open>long double\<close> that are monotone and exact on the
  integers up to a bound the book's quantities and notionals stay within (and a monotone rounding to
  \<open>double\<close> that keeps 1 and -1): the imbalance is absent exactly for an empty book and otherwise
  between -1 and 1, the VWAP of a side is absent exactly when the side is empty and otherwise its
  rounded average cut off, between its lowest and highest price, and the microprice lies between the best prices.\<close>
theorem book_queries_bounded:
  assumes "book_ok book"
  shows "(case best_bid book of None \<Rightarrow> ob_bids book = []
       | Some b \<Rightarrow> b \<in> set (ob_bids book) \<and> (\<forall>x \<in> set (ob_bids book). pl_price_ticks x \<le> pl_price_ticks b))
    \<and> (case best_ask book of None \<Rightarrow> ob_asks book = []
       | Some a \<Rightarrow> a \<in> set (ob_asks book) \<and> (\<forall>x \<in> set (ob_asks book). pl_price_ticks a \<le> pl_price_ticks x))
    \<and> (case (best_bid book, best_ask book) of
         (Some b, Some a) \<Rightarrow> spread_ticks book = Some (pl_price_ticks a - pl_price_ticks b)
           \<and> (\<exists>m. mid_price_ticks book = Some m \<and> \<bar>2 * m - (pl_price_ticks b + pl_price_ticks a)\<bar> \<le> 1
                \<and> min (pl_price_ticks b) (pl_price_ticks a) \<le> m \<and> m \<le> max (pl_price_ticks b) (pl_price_ticks a))
       | _ \<Rightarrow> spread_ticks book = None \<and> mid_price_ticks book = None)
    \<and> bid_depth book = min INT64_MAX (side_quantity (ob_bids book))
    \<and> ask_depth book = min INT64_MAX (side_quantity (ob_asks book))
    \<and> total_depth book = min INT64_MAX (side_quantity (ob_bids book) + side_quantity (ob_asks book))
    \<and> (\<forall>ld dbl bound. rounding ld bound \<longrightarrow> 1 \<le> bound \<longrightarrow> queries_exact bound book
         \<longrightarrow> mono dbl \<longrightarrow> dbl (- 1) = - 1 \<longrightarrow> dbl 1 = 1 \<longrightarrow>
         (case order_book_imbalance ld dbl book of None \<Rightarrow> ob_bids book = [] \<and> ob_asks book = []
          | Some x \<Rightarrow> \<not> (ob_bids book = [] \<and> ob_asks book = []) \<and> - 1 \<le> x \<and> x \<le> 1
              \<and> x = dbl (ld (of_int (side_quantity (ob_bids book) - side_quantity (ob_asks book))
                  / of_int (side_quantity (ob_bids book) + side_quantity (ob_asks book)))))
         \<and> (case bid_vwap_ticks ld book of None \<Rightarrow> ob_bids book = []
            | Some v \<Rightarrow> ob_bids book \<noteq> [] \<and> v = trunc (ld (of_int (side_notional (ob_bids book)) / of_int (side_quantity (ob_bids book))))
                \<and> Min (pl_price_ticks ` set (ob_bids book)) \<le> v \<and> v \<le> Max (pl_price_ticks ` set (ob_bids book)))
         \<and> (case ask_vwap_ticks ld book of None \<Rightarrow> ob_asks book = []
            | Some v \<Rightarrow> ob_asks book \<noteq> [] \<and> v = trunc (ld (of_int (side_notional (ob_asks book)) / of_int (side_quantity (ob_asks book))))
                \<and> Min (pl_price_ticks ` set (ob_asks book)) \<le> v \<and> v \<le> Max (pl_price_ticks ` set (ob_asks book)))
         \<and> (case (best_bid book, best_ask book) of
              (Some b, Some a) \<Rightarrow> \<exists>m. microprice_ticks ld book = Some m
                \<and> min (pl_price_ticks b) (pl_price_ticks a) \<le> m \<and> m \<le> max (pl_price_ticks b) (pl_price_ticks a)
            | _ \<Rightarrow> microprice_ticks ld book = None))"
proof (intro conjI allI impI)
  show "case best_bid book of None \<Rightarrow> ob_bids book = []
       | Some b \<Rightarrow> b \<in> set (ob_bids book) \<and> (\<forall>x \<in> set (ob_bids book). pl_price_ticks x \<le> pl_price_ticks b)"
    using best_bid_highest [OF assms] by (auto split: option.splits)
  show "case best_ask book of None \<Rightarrow> ob_asks book = []
       | Some a \<Rightarrow> a \<in> set (ob_asks book) \<and> (\<forall>x \<in> set (ob_asks book). pl_price_ticks a \<le> pl_price_ticks x)"
    using best_ask_lowest [OF assms] by (auto split: option.splits)
  show "case (best_bid book, best_ask book) of
         (Some b, Some a) \<Rightarrow> spread_ticks book = Some (pl_price_ticks a - pl_price_ticks b)
           \<and> (\<exists>m. mid_price_ticks book = Some m \<and> \<bar>2 * m - (pl_price_ticks b + pl_price_ticks a)\<bar> \<le> 1
                \<and> min (pl_price_ticks b) (pl_price_ticks a) \<le> m \<and> m \<le> max (pl_price_ticks b) (pl_price_ticks a))
       | _ \<Rightarrow> spread_ticks book = None \<and> mid_price_ticks book = None"
    by (rule spread_and_mid)
  note ok = assms [unfolded book_ok_def]
  fix ld dbl :: rounding_mode and bound
  assume r: "rounding ld bound" and b: "1 \<le> bound" and ex: "queries_exact bound book"
    and dbl: "mono dbl" "dbl (- 1) = - 1" "dbl 1 = 1"
  have qs: "side_quantity (ob_bids book) \<le> bound" "side_quantity (ob_asks book) \<le> bound"
    "side_quantity (ob_bids book) + side_quantity (ob_asks book) \<le> bound" "cross_notional book \<le> bound"
    using ex side_quantity_pos(1) [of bid_before "ob_bids book"] side_quantity_pos(1) [of ask_before "ob_asks book"] ok
    by (simp_all add: queries_exact_def)
  show "case order_book_imbalance ld dbl book of None \<Rightarrow> ob_bids book = [] \<and> ob_asks book = []
     | Some x \<Rightarrow> \<not> (ob_bids book = [] \<and> ob_asks book = []) \<and> - 1 \<le> x \<and> x \<le> 1
         \<and> x = dbl (ld (of_int (side_quantity (ob_bids book) - side_quantity (ob_asks book))
             / of_int (side_quantity (ob_bids book) + side_quantity (ob_asks book))))"
    unfolding order_book_imbalance_def by (rule rounding.imbalance_bounded [OF r _ _ qs(3) b dbl]) (use ok in blast)+
  show "case bid_vwap_ticks ld book of None \<Rightarrow> ob_bids book = []
     | Some v \<Rightarrow> ob_bids book \<noteq> [] \<and> v = trunc (ld (of_int (side_notional (ob_bids book)) / of_int (side_quantity (ob_bids book))))
         \<and> Min (pl_price_ticks ` set (ob_bids book)) \<le> v \<and> v \<le> Max (pl_price_ticks ` set (ob_bids book))"
    unfolding bid_vwap_ticks_def using ok qs ex by (intro rounding.vwap_ticks_between [OF r]) (auto simp: queries_exact_def)
  show "case ask_vwap_ticks ld book of None \<Rightarrow> ob_asks book = []
     | Some v \<Rightarrow> ob_asks book \<noteq> [] \<and> v = trunc (ld (of_int (side_notional (ob_asks book)) / of_int (side_quantity (ob_asks book))))
         \<and> Min (pl_price_ticks ` set (ob_asks book)) \<le> v \<and> v \<le> Max (pl_price_ticks ` set (ob_asks book))"
    unfolding ask_vwap_ticks_def using ok qs ex by (intro rounding.vwap_ticks_between [OF r]) (auto simp: queries_exact_def)
  show "case (best_bid book, best_ask book) of
      (Some b, Some a) \<Rightarrow> \<exists>m. microprice_ticks ld book = Some m
        \<and> min (pl_price_ticks b) (pl_price_ticks a) \<le> m \<and> m \<le> max (pl_price_ticks b) (pl_price_ticks a)
    | _ \<Rightarrow> microprice_ticks ld book = None"
    by (rule microprice_query [OF r assms qs(3,4)])
qed (use depth_saturates [OF assms] in \<open>simp_all add: side_quantity_def\<close>)

theorem book_queries_bounded_witness:
  "mid_price_ticks \<lparr>ob_bids = [\<lparr>pl_price_ticks = 7, pl_quantity = 3\<rparr>], ob_asks = [\<lparr>pl_price_ticks = 10, pl_quantity = 5\<rparr>]\<rparr> = Some 8
   \<and> bid_vwap_ticks (\<lambda>x. x) \<lparr>ob_bids = [\<lparr>pl_price_ticks = 7, pl_quantity = 3\<rparr>], ob_asks = [\<lparr>pl_price_ticks = 10, pl_quantity = 5\<rparr>]\<rparr> = Some 7"
proof -
  let ?b = "\<lparr>ob_bids = [\<lparr>pl_price_ticks = 7, pl_quantity = 3\<rparr>], ob_asks = [\<lparr>pl_price_ticks = 10, pl_quantity = 5\<rparr>]\<rparr>"
  have ok: "book_ok ?b" by (simp add: book_ok_def levels_ok_def INT64_MAX_def)
  have ex: "queries_exact INT64_MAX ?b"
    by (simp add: queries_exact_def side_quantity_def side_notional_def cross_notional_def best_bid_def best_ask_def INT64_MAX_def)
  have one: "1 \<le> INT64_MAX" "mono (\<lambda>x::rat. x)" by (simp_all add: INT64_MAX_def mono_def)
  have m: "mid_price_ticks ?b = Some 8" by code_simp
  from book_queries_bounded [OF ok] show ?thesis
  proof (elim conjE, goal_cases)
    case 1
    note q = 1(7) [rule_format, OF exact.rounding_axioms one(1) ex one(2) refl refl]
    from q [THEN conjunct2, THEN conjunct1] m show ?case by (auto split: option.splits)
  qed
qed

end
