(* ===== verification/Order_Types.thy ===== *)
theory Order_Types
  imports Prelude
begin

text \<open>
  The value types the components exchange (\<open>include/execution.hpp\<close>, \<open>include/limit_order.hpp\<close>),
  the argument checks (\<open>include/validation.hpp\<close>) and the order id generator
  (\<open>include/order_id_generator.hpp\<close>). Field names carry a prefix of their struct
  (\<open>lo\<close> LimitOrder, \<open>tr\<close> Trade, \<open>er\<close> ExecutionResult) since several structs share them.
\<close>

subsection \<open>Orders and trades\<close>

datatype order_side = Buy | Sell

type_synonym order_id = u64
type_synonym sequence_number = u64
type_synonym trade_id = u64

record limit_order =
  lo_order_id :: order_id
  lo_side :: order_side
  lo_price_ticks :: int
  lo_original_quantity :: int
  lo_remaining_quantity :: int
  lo_sequence_number :: sequence_number

definition filled_quantity :: "limit_order \<Rightarrow> int" where
  "filled_quantity o1 = lo_original_quantity o1 - lo_remaining_quantity o1"

definition is_filled :: "limit_order \<Rightarrow> bool" where
  "is_filled o1 \<longleftrightarrow> lo_remaining_quantity o1 = 0"

definition is_partially_filled :: "limit_order \<Rightarrow> bool" where
  "is_partially_filled o1 \<longleftrightarrow>
     lo_remaining_quantity o1 > 0 \<and> lo_remaining_quantity o1 < lo_original_quantity o1"

record trade =
  tr_aggressor_side :: order_side
  tr_price_ticks :: int
  tr_quantity :: int
  tr_trade_id :: trade_id
  tr_buy_order_id :: "order_id option"
  tr_sell_order_id :: "order_id option"
  tr_execution_sequence :: u64

record execution_result =
  er_side :: order_side
  er_requested_quantity :: int
  er_executed_quantity :: int
  er_remaining_quantity :: int
  er_average_price_ticks :: "int option"
  er_trades :: "trade list"

definition fully_filled :: "execution_result \<Rightarrow> bool" where
  "fully_filled r \<longleftrightarrow> er_remaining_quantity r = 0"

definition partially_filled :: "execution_result \<Rightarrow> bool" where
  "partially_filled r \<longleftrightarrow> er_executed_quantity r > 0 \<and> er_remaining_quantity r > 0"

definition unfilled :: "execution_result \<Rightarrow> bool" where
  "unfilled r \<longleftrightarrow> er_executed_quantity r = 0"

lemma side_not [side_simps, simp]: "s \<noteq> Buy \<longleftrightarrow> s = Sell" "s \<noteq> Sell \<longleftrightarrow> s = Buy"
  by (cases s; simp)+

subsection \<open>Argument checks\<close>

definition require_positive :: "int \<Rightarrow> string \<Rightarrow> unit result" where
  "require_positive value field_name =
     (if value \<le> 0 then Inl (Invalid_argument (field_name @ '' must be positive.'')) else Inr ())"

definition validate_market_order :: "int \<Rightarrow> unit result" where
  "validate_market_order quantity = require_positive quantity ''Market order quantity''"

definition validate_limit_order :: "int \<Rightarrow> int \<Rightarrow> unit result" where
  "validate_limit_order price_ticks quantity =
     and_then (require_positive price_ticks ''Limit price'')
       (\<lambda>_. require_positive quantity ''Limit quantity'')"

definition validate_modify_order :: "int \<Rightarrow> int \<Rightarrow> unit result" where
  "validate_modify_order price_ticks quantity =
     and_then (require_positive price_ticks ''Modified limit price'')
       (\<lambda>_. require_positive quantity ''Modified limit quantity'')"

definition validate_trade :: "int \<Rightarrow> int \<Rightarrow> unit result" where
  "validate_trade price_ticks quantity =
     and_then (require_positive price_ticks ''Trade price'')
       (\<lambda>_. require_positive quantity ''Trade quantity'')"

lemma require_positive_Inr: "require_positive v n = Inr u \<longleftrightarrow> 0 < v"
  by (auto simp: require_positive_def)

lemma require_positive_pos: "0 < v \<Longrightarrow> require_positive v n = Inr ()"
  by (simp add: require_positive_def)

lemma validate_Inr_iff:
  "validate_market_order q = Inr u \<longleftrightarrow> 0 < q"
  "validate_limit_order p q = Inr u \<longleftrightarrow> 0 < p \<and> 0 < q"
  "validate_modify_order p q = Inr u \<longleftrightarrow> 0 < p \<and> 0 < q"
  "validate_trade p q = Inr u \<longleftrightarrow> 0 < p \<and> 0 < q"
  by (auto simp: validate_market_order_def validate_limit_order_def validate_modify_order_def
      validate_trade_def and_then_eq_Inr_iff require_positive_Inr)

lemma validate_pos [simp]:
  "0 < q \<Longrightarrow> validate_market_order q = Inr ()"
  "0 < p \<Longrightarrow> 0 < q \<Longrightarrow> validate_limit_order p q = Inr ()"
  "0 < p \<Longrightarrow> 0 < q \<Longrightarrow> validate_modify_order p q = Inr ()"
  "0 < p \<Longrightarrow> 0 < q \<Longrightarrow> validate_trade p q = Inr ()"
  by (simp_all add: validate_Inr_iff)

subsection \<open>Order ids\<close>

text \<open>The generator's whole state is its next id.\<close>

record order_id_generator =
  next_order_id :: order_id

definition new_order_id_generator :: "order_id \<Rightarrow> order_id_generator result" where
  "new_order_id_generator first_order_id =
     (if first_order_id = 0
      then Inl (Invalid_argument ''First order ID must be greater than zero.'')
      else Inr \<lparr>next_order_id = first_order_id\<rparr>)"

definition generator_next :: "order_id_generator \<Rightarrow> (order_id, order_id_generator) outcome" where
  "generator_next g =
     (if next_order_id g = UINT64_MAX
      then (Inl (Overflow_error ''Order ID generator exhausted.''), g)
      else (Inr (next_order_id g), g\<lparr>next_order_id := next_order_id g + 1\<rparr>))"

definition generator_peek :: "order_id_generator \<Rightarrow> order_id" where
  "generator_peek g = next_order_id g"

lemma UINT64_MAX_max_word: "UINT64_MAX = - 1"
  by (simp add: UINT64_MAX_def)

lemma u64_less_Suc: "(x::u64) \<noteq> UINT64_MAX \<Longrightarrow> x < x + 1"
proof -
  assume "x \<noteq> UINT64_MAX"
  then have "1 + x \<noteq> 0" by (simp add: UINT64_MAX_max_word eq_neg_iff_add_eq_0 add.commute)
  then show ?thesis by (simp add: word_less_nat_alt unatSuc add.commute [of x])
qed

lemma generator_next_increases:
  "generator_next g = (Inr i, g') \<Longrightarrow> i = next_order_id g \<and> next_order_id g < next_order_id g'"
  by (auto simp: generator_next_def u64_less_Suc split: if_splits)

end
