(* ===== verification/Order_Manager.thy ===== *)
theory Order_Manager
  imports Order_Types Ordered_Containers "HOL-Library.Multiset"
begin

text \<open>
  The active orders (\<open>include/order_manager.hpp\<close>, \<open>src/order_manager.cpp\<close>): the vector of orders, the
  hash index from order id to vector position, and one \<open>std::set\<close> of priority keys per side. The
  code keeps the four in step by hand (swap with the back on removal, node handles for restoring a
  removal); \<open>om_wf\<close> is the agreement between them and every operation is shown to keep it.
  \<open>om_max_size\<close> is the \<open>max_size()\<close> of the vector, where \<open>push_back\<close> throws.
\<close>

subsection \<open>State\<close>

record priority_key =
  pk_price_ticks :: int
  pk_sequence_number :: sequence_number
  pk_order_id :: order_id

definition buy_priority_compare :: "priority_key \<Rightarrow> priority_key \<Rightarrow> bool" where
  "buy_priority_compare lhs rhs =
     (if pk_price_ticks lhs \<noteq> pk_price_ticks rhs then pk_price_ticks lhs > pk_price_ticks rhs
      else if pk_sequence_number lhs \<noteq> pk_sequence_number rhs
      then pk_sequence_number lhs < pk_sequence_number rhs
      else pk_order_id lhs < pk_order_id rhs)"

definition sell_priority_compare :: "priority_key \<Rightarrow> priority_key \<Rightarrow> bool" where
  "sell_priority_compare lhs rhs =
     (if pk_price_ticks lhs \<noteq> pk_price_ticks rhs then pk_price_ticks lhs < pk_price_ticks rhs
      else if pk_sequence_number lhs \<noteq> pk_sequence_number rhs
      then pk_sequence_number lhs < pk_sequence_number rhs
      else pk_order_id lhs < pk_order_id rhs)"

record order_manager =
  om_orders :: "limit_order list"
  om_indices :: "order_id \<rightharpoonup> nat"
  om_buy_index :: "priority_key list"
  om_sell_index :: "priority_key list"
  om_max_size :: nat

definition new_order_manager :: "nat \<Rightarrow> order_manager" where
  "new_order_manager max_size =
     \<lparr>om_orders = [], om_indices = Map.empty, om_buy_index = [], om_sell_index = [],
      om_max_size = max_size\<rparr>"

text \<open>The node handles of a removal are \<open>None\<close> when empty.\<close>

record removal =
  rm_removed_order :: limit_order
  rm_original_index :: nat
  rm_swapped :: bool
  rm_swapped_order_id :: order_id
  rm_index_node :: "(order_id \<times> nat) option"
  rm_buy_node :: "priority_key option"
  rm_sell_node :: "priority_key option"

definition null_order :: limit_order where
  "null_order = \<lparr>lo_order_id = 0, lo_side = Buy, lo_price_ticks = 0, lo_original_quantity = 0,
     lo_remaining_quantity = 0, lo_sequence_number = 0\<rparr>"

definition empty_removal :: removal where
  "empty_removal = \<lparr>rm_removed_order = null_order, rm_original_index = 0, rm_swapped = False,
     rm_swapped_order_id = 0, rm_index_node = None, rm_buy_node = None, rm_sell_node = None\<rparr>"

definition priority_compare :: "order_side \<Rightarrow> priority_key \<Rightarrow> priority_key \<Rightarrow> bool" where
  "priority_compare side = (case side of Buy \<Rightarrow> buy_priority_compare | Sell \<Rightarrow> sell_priority_compare)"

definition priority_index :: "order_side \<Rightarrow> order_manager \<Rightarrow> priority_key list" where
  "priority_index side om = (case side of Buy \<Rightarrow> om_buy_index om | Sell \<Rightarrow> om_sell_index om)"

definition set_priority_index ::
  "order_side \<Rightarrow> priority_key list \<Rightarrow> order_manager \<Rightarrow> order_manager" where
  "set_priority_index side keys om =
     (case side of Buy \<Rightarrow> om\<lparr>om_buy_index := keys\<rparr> | Sell \<Rightarrow> om\<lparr>om_sell_index := keys\<rparr>)"

subsection \<open>Operations\<close>

definition validate_order :: "limit_order \<Rightarrow> unit result" where
  "validate_order order =
     (if lo_order_id order = 0 then Inl (Invalid_argument ''Order ID must be non-zero.'')
      else and_then (require_positive (lo_price_ticks order) ''Order price'') (\<lambda>_.
           and_then (require_positive (lo_original_quantity order) ''Order original quantity'') (\<lambda>_.
           and_then (require_positive (lo_remaining_quantity order)
                       ''Active order remaining quantity'') (\<lambda>_.
             if lo_remaining_quantity order > lo_original_quantity order
             then Inl (Invalid_argument ''Order remaining quantity cannot exceed original quantity.'')
             else if lo_sequence_number order = 0
             then Inl (Invalid_argument ''Order sequence number must be non-zero.'')
             else Inr ()))))"

definition make_priority_key :: "limit_order \<Rightarrow> priority_key" where
  "make_priority_key order = \<lparr>pk_price_ticks = lo_price_ticks order,
     pk_sequence_number = lo_sequence_number order, pk_order_id = lo_order_id order\<rparr>"

definition om_add_order :: "limit_order \<Rightarrow> order_manager \<Rightarrow> (unit, order_manager) outcome" where
  "om_add_order order om =
     (case validate_order order of
        Inl e \<Rightarrow> (Inl e, om)
      | Inr _ \<Rightarrow>
          if om_indices om (lo_order_id order) \<noteq> None
          then (Inl (Invalid_argument ''Order ID already exists.''), om)
          else if length (om_orders om) \<ge> om_max_size om then (Inl Length_error, om)
          else
            (let om1 = om\<lparr>om_orders := om_orders om @ [order]\<rparr>;
                 om2 = om1\<lparr>om_indices := (om_indices om1)(lo_order_id order \<mapsto> length (om_orders om1) - 1)\<rparr>;
                 key = make_priority_key order;
                 side = lo_side order
             in case set_insert (priority_compare side) key (priority_index side om2) of
                  (inserted, keys) \<Rightarrow>
                    if \<not> inserted
                    then (Inl (Logic_error (case side of Buy \<Rightarrow> ''Buy priority key already exists.''
                                            | Sell \<Rightarrow> ''Sell priority key already exists.'')),
                          om2\<lparr>om_indices := (om_indices om2)(lo_order_id order := None),
                              om_orders := butlast (om_orders om2)\<rparr>)
                    else (Inr (), set_priority_index side keys om2)))"

text \<open>
  The tail that both \<open>cancel_order\<close> overloads share: move the last order into the gap, repair its
  index entry, drop the back and the index entry of the removed order.
\<close>

definition om_close_gap :: "order_id \<Rightarrow> nat \<Rightarrow> order_manager \<Rightarrow> (unit, order_manager) outcome" where
  "om_close_gap order_id index om =
     (let last_index = length (om_orders om) - 1
      in if index \<noteq> last_index
         then (let om1 = om\<lparr>om_orders := (om_orders om)[index := om_orders om ! last_index]\<rparr>;
                   moved_id = lo_order_id (om_orders om1 ! index)
               in case om_indices om1 moved_id of
                    None \<Rightarrow> (Inl (Logic_error ''Moved order is missing from index.''), om1)
                  | Some _ \<Rightarrow>
                      (let om2 = om1\<lparr>om_indices := (om_indices om1)(moved_id \<mapsto> index)\<rparr>
                       in (Inr (), om2\<lparr>om_orders := butlast (om_orders om2),
                                       om_indices := (om_indices om2)(order_id := None)\<rparr>)))
         else (Inr (), om\<lparr>om_orders := butlast (om_orders om),
                          om_indices := (om_indices om)(order_id := None)\<rparr>))"

definition om_cancel_order :: "order_id \<Rightarrow> order_manager \<Rightarrow> (bool, order_manager) outcome" where
  "om_cancel_order order_id om =
     (case om_indices om order_id of
        None \<Rightarrow> (Inr False, om)
      | Some index \<Rightarrow>
          (let order_to_remove = om_orders om ! index;
               side = lo_side order_to_remove
           in case set_erase (priority_compare side) (make_priority_key order_to_remove)
                     (priority_index side om) of
                (erased, keys) \<Rightarrow>
                  (let om1 = set_priority_index side keys om
                   in if erased \<noteq> 1
                      then (Inl (Logic_error (case side of
                                   Buy \<Rightarrow> ''Buy order is missing from priority index.''
                                 | Sell \<Rightarrow> ''Sell order is missing from priority index.'')), om1)
                      else case om_close_gap order_id index om1 of
                             (Inl e, om2) \<Rightarrow> (Inl e, om2)
                           | (Inr _, om2) \<Rightarrow> (Inr True, om2))))"

definition missing_node :: "order_side \<Rightarrow> cpp_error" where
  "missing_node side = Logic_error (case side of Buy \<Rightarrow> ''Removed buy priority node is missing.''
                                    | Sell \<Rightarrow> ''Removed sell priority node is missing.'')"

definition om_cancel_order_removal ::
  "order_id \<Rightarrow> removal \<Rightarrow> order_manager \<Rightarrow> (bool, order_manager \<times> removal) outcome" where
  "om_cancel_order_removal order_id removal0 om =
     (case om_indices om order_id of
        None \<Rightarrow> (Inr False, om, removal0)
      | Some index \<Rightarrow>
          (let last_index = length (om_orders om) - 1;
               swapped = (index \<noteq> last_index);
               order = om_orders om ! index;
               side = lo_side order;
               removal1 = removal0\<lparr>rm_removed_order := order, rm_original_index := index,
                 rm_swapped := swapped,
                 rm_swapped_order_id := (if swapped then lo_order_id (om_orders om ! last_index) else 0)\<rparr>
           in case set_extract (priority_compare side) (make_priority_key order)
                     (priority_index side om) of
                (node, keys) \<Rightarrow>
                  (let removal2 = (case side of Buy \<Rightarrow> removal1\<lparr>rm_buy_node := node\<rparr>
                                   | Sell \<Rightarrow> removal1\<lparr>rm_sell_node := node\<rparr>);
                       om1 = set_priority_index side keys om
                   in if node = None then (Inl (missing_node side), om1, removal2)
                      else case om_close_gap order_id index om1 of
                             (Inl e, om2) \<Rightarrow> (Inl e, om2, removal2)
                           | (Inr _, om2) \<Rightarrow>
                               (Inr True, om2, removal2\<lparr>rm_index_node := Some (order_id, index)\<rparr>))))"

definition om_restore_indexes :: "removal \<Rightarrow> nat \<Rightarrow> order_manager \<Rightarrow> (unit, order_manager \<times> removal) outcome" where
  "om_restore_indexes r restored_last_index om =
     (case rm_index_node r of
        None \<Rightarrow> (Inl (Logic_error ''Removal has already been restored.''), om, r)
      | Some (node_id, _) \<Rightarrow>
          (let r1 = r\<lparr>rm_index_node := None\<rparr>
           in if om_indices om node_id \<noteq> None
              then (Inl (Logic_error ''Removed order index could not be restored.''), om, r1)
              else
                (let om1 = om\<lparr>om_indices := (om_indices om)(node_id \<mapsto> rm_original_index r)\<rparr>;
                     side = lo_side (rm_removed_order r);
                     node = (case side of Buy \<Rightarrow> rm_buy_node r | Sell \<Rightarrow> rm_sell_node r);
                     r2 = (case side of Buy \<Rightarrow> r1\<lparr>rm_buy_node := None\<rparr>
                           | Sell \<Rightarrow> r1\<lparr>rm_sell_node := None\<rparr>)
                 in case set_insert (priority_compare side) (the node) (priority_index side om1) of
                      (inserted, keys) \<Rightarrow>
                        if \<not> inserted
                        then (Inl (Logic_error (case side of
                                     Buy \<Rightarrow> ''Removed buy priority could not be restored.''
                                   | Sell \<Rightarrow> ''Removed sell priority could not be restored.'')), om1, r2)
                        else
                          (let om2 = set_priority_index side keys om1
                           in if \<not> rm_swapped r then (Inr (), om2, r2)
                              else case om_indices om2 (rm_swapped_order_id r) of
                                     None \<Rightarrow> (Inl (Logic_error ''Swapped order is missing from index.''), om2, r2)
                                   | Some _ \<Rightarrow>
                                       (Inr (), om2\<lparr>om_indices := (om_indices om2)
                                                  (rm_swapped_order_id r \<mapsto> restored_last_index)\<rparr>, r2)))))"

definition om_restore_removal :: "removal \<Rightarrow> order_manager \<Rightarrow> (unit, order_manager \<times> removal) outcome" where
  "om_restore_removal r om =
     (if rm_index_node r = None then (Inl (Logic_error ''Removal has already been restored.''), om, r)
      else if om_indices om (lo_order_id (rm_removed_order r)) \<noteq> None
      then (Inl (Logic_error ''Removed order already exists.''), om, r)
      else if lo_side (rm_removed_order r) = Buy \<and> rm_buy_node r = None
      then (Inl (missing_node Buy), om, r)
      else if lo_side (rm_removed_order r) \<noteq> Buy \<and> rm_sell_node r = None
      then (Inl (missing_node Sell), om, r)
      else if length (om_orders om) \<ge> om_max_size om then (Inl Length_error, om, r)
      else
        (let restored_last_index = length (om_orders om);
             orders1 = om_orders om @ [rm_removed_order r]
         in if rm_swapped r
            then (if rm_original_index r \<ge> restored_last_index
                  then (Inl (Logic_error ''Invalid removal restoration index.''), om, r)
                  else if lo_order_id (orders1 ! rm_original_index r) \<noteq> rm_swapped_order_id r
                  then (Inl (Logic_error ''Swapped order does not match removal record.''), om, r)
                  else om_restore_indexes r restored_last_index
                         (om\<lparr>om_orders := orders1[rm_original_index r := orders1 ! restored_last_index,
                                                 restored_last_index := orders1 ! rm_original_index r]\<rparr>))
            else om_restore_indexes r restored_last_index (om\<lparr>om_orders := orders1\<rparr>)))"

definition om_find_order :: "order_manager \<Rightarrow> order_id \<Rightarrow> limit_order option" where
  "om_find_order om order_id =
     (case om_indices om order_id of None \<Rightarrow> None | Some index \<Rightarrow> Some (om_orders om ! index))"

text \<open>A write through the pointer that \<open>find_order\<close> returns.\<close>

definition om_write_order :: "order_id \<Rightarrow> (limit_order \<Rightarrow> limit_order) \<Rightarrow> order_manager \<Rightarrow> order_manager" where
  "om_write_order order_id f om =
     (case om_indices om order_id of
        None \<Rightarrow> om
      | Some index \<Rightarrow> om\<lparr>om_orders := (om_orders om)[index := f (om_orders om ! index)]\<rparr>)"

definition om_update_sequence_number ::
  "order_id \<Rightarrow> sequence_number \<Rightarrow> order_manager \<Rightarrow> (bool, order_manager) outcome" where
  "om_update_sequence_number order_id new_sequence_number om =
     (if new_sequence_number = 0
      then (Inl (Invalid_argument ''Order sequence number must be non-zero.''), om)
      else case om_find_order om order_id of
             None \<Rightarrow> (Inr False, om)
           | Some order \<Rightarrow>
               if lo_sequence_number order = new_sequence_number then (Inr True, om)
               else
                 (let old_key = make_priority_key order;
                      new_key = old_key\<lparr>pk_sequence_number := new_sequence_number\<rparr>;
                      side = lo_side order
                  in case set_insert (priority_compare side) new_key (priority_index side om) of
                       (inserted, keys1) \<Rightarrow>
                         if \<not> inserted
                         then (Inl (Logic_error (case side of
                                      Buy \<Rightarrow> ''Updated buy priority key already exists.''
                                    | Sell \<Rightarrow> ''Updated sell priority key already exists.'')), om)
                         else case set_erase (priority_compare side) old_key keys1 of
                                (erased, keys2) \<Rightarrow>
                                  if erased \<noteq> 1
                                  then (Inl (Logic_error (case side of
                                               Buy \<Rightarrow> ''Existing buy priority key is missing.''
                                             | Sell \<Rightarrow> ''Existing sell priority key is missing.'')),
                                        set_priority_index side
                                          (snd (set_erase (priority_compare side) new_key keys2)) om)
                                  else (Inr True,
                                        om_write_order order_id
                                          (\<lambda>o1. o1\<lparr>lo_sequence_number := new_sequence_number\<rparr>)
                                          (set_priority_index side keys2 om))))"

definition om_best_order :: "order_side \<Rightarrow> order_manager \<Rightarrow> limit_order option" where
  "om_best_order side om =
     (case priority_index side om of [] \<Rightarrow> None | key # _ \<Rightarrow> om_find_order om (pk_order_id key))"

definition best_buy_order :: "order_manager \<Rightarrow> limit_order option" where
  "best_buy_order om = om_best_order Buy om"

definition best_sell_order :: "order_manager \<Rightarrow> limit_order option" where
  "best_sell_order om = om_best_order Sell om"

subsection \<open>The comparators meet the contract of ordered containers\<close>

lemma priority_key_eq_iff:
  "(k :: priority_key) = l \<longleftrightarrow> pk_price_ticks k = pk_price_ticks l
     \<and> pk_sequence_number k = pk_sequence_number l \<and> pk_order_id k = pk_order_id l"
  by (cases k; cases l) simp

interpretation buy_prio: strict_total buy_priority_compare
proof
  fix x y z :: priority_key
  show "\<not> buy_priority_compare x x" by (simp add: buy_priority_compare_def)
  show "buy_priority_compare x y \<Longrightarrow> buy_priority_compare y z \<Longrightarrow> buy_priority_compare x z"
    by (auto simp: buy_priority_compare_def split: if_splits)
  show "x \<noteq> y \<Longrightarrow> buy_priority_compare x y \<or> buy_priority_compare y x"
    by (auto simp: buy_priority_compare_def priority_key_eq_iff)
qed

interpretation sell_prio: strict_total sell_priority_compare
proof
  fix x y z :: priority_key
  show "\<not> sell_priority_compare x x" by (simp add: sell_priority_compare_def)
  show "sell_priority_compare x y \<Longrightarrow> sell_priority_compare y z \<Longrightarrow> sell_priority_compare x z"
    by (auto simp: sell_priority_compare_def split: if_splits)
  show "x \<noteq> y \<Longrightarrow> sell_priority_compare x y \<or> sell_priority_compare y x"
    by (auto simp: sell_priority_compare_def priority_key_eq_iff)
qed

interpretation prio: strict_total "priority_compare side" for side
  using buy_prio.strict_total_axioms sell_prio.strict_total_axioms
  by (cases side) (simp_all add: priority_compare_def)

subsection \<open>The invariant\<close>

definition om_wf :: "order_manager \<Rightarrow> bool" where
  "om_wf om \<longleftrightarrow>
     (\<forall>k i. om_indices om k = Some i \<longleftrightarrow> i < length (om_orders om) \<and> lo_order_id (om_orders om ! i) = k)
     \<and> (\<forall>side. sorted_wrt (priority_compare side) (priority_index side om)
          \<and> set (priority_index side om) = make_priority_key ` {x \<in> set (om_orders om). lo_side x = side})
     \<and> length (om_orders om) \<le> om_max_size om"

lemma priority_index_simps [simp]:
  "priority_index side (set_priority_index side keys om) = keys"
  "side \<noteq> side' \<Longrightarrow> priority_index side (set_priority_index side' keys om) = priority_index side om"
  "om_orders (set_priority_index side keys om) = om_orders om"
  "om_indices (set_priority_index side keys om) = om_indices om"
  "om_max_size (set_priority_index side keys om) = om_max_size om"
  "priority_index side (om\<lparr>om_orders := xs\<rparr>) = priority_index side om"
  "priority_index side (om\<lparr>om_indices := m\<rparr>) = priority_index side om"
  by (cases side; simp add: priority_index_def set_priority_index_def;
      cases side'; simp add: priority_index_def set_priority_index_def)+

lemma om_wf_new [simp]: "om_wf (new_order_manager n)"
  by (simp add: om_wf_def new_order_manager_def priority_index_def split: order_side.splits)

lemma om_wf_index:
  "om_wf om \<Longrightarrow> om_indices om k = Some i \<longleftrightarrow> i < length (om_orders om) \<and> lo_order_id (om_orders om ! i) = k"
  by (simp add: om_wf_def)

lemma om_wf_nth_index:
  "om_wf om \<Longrightarrow> i < length (om_orders om) \<Longrightarrow> om_indices om (lo_order_id (om_orders om ! i)) = Some i"
  by (simp add: om_wf_def)

lemma om_wf_distinct: "om_wf om \<Longrightarrow> distinct (map lo_order_id (om_orders om))"
  by (auto simp: distinct_conv_nth) (metis om_wf_nth_index option.inject)

lemma om_wf_id_unique:
  "om_wf om \<Longrightarrow> x \<in> set (om_orders om) \<Longrightarrow> y \<in> set (om_orders om) \<Longrightarrow> lo_order_id x = lo_order_id y \<Longrightarrow> x = y"
  using om_wf_distinct by (metis distinct_map inj_onD)

lemma om_wf_max: "om_wf om \<Longrightarrow> length (om_orders om) \<le> om_max_size om"
  by (simp add: om_wf_def)

lemma om_wf_prio:
  "om_wf om \<Longrightarrow> sorted_wrt (priority_compare side) (priority_index side om)"
  "om_wf om \<Longrightarrow> set (priority_index side om) = make_priority_key ` {x \<in> set (om_orders om). lo_side x = side}"
  by (simp_all add: om_wf_def)

lemma om_wf_index_None:
  "om_wf om \<Longrightarrow> om_indices om k = None \<longleftrightarrow> k \<notin> lo_order_id ` set (om_orders om)"
  by (auto simp: in_set_conv_nth om_wf_nth_index) (metis image_eqI not_None_eq nth_mem om_wf_index)

lemma om_find_order_Some_iff:
  "om_wf om \<Longrightarrow> om_find_order om k = Some x \<longleftrightarrow> x \<in> set (om_orders om) \<and> lo_order_id x = k"
proof -
  assume wf: "om_wf om"
  show ?thesis
  proof (cases "om_indices om k")
    case None
    then have "\<not> (i < length (om_orders om) \<and> lo_order_id (om_orders om ! i) = k)" for i
      using om_wf_index [OF wf, of k i] by simp
    with None show ?thesis by (auto simp: om_find_order_def in_set_conv_nth)
  next
    case (Some i)
    have "j = i" if "j < length (om_orders om)" "lo_order_id (om_orders om ! j) = k" for j
      using that om_wf_index [OF wf, of k j] Some by simp
    with Some om_wf_index [OF wf, of k i] show ?thesis
      by (auto simp: om_find_order_def in_set_conv_nth)
  qed
qed

lemma om_find_order_None_iff:
  "om_wf om \<Longrightarrow> om_find_order om k = None \<longleftrightarrow> k \<notin> lo_order_id ` set (om_orders om)"
  using om_wf_index_None [of om k] by (auto simp: om_find_order_def split: option.splits)

text \<open>A well-formed manager is determined by its order vector: the indexes carry no information.\<close>

lemma om_wf_ext:
  assumes "om_wf a" "om_wf b" "om_orders a = om_orders b" "om_max_size a = om_max_size b"
  shows "a = (b :: order_manager)"
proof -
  have "om_indices a k = om_indices b k" for k
    using om_wf_index [OF assms(1), of k] om_wf_index [OF assms(2), of k] assms(3)
    by (cases "om_indices a k"; cases "om_indices b k") auto
  then have ind: "om_indices a = om_indices b" by auto
  have "priority_index side a = priority_index side b" for side
    using prio.sorted_unique [of side] om_wf_prio [OF assms(1)] om_wf_prio [OF assms(2)] assms(3)
    by metis
  then have "om_buy_index a = om_buy_index b" "om_sell_index a = om_sell_index b"
    by (metis order_side.simps(3) priority_index_def, metis order_side.simps(4) priority_index_def)
  with ind assms(3,4) show ?thesis by simp
qed

lemma make_priority_key_simps [simp]:
  "pk_order_id (make_priority_key x) = lo_order_id x"
  "pk_price_ticks (make_priority_key x) = lo_price_ticks x"
  "pk_sequence_number (make_priority_key x) = lo_sequence_number x"
  by (simp_all add: make_priority_key_def)

lemma key_in_index_iff:
  assumes "om_wf om" "x \<in> set (om_orders om)"
  shows "make_priority_key x \<in> set (priority_index side om) \<longleftrightarrow> lo_side x = side"
proof -
  have "y = x" if "y \<in> set (om_orders om)" "make_priority_key y = make_priority_key x" for y
    using that assms om_wf_distinct [OF assms(1)]
    by (metis distinct_map inj_onD make_priority_key_simps(1))
  then show ?thesis using om_wf_prio(2) [OF assms(1)] assms(2) by auto
qed

definition order_valid :: "limit_order \<Rightarrow> bool" where
  "order_valid x \<longleftrightarrow> lo_order_id x \<noteq> 0 \<and> 0 < lo_price_ticks x \<and> 0 < lo_remaining_quantity x
     \<and> lo_remaining_quantity x \<le> lo_original_quantity x \<and> lo_sequence_number x \<noteq> 0"

lemma validate_order_Inr_iff: "validate_order x = Inr u \<longleftrightarrow> order_valid x"
  by (auto simp: validate_order_def order_valid_def and_then_eq_Inr_iff require_positive_Inr)

lemma validate_order_valid [simp]: "order_valid x \<Longrightarrow> validate_order x = Inr ()"
  by (simp add: validate_order_Inr_iff)

subsection \<open>Adding\<close>

definition idx_wf :: "order_manager \<Rightarrow> bool" where
  "idx_wf om \<longleftrightarrow>
     (\<forall>k i. om_indices om k = Some i \<longleftrightarrow> i < length (om_orders om) \<and> lo_order_id (om_orders om ! i) = k)"

definition prio_wf :: "order_manager \<Rightarrow> bool" where
  "prio_wf om \<longleftrightarrow>
     (\<forall>side. sorted_wrt (priority_compare side) (priority_index side om)
        \<and> set (priority_index side om) = make_priority_key ` {x \<in> set (om_orders om). lo_side x = side})"

lemma om_wf_parts: "om_wf om \<longleftrightarrow> idx_wf om \<and> prio_wf om \<and> length (om_orders om) \<le> om_max_size om"
  by (simp add: om_wf_def idx_wf_def prio_wf_def)

lemma prio_wfI:
  assumes "sorted_wrt (priority_compare side) (priority_index side om)"
    and "set (priority_index side om) = make_priority_key ` {x \<in> set (om_orders om). lo_side x = side}"
    and "\<And>side'. side' \<noteq> side \<Longrightarrow> sorted_wrt (priority_compare side') (priority_index side' om)
       \<and> set (priority_index side' om) = make_priority_key ` {x \<in> set (om_orders om). lo_side x = side'}"
  shows "prio_wf om"
  unfolding prio_wf_def using assms by metis

lemma om_add_order_ok:
  assumes wf: "om_wf om" and valid: "order_valid x"
    and fresh: "lo_order_id x \<notin> lo_order_id ` set (om_orders om)"
    and room: "length (om_orders om) < om_max_size om"
  obtains om' where "om_add_order x om = (Inr (), om')" "om_wf om'"
    "om_orders om' = om_orders om @ [x]" "om_max_size om' = om_max_size om"
proof -
  let ?side = "lo_side x" and ?key = "make_priority_key x"
  define om2 where "om2 = om\<lparr>om_orders := om_orders om @ [x],
    om_indices := (om_indices om)(lo_order_id x \<mapsto> length (om_orders om))\<rparr>"
  obtain ins keys where ik: "set_insert (priority_compare ?side) ?key (priority_index ?side om) = (ins, keys)"
    by fastforce
  have none: "om_indices om (lo_order_id x) = None" using om_wf_index_None [OF wf] fresh by simp
  have "?key \<notin> set (priority_index ?side om)"
    using om_wf_prio(2) [OF wf] fresh by (auto simp: image_iff) (metis make_priority_key_simps(1))
  from prio.set_insert_fresh [OF om_wf_prio(1) [OF wf] this] ik
  have keys: "ins" "sorted_wrt (priority_compare ?side) keys" "set keys = insert ?key (set (priority_index ?side om))"
    by auto
  let ?om' = "set_priority_index ?side keys om2"
  have op: "om_add_order x om = (Inr (), ?om')"
    using none room valid keys(1) ik by (simp add: om_add_order_def om2_def Let_def)
  have "idx_wf ?om'"
    using om_wf_index [OF wf] fresh unfolding idx_wf_def
    by (auto simp: om2_def nth_append less_Suc_eq image_iff) (metis nth_mem)
  moreover have "prio_wf ?om'"
  proof (rule prio_wfI [of ?side])
    show "sorted_wrt (priority_compare ?side) (priority_index ?side ?om')" using keys by simp
    show "set (priority_index ?side ?om') = make_priority_key ` {y \<in> set (om_orders ?om'). lo_side y = ?side}"
      using keys om_wf_prio(2) [OF wf] by (auto simp: om2_def)
    fix side' assume "side' \<noteq> ?side"
    then show "sorted_wrt (priority_compare side') (priority_index side' ?om')
       \<and> set (priority_index side' ?om') = make_priority_key ` {y \<in> set (om_orders ?om'). lo_side y = side'}"
      using om_wf_prio [OF wf] by (auto simp: om2_def)
  qed
  ultimately have "om_wf ?om'" using room by (simp add: om_wf_parts om2_def)
  with op show ?thesis using that by (simp add: om2_def)
qed

lemma om_add_order_fails:
  assumes "om_wf om"
  shows "om_add_order x om = (Inl e, om') \<Longrightarrow> om' = om"
    and "throws (om_add_order x om) \<longleftrightarrow>
      \<not> (order_valid x \<and> lo_order_id x \<notin> lo_order_id ` set (om_orders om)
         \<and> length (om_orders om) < om_max_size om)"
proof -
  consider e where "validate_order x = Inl e" | "order_valid x" "lo_order_id x \<in> lo_order_id ` set (om_orders om)"
    | "order_valid x" "lo_order_id x \<notin> lo_order_id ` set (om_orders om)" "length (om_orders om) \<ge> om_max_size om"
    | "order_valid x" "lo_order_id x \<notin> lo_order_id ` set (om_orders om)" "length (om_orders om) < om_max_size om"
    by (metis not_less obj_sumE validate_order_Inr_iff)
  then have "(\<exists>e. om_add_order x om = (Inl e, om) \<and> \<not> (order_valid x
      \<and> lo_order_id x \<notin> lo_order_id ` set (om_orders om) \<and> length (om_orders om) < om_max_size om))
    \<or> (\<exists>om'. om_add_order x om = (Inr (), om') \<and> order_valid x
      \<and> lo_order_id x \<notin> lo_order_id ` set (om_orders om) \<and> length (om_orders om) < om_max_size om)"
  proof cases
    case (1 e)
    then have "\<not> order_valid x" by (metis Inl_Inr_False validate_order_Inr_iff)
    with 1 show ?thesis by (simp add: om_add_order_def)
  next
    case 2
    then show ?thesis using om_wf_index_None [OF assms] by (auto simp: om_add_order_def)
  next
    case 3
    then show ?thesis using om_wf_index_None [OF assms] by (auto simp: om_add_order_def)
  next
    case 4
    then show ?thesis using om_add_order_ok [OF assms 4] by metis
  qed
  then show "om_add_order x om = (Inl e, om') \<Longrightarrow> om' = om"
    and "throws (om_add_order x om) \<longleftrightarrow>
      \<not> (order_valid x \<and> lo_order_id x \<notin> lo_order_id ` set (om_orders om)
         \<and> length (om_orders om) < om_max_size om)"
    by auto
qed

subsection \<open>Removing\<close>

definition swap_remove :: "nat \<Rightarrow> 'a list \<Rightarrow> 'a list" where
  "swap_remove i xs = butlast (xs[i := last xs])"

lemma length_swap_remove [simp]: "length (swap_remove i xs) = length xs - 1"
  by (simp add: swap_remove_def)

lemma nth_swap_remove:
  "j < length xs - 1 \<Longrightarrow> swap_remove i xs ! j = (if j = i then last xs else xs ! j)"
  by (simp add: swap_remove_def nth_butlast nth_list_update)

lemma mset_swap_remove:
  assumes "i < length xs"
  shows "add_mset (xs ! i) (mset (swap_remove i xs)) = mset xs"
proof -
  let ?ys = "xs[i := last xs]"
  have ne: "?ys \<noteq> []" using assms by auto
  have l: "last ?ys = last xs"
    using assms by (metis last_list_update length_list_update length_greater_0_conv list.size(3) not_less_zero)
  have "mset (swap_remove i xs) + {# last xs #} = mset ?ys"
    using ne l by (metis append_butlast_last_id mset_append mset_single_iff swap_remove_def mset.simps(1) mset.simps(2))
  then have "add_mset (last xs) (mset (swap_remove i xs)) = add_mset (last xs) (mset xs - {# xs ! i #})"
    using assms by (simp add: mset_update)
  then have "mset (swap_remove i xs) = mset xs - {# xs ! i #}" by simp
  then show ?thesis using assms by (simp add: nth_mem_mset)
qed

lemma set_swap_remove:
  assumes "i < length xs" "distinct (map f xs)"
  shows "set (swap_remove i xs) = set xs - {xs ! i}"
proof -
  have "distinct xs" using assms(2) by (simp add: distinct_map)
  then have "xs ! i \<notin># mset xs - {# xs ! i #}"
    using assms(1) by (simp add: distinct_count_atmost_1 in_diff_count nth_mem_mset)
  moreover have "mset (swap_remove i xs) = mset xs - {# xs ! i #}"
    using mset_swap_remove [OF assms(1)] by (metis add_mset_remove_trivial)
  ultimately show ?thesis
    using assms(1) by (metis at_most_one_mset_mset_diff more_than_one_mset_mset_diff set_mset_mset)
qed

text \<open>The index after the last order was popped, and after it was moved into the gap at \<open>i\<close>.\<close>

lemma idx_wf_inj:
  assumes "idx_wf om" "a < length (om_orders om)" "b < length (om_orders om)"
    "lo_order_id (om_orders om ! a) = lo_order_id (om_orders om ! b)"
  shows "a = b"
  using assms unfolding idx_wf_def by (metis option.inject)

lemma idx_wf_pop:
  assumes wf: "idx_wf om" and i: "i = length (om_orders om) - Suc 0" "i < length (om_orders om)"
    and k: "lo_order_id (om_orders om ! i) = k"
  shows "idx_wf (om\<lparr>om_orders := butlast (om_orders om), om_indices := (om_indices om)(k := None)\<rparr>)"
  unfolding idx_wf_def
proof (intro allI)
  fix q j
  have "om_indices om q = Some j \<longleftrightarrow> j < length (om_orders om) \<and> lo_order_id (om_orders om ! j) = q"
    using wf by (simp add: idx_wf_def)
  then show "om_indices (om\<lparr>om_orders := butlast (om_orders om), om_indices := (om_indices om)(k := None)\<rparr>) q = Some j
      \<longleftrightarrow> j < length (om_orders (om\<lparr>om_orders := butlast (om_orders om), om_indices := (om_indices om)(k := None)\<rparr>))
        \<and> lo_order_id (om_orders (om\<lparr>om_orders := butlast (om_orders om), om_indices := (om_indices om)(k := None)\<rparr>) ! j) = q"
    using idx_wf_inj [OF wf, of i j] i k by (cases "j = i") (auto simp: nth_butlast)
qed

lemma idx_wf_swap:
  assumes wf: "idx_wf om" and i: "i < length (om_orders om) - Suc 0" and k: "lo_order_id (om_orders om ! i) = k"
  defines "m \<equiv> lo_order_id (last (om_orders om))"
  shows "idx_wf (om\<lparr>om_orders := swap_remove i (om_orders om), om_indices := ((om_indices om)(m \<mapsto> i))(k := None)\<rparr>)"
    and "m \<noteq> k" and "om_indices om m = Some (length (om_orders om) - Suc 0)"
proof -
  let ?xs = "om_orders om" and ?last = "length (om_orders om) - Suc 0"
  let ?om' = "om\<lparr>om_orders := swap_remove i ?xs, om_indices := ((om_indices om)(m \<mapsto> i))(k := None)\<rparr>"
  have idx: "om_indices om q = Some j \<longleftrightarrow> j < length ?xs \<and> lo_order_id (?xs ! j) = q" for q j
    using wf by (simp add: idx_wf_def)
  have il: "?last < length ?xs" "i < length ?xs" using i by auto
  then have "?xs ! ?last = last ?xs" by (metis One_nat_def last_conv_nth length_0_conv not_less_zero)
  note last = this il
  show mi: "om_indices om m = Some ?last" using idx [of m ?last] last by (simp add: m_def)
  show mk: "m \<noteq> k" using idx_wf_inj [OF wf, of i ?last] i k last by (auto simp: m_def)
  have nth: "j < ?last \<Longrightarrow> swap_remove i ?xs ! j = (if j = i then last ?xs else ?xs ! j)" for j
    using nth_swap_remove [of j ?xs i] by simp
  show "idx_wf ?om'"
    unfolding idx_wf_def
  proof (intro allI)
    fix q j
    consider "q = k" | "q = m" "q \<noteq> k" | "q \<noteq> k" "q \<noteq> m" by blast
    then show "om_indices ?om' q = Some j \<longleftrightarrow> j < length (om_orders ?om') \<and> lo_order_id (om_orders ?om' ! j) = q"
    proof cases
      case 1
      have "lo_order_id (swap_remove i ?xs ! j) \<noteq> k" if "j < ?last"
      proof (cases "j = i")
        case True
        then show ?thesis using mk nth [OF that] by (simp add: m_def)
      next
        case False
        then show ?thesis using nth [OF that] idx_wf_inj [OF wf, of i j] il k that by auto
      qed
      with 1 show ?thesis by auto
    next
      case 2
      then show ?thesis using idx_wf_inj [OF wf, of j ?last] i last nth by (auto simp: m_def split: if_splits)
    next
      case 3
      have "j = ?last \<or> j < ?last" if "j < length ?xs" using that by linarith
      then show ?thesis using 3 idx [of q j] k last nth by (auto simp: m_def split: if_splits)
    qed
  qed
qed

lemma om_close_gap_ok:
  assumes wf: "idx_wf om" and i: "i < length (om_orders om)" and k: "lo_order_id (om_orders om ! i) = k"
  obtains om' where "om_close_gap k i om = (Inr (), om')" "idx_wf om'"
    "om_orders om' = swap_remove i (om_orders om)" "om_max_size om' = om_max_size om"
    "\<forall>side. priority_index side om' = priority_index side om"
proof -
  let ?xs = "om_orders om" and ?last = "length (om_orders om) - Suc 0"
  have last: "?xs ! ?last = last ?xs" using i by (metis One_nat_def last_conv_nth length_0_conv not_less_zero)
  show ?thesis
  proof (cases "i = ?last")
    case True
    let ?om' = "om\<lparr>om_orders := butlast ?xs, om_indices := (om_indices om)(k := None)\<rparr>"
    have "butlast ?xs = swap_remove i ?xs" using True last by (metis list_update_id swap_remove_def)
    then show ?thesis
      using that [of ?om'] True idx_wf_pop [OF wf True i k] by (simp add: om_close_gap_def Let_def)
  next
    case False
    then have il: "i < ?last" using i by simp
    note sw = idx_wf_swap [OF wf il k]
    let ?om' = "om\<lparr>om_orders := swap_remove i ?xs, om_indices := ((om_indices om)(lo_order_id (last ?xs) \<mapsto> i))(k := None)\<rparr>"
    have "om_close_gap k i om = (Inr (), ?om')"
      using False i sw(3) by (simp add: om_close_gap_def Let_def last swap_remove_def)
    then show ?thesis using that [of ?om'] sw(1) by simp
  qed
qed

text \<open>
  Both removals leave the same manager: the order's position is filled with the last order and
  every index follows.
\<close>

lemma removed_keys:
  assumes wf: "om_wf om" and i: "i < length (om_orders om)"
  defines "x \<equiv> om_orders om ! i"
  defines "keys \<equiv> snd (set_erase (priority_compare (lo_side x)) (make_priority_key x) (priority_index (lo_side x) om))"
  shows "make_priority_key x \<in> set (priority_index (lo_side x) om)"
    and "sorted_wrt (priority_compare (lo_side x)) keys"
    and "set keys = make_priority_key ` {y \<in> set (swap_remove i (om_orders om)). lo_side y = lo_side x}"
proof -
  have xin: "x \<in> set (om_orders om)" using i by (simp add: x_def)
  show mem: "make_priority_key x \<in> set (priority_index (lo_side x) om)"
    using key_in_index_iff [OF wf xin] by simp
  note er = prio.set_erase_present [OF om_wf_prio(1) [OF wf] mem]
  show "sorted_wrt (priority_compare (lo_side x)) keys" using er by (simp add: keys_def)
  have inj: "y = x" if "y \<in> set (om_orders om)" "make_priority_key y = make_priority_key x" for y
    using that xin om_wf_distinct [OF wf] by (metis distinct_map inj_onD make_priority_key_simps(1))
  have "set keys = make_priority_key ` {y \<in> set (om_orders om). lo_side y = lo_side x} - {make_priority_key x}"
    using er om_wf_prio(2) [OF wf] by (simp add: keys_def)
  also have "\<dots> = make_priority_key ` {y \<in> set (om_orders om) - {x}. lo_side y = lo_side x}"
    using inj by auto
  finally show "set keys = make_priority_key ` {y \<in> set (swap_remove i (om_orders om)). lo_side y = lo_side x}"
    using set_swap_remove [OF i om_wf_distinct [OF wf]] by (simp add: x_def)
qed

lemma om_remove_core:
  assumes wf: "om_wf om" and i: "i < length (om_orders om)"
  defines "x \<equiv> om_orders om ! i"
  defines "om1 \<equiv> set_priority_index (lo_side x)
     (snd (set_erase (priority_compare (lo_side x)) (make_priority_key x) (priority_index (lo_side x) om))) om"
  obtains om' where "om_close_gap (lo_order_id x) i om1 = (Inr (), om')" "om_wf om'"
    "om_orders om' = swap_remove i (om_orders om)" "om_max_size om' = om_max_size om"
proof -
  have "idx_wf om1" using wf by (simp add: om1_def om_wf_parts idx_wf_def)
  moreover have "i < length (om_orders om1)" "lo_order_id (om_orders om1 ! i) = lo_order_id x"
    using i by (simp_all add: om1_def x_def)
  ultimately obtain om' where om': "om_close_gap (lo_order_id x) i om1 = (Inr (), om')" "idx_wf om'"
    "om_orders om' = swap_remove i (om_orders om1)" "om_max_size om' = om_max_size om1"
    "\<forall>side. priority_index side om' = priority_index side om1"
    by (rule om_close_gap_ok)
  have orders: "om_orders om' = swap_remove i (om_orders om)" using om'(3) by (simp add: om1_def)
  have "prio_wf om'"
  proof (rule prio_wfI [of "lo_side x"])
    show "sorted_wrt (priority_compare (lo_side x)) (priority_index (lo_side x) om')"
      using removed_keys(2) [OF wf i] by (simp add: om'(5) om1_def x_def)
    show "set (priority_index (lo_side x) om')
        = make_priority_key ` {y \<in> set (om_orders om'). lo_side y = lo_side x}"
      using removed_keys(3) [OF wf i] by (simp add: om'(5) orders om1_def x_def)
    fix side assume "side \<noteq> lo_side x"
    then show "sorted_wrt (priority_compare side) (priority_index side om')
       \<and> set (priority_index side om') = make_priority_key ` {y \<in> set (om_orders om'). lo_side y = side}"
      using om_wf_prio [OF wf] set_swap_remove [OF i om_wf_distinct [OF wf]]
      by (auto simp: om'(5) orders om1_def x_def)
  qed
  then have "om_wf om'"
    using om'(2,4) orders wf by (auto simp: om_wf_parts om1_def)
  with om'(1,4) orders show ?thesis using that by (simp add: om1_def)
qed

lemma om_cancel_order_ok:
  assumes wf: "om_wf om" and x: "om_find_order om k = Some x"
  obtains i om' where "om_cancel_order k om = (Inr True, om')" "om_wf om'"
    "i < length (om_orders om)" "om_orders om ! i = x"
    "om_orders om' = swap_remove i (om_orders om)" "om_max_size om' = om_max_size om"
proof -
  from x obtain i where i: "om_indices om k = Some i" "x = om_orders om ! i"
    by (auto simp: om_find_order_def split: option.splits)
  then have il: "i < length (om_orders om)" "lo_order_id x = k" using om_wf_index [OF wf] by auto
  let ?side = "lo_side x" and ?key = "make_priority_key x"
  obtain n keys where er: "set_erase (priority_compare ?side) ?key (priority_index ?side om) = (n, keys)"
    by fastforce
  have "n = 1"
    using prio.set_erase_present [OF om_wf_prio(1) [OF wf]] removed_keys(1) [OF wf il(1)] er i(2)
    by (metis fst_conv)
  moreover obtain om' where "om_close_gap k i (set_priority_index ?side keys om) = (Inr (), om')" "om_wf om'"
    "om_orders om' = swap_remove i (om_orders om)" "om_max_size om' = om_max_size om"
    using om_remove_core [OF wf il(1)] er il(2) i(2) by (metis snd_conv)
  ultimately show ?thesis
    using that i il er by (simp add: om_cancel_order_def Let_def)
qed

lemma om_cancel_order_unknown: "om_wf om \<Longrightarrow> om_find_order om k = None \<Longrightarrow> om_cancel_order k om = (Inr False, om)"
  by (simp add: om_cancel_order_def om_find_order_def split: option.splits)

definition removal_of :: "order_manager \<Rightarrow> nat \<Rightarrow> removal \<Rightarrow> removal" where
  "removal_of om i r = (let x = om_orders om ! i; swapped = (i \<noteq> length (om_orders om) - 1) in
     r\<lparr>rm_removed_order := x, rm_original_index := i, rm_swapped := swapped,
       rm_swapped_order_id := (if swapped then lo_order_id (last (om_orders om)) else 0),
       rm_index_node := Some (lo_order_id x, i),
       rm_buy_node := (case lo_side x of Buy \<Rightarrow> Some (make_priority_key x) | Sell \<Rightarrow> rm_buy_node r),
       rm_sell_node := (case lo_side x of Buy \<Rightarrow> rm_sell_node r | Sell \<Rightarrow> Some (make_priority_key x))\<rparr>)"

lemma om_cancel_order_removal_ok:
  assumes wf: "om_wf om" and x: "om_find_order om k = Some x"
  obtains i om' where "om_cancel_order_removal k r om = (Inr True, om', removal_of om i r)" "om_wf om'"
    "i < length (om_orders om)" "om_orders om ! i = x"
    "om_orders om' = swap_remove i (om_orders om)" "om_max_size om' = om_max_size om"
proof -
  from x obtain i where i: "om_indices om k = Some i" "x = om_orders om ! i"
    by (auto simp: om_find_order_def split: option.splits)
  then have il: "i < length (om_orders om)" "lo_order_id x = k" using om_wf_index [OF wf] by auto
  let ?side = "lo_side x" and ?key = "make_priority_key x"
  let ?keys = "snd (set_erase (priority_compare ?side) ?key (priority_index ?side om))"
  have ex: "set_extract (priority_compare ?side) ?key (priority_index ?side om) = (Some ?key, ?keys)"
    using prio.set_extract_present [OF om_wf_prio(1) [OF wf]] removed_keys(1) [OF wf il(1)] i(2) by metis
  obtain om' where om': "om_close_gap k i (set_priority_index ?side ?keys om) = (Inr (), om')" "om_wf om'"
    "om_orders om' = swap_remove i (om_orders om)" "om_max_size om' = om_max_size om"
    using om_remove_core [OF wf il(1)] il(2) i(2) by metis
  have "om_orders om ! (length (om_orders om) - 1) = last (om_orders om)"
    using il(1) by (metis last_conv_nth length_0_conv not_less_zero)
  then have "om_cancel_order_removal k r om = (Inr True, om', removal_of om i r)"
    using i il ex om'(1)
    by (cases ?side) (simp_all add: om_cancel_order_removal_def removal_of_def Let_def)
  with om' il i show ?thesis using that by blast
qed

subsection \<open>Restoring a removal\<close>

definition same_key :: "limit_order \<Rightarrow> limit_order \<Rightarrow> bool" where
  "same_key x y \<longleftrightarrow> lo_order_id x = lo_order_id y \<and> lo_side x = lo_side y
     \<and> make_priority_key x = make_priority_key y"

lemma option_eqI: "(\<And>j. a = Some j \<longleftrightarrow> b = Some j) \<Longrightarrow> a = b"
  by (cases a; cases b) auto

lemma om_wf_write:
  assumes "om_wf om" "i < length (om_orders om)" "same_key (om_orders om ! i) y"
  shows "om_wf (om\<lparr>om_orders := (om_orders om)[i := y]\<rparr>)"
proof -
  have "set (map make_priority_key (filter (\<lambda>x. lo_side x = side) ((om_orders om)[i := y])))
      = set (map make_priority_key (filter (\<lambda>x. lo_side x = side) (om_orders om)))" for side
    by (subst filter_map_update_eq) (use assms in \<open>auto simp: same_key_def\<close>)
  then have "make_priority_key ` {x \<in> set ((om_orders om)[i := y]). lo_side x = side}
      = make_priority_key ` {x \<in> set (om_orders om). lo_side x = side}" for side
    by simp
  then show ?thesis
    using assms unfolding om_wf_def same_key_def by (auto simp: nth_list_update)
qed

lemma index_without_gap:
  assumes wf: "om_wf om" and i: "i < length (om_orders om)"
    and wf': "om_wf om'" and orders': "om_orders om' = swap_remove i (om_orders om)"
    and q: "q \<noteq> lo_order_id (om_orders om ! i)" "q \<noteq> lo_order_id (last (om_orders om))"
  shows "om_indices om' q = om_indices om q"
proof (rule option_eqI)
  fix j
  let ?xs = "om_orders om"
  have last: "?xs ! (length ?xs - Suc 0) = last ?xs"
    using i by (metis One_nat_def last_conv_nth length_0_conv not_less_zero)
  have "om_indices om' q = Some j \<longleftrightarrow> j < length ?xs - Suc 0 \<and> lo_order_id (swap_remove i ?xs ! j) = q"
    using om_wf_index [OF wf', of q j] by (simp add: orders')
  also have "\<dots> \<longleftrightarrow> j < length ?xs - Suc 0 \<and> j \<noteq> i \<and> lo_order_id (?xs ! j) = q"
    using q nth_swap_remove [of j ?xs i] by auto
  also have "\<dots> \<longleftrightarrow> j < length ?xs \<and> lo_order_id (?xs ! j) = q"
    using q last by (cases "j = length ?xs - Suc 0") auto
  finally show "om_indices om' q = Some j \<longleftrightarrow> om_indices om q = Some j"
    using om_wf_index [OF wf, of q j] by simp
qed

lemma swap_remove_back:
  assumes "i < length xs"
  shows "i = length xs - 1 \<Longrightarrow> swap_remove i xs @ [y] = xs[i := y]"
    and "i \<noteq> length xs - 1 \<Longrightarrow> (swap_remove i xs @ [y])[i := y, length xs - 1 := last xs] = xs[i := y]"
proof -
  obtain ys l where xs: "xs = ys @ [l]" using assms by (metis list.size(3) not_less_zero rev_exhaust)
  show "i = length xs - 1 \<Longrightarrow> swap_remove i xs @ [y] = xs[i := y]"
    by (simp add: xs swap_remove_def list_update_append)
  assume "i \<noteq> length xs - 1"
  with assms have "i < length ys" by (simp add: xs)
  then show "(swap_remove i xs @ [y])[i := y, length xs - 1 := last xs] = xs[i := y]"
    by (simp add: xs swap_remove_def list_update_append)
qed

lemma priority_index_without:
  assumes wf: "om_wf om" and i: "i < length (om_orders om)"
    and wf': "om_wf om'" and orders': "om_orders om' = swap_remove i (om_orders om)"
  shows "priority_index (lo_side (om_orders om ! i)) om' =
      snd (set_erase (priority_compare (lo_side (om_orders om ! i))) (make_priority_key (om_orders om ! i))
        (priority_index (lo_side (om_orders om ! i)) om))"
    and "side \<noteq> lo_side (om_orders om ! i) \<Longrightarrow> priority_index side om' = priority_index side om"
proof -
  show "priority_index (lo_side (om_orders om ! i)) om' =
      snd (set_erase (priority_compare (lo_side (om_orders om ! i))) (make_priority_key (om_orders om ! i))
        (priority_index (lo_side (om_orders om ! i)) om))"
    by (rule prio.sorted_unique)
      (use removed_keys [OF wf i] om_wf_prio [OF wf'] orders' in simp_all)
  assume "side \<noteq> lo_side (om_orders om ! i)"
  then have "{x \<in> set (om_orders om'). lo_side x = side} = {x \<in> set (om_orders om). lo_side x = side}"
    using set_swap_remove [OF i om_wf_distinct [OF wf]] by (auto simp: orders')
  then show "priority_index side om' = priority_index side om"
    using prio.sorted_unique [of side] om_wf_prio [OF wf] om_wf_prio [OF wf'] by metis
qed

lemma om_restore_removal_eval:
  assumes "rm_index_node r = Some (lo_order_id (rm_removed_order r), j)"
    and "om_indices om (lo_order_id (rm_removed_order r)) = None"
    and "(case lo_side (rm_removed_order r) of Buy \<Rightarrow> rm_buy_node r | Sell \<Rightarrow> rm_sell_node r) = Some key"
    and "length (om_orders om) < om_max_size om"
    and "set_insert (priority_compare (lo_side (rm_removed_order r))) key
           (priority_index (lo_side (rm_removed_order r)) om) = (True, keys)"
  shows "\<not> rm_swapped r \<Longrightarrow> \<exists>r'. om_restore_removal r om = (Inr (),
      set_priority_index (lo_side (rm_removed_order r)) keys
        (om\<lparr>om_orders := om_orders om @ [rm_removed_order r],
            om_indices := (om_indices om)(lo_order_id (rm_removed_order r) \<mapsto> rm_original_index r)\<rparr>), r')"
    and "rm_swapped r \<Longrightarrow> rm_original_index r < length (om_orders om) \<Longrightarrow>
      lo_order_id (om_orders om ! rm_original_index r) = rm_swapped_order_id r \<Longrightarrow>
      om_indices om (rm_swapped_order_id r) \<noteq> None \<Longrightarrow>
      \<exists>r'. om_restore_removal r om = (Inr (),
      set_priority_index (lo_side (rm_removed_order r)) keys
        (om\<lparr>om_orders := (om_orders om @ [rm_removed_order r])
               [rm_original_index r := rm_removed_order r,
                length (om_orders om) := om_orders om ! rm_original_index r],
            om_indices := (om_indices om)(lo_order_id (rm_removed_order r) \<mapsto> rm_original_index r,
              rm_swapped_order_id r \<mapsto> length (om_orders om))\<rparr>), r')"
  using assms
  by (cases "lo_side (rm_removed_order r)";
      auto simp: om_restore_removal_def om_restore_indexes_def Let_def nth_append set_priority_index_def)+

text \<open>The state a removal leaves takes the order back: room, a free id, and the key where it was.\<close>

lemma restore_keys:
  assumes wf: "om_wf om" and i: "i < length (om_orders om)"
    and wf': "om_wf om'" and orders': "om_orders om' = swap_remove i (om_orders om)"
    and max': "om_max_size om' = om_max_size om" and y: "same_key (om_orders om ! i) y"
  obtains keys where "length (om_orders om') < om_max_size om'" "om_indices om' (lo_order_id y) = None"
    "set_insert (priority_compare (lo_side y)) (make_priority_key y) (priority_index (lo_side y) om') = (True, keys)"
    "\<And>zs. set_priority_index (lo_side y) keys (om'\<lparr>om_orders := zs, om_indices := om_indices om\<rparr>) = om\<lparr>om_orders := zs\<rparr>"
proof -
  let ?x = "om_orders om ! i" and ?side = "lo_side y" and ?key = "make_priority_key y" and ?k = "lo_order_id y"
  have xy: "lo_side ?x = ?side" "make_priority_key ?x = ?key" "lo_order_id ?x = ?k"
    using y by (auto simp: same_key_def)
  have room: "length (om_orders om') < om_max_size om'"
    using om_wf_max [OF wf] i max' by (simp add: orders')
  have none: "om_indices om' ?k = None"
    using om_wf_index_None [OF wf'] set_swap_remove [OF i om_wf_distinct [OF wf]] om_wf_distinct [OF wf] i xy(3)
    by (auto simp: orders' distinct_map inj_on_def)
  have ins: "set_insert (priority_compare ?side) ?key (priority_index ?side om') = (True, priority_index ?side om)"
    using prio.insert_after_erase [OF om_wf_prio(1) [OF wf] removed_keys(1) [OF wf i]]
      priority_index_without(1) [OF wf i wf' orders'] by (simp add: xy)
  have other: "side \<noteq> ?side \<Longrightarrow> priority_index side om' = priority_index side om" for side
    using priority_index_without(2) [OF wf i wf' orders'] by (simp add: xy)
  have "set_priority_index ?side (priority_index ?side om) (om'\<lparr>om_orders := zs, om_indices := om_indices om\<rparr>)
      = om\<lparr>om_orders := zs\<rparr>" for zs
    using other [of Buy] other [of Sell] max'
    by (cases ?side) (simp_all add: set_priority_index_def priority_index_def)
  then show thesis by (rule that [OF room none ins])
qed

lemma om_restore_removal_ok:
  assumes wf: "om_wf om" and i: "i < length (om_orders om)"
    and wf': "om_wf om'" and orders': "om_orders om' = swap_remove i (om_orders om)"
    and max': "om_max_size om' = om_max_size om" and y: "same_key (om_orders om ! i) y"
  shows "\<exists>r'. om_restore_removal ((removal_of om i r)\<lparr>rm_removed_order := y\<rparr>) om'
    = (Inr (), om\<lparr>om_orders := (om_orders om)[i := y]\<rparr>, r')"
proof -
  let ?xs = "om_orders om" and ?x = "om_orders om ! i" and ?r = "(removal_of om i r)\<lparr>rm_removed_order := y\<rparr>"
  let ?side = "lo_side y" and ?key = "make_priority_key y" and ?k = "lo_order_id y"
  have xy: "lo_side ?x = ?side" "make_priority_key ?x = ?key" "lo_order_id ?x = ?k"
    using y by (auto simp: same_key_def)
  obtain keys where room: "length (om_orders om') < om_max_size om'" and none: "om_indices om' ?k = None"
    and ik: "set_insert (priority_compare ?side) ?key (priority_index ?side om') = (True, keys)"
    and target: "\<And>zs. set_priority_index ?side keys (om'\<lparr>om_orders := zs, om_indices := om_indices om\<rparr>) = om\<lparr>om_orders := zs\<rparr>"
    using restore_keys [OF assms] by blast
  let ?last = "length ?xs - 1"
  have last: "?xs ! ?last = last ?xs" using i by (metis last_conv_nth length_0_conv not_less_zero)
  have r: "rm_removed_order ?r = y" "rm_original_index ?r = i" "rm_index_node ?r = Some (?k, i)"
    "rm_swapped ?r \<longleftrightarrow> i \<noteq> ?last" "i \<noteq> ?last \<Longrightarrow> rm_swapped_order_id ?r = lo_order_id (last ?xs)"
    "(case ?side of Buy \<Rightarrow> rm_buy_node ?r | Sell \<Rightarrow> rm_sell_node ?r) = Some ?key"
    using xy by (simp_all add: removal_of_def Let_def split: order_side.splits)
  show ?thesis
  proof (cases "i = ?last")
    case True
    then have "(om_indices om')(?k \<mapsto> i) = om_indices om"
      using index_without_gap [OF wf i wf' orders'] last om_wf_nth_index [OF wf i] xy(3)
      by (auto simp: fun_eq_iff)
    note ind = this
    have "om_orders om' @ [y] = ?xs[i := y]"
      using swap_remove_back(1) [OF i True] by (simp add: orders')
    then show ?thesis
      using om_restore_removal_eval(1) [of ?r i om' ?key keys] target ind none room ik True r
      by simp
  next
    case False
    let ?m = "lo_order_id (last ?xs)"
    have il: "i < ?last" using False i by simp
    have mk: "?m \<noteq> ?k"
      using om_wf_index [OF wf, of ?k i] om_wf_index [OF wf, of ?k ?last] i il last xy(3) False
      by (metis diff_less length_greater_0_conv list.size(3) not_less_zero option.inject zero_less_one)
    have swapped: "om_orders om' ! i = last ?xs" "length (om_orders om') = ?last" "i < length (om_orders om')"
      using il nth_swap_remove [of i ?xs i] by (simp_all add: orders')
    have mi: "om_indices om' ?m = Some i"
      using om_wf_nth_index [OF wf' swapped(3)] swapped(1) by simp
    have ind: "(om_indices om')(?k \<mapsto> i, ?m \<mapsto> ?last) = om_indices om"
      using index_without_gap [OF wf i wf' orders'] last om_wf_nth_index [OF wf i]
        om_wf_nth_index [OF wf, of ?last] xy(3) il
      by (auto simp: fun_eq_iff)
    have "(om_orders om' @ [y])[i := y, ?last := last ?xs] = ?xs[i := y]"
      using swap_remove_back(2) [OF i False] by (simp add: orders')
    then show ?thesis
      using om_restore_removal_eval(2) [of ?r i om' ?key keys] target ind none room ik False
        mi swapped r by simp
  qed
qed

subsection \<open>Priority\<close>

lemma om_best_order_None_iff:
  "om_wf om \<Longrightarrow> om_best_order side om = None \<longleftrightarrow> (\<forall>x \<in> set (om_orders om). lo_side x \<noteq> side)"
proof -
  assume wf: "om_wf om"
  have found: "\<forall>k \<in> set (priority_index side om). om_find_order om (pk_order_id k) \<noteq> None"
    using om_wf_prio(2) [OF wf] om_find_order_None_iff [OF wf] by auto
  have "set (priority_index side om) = {} \<longleftrightarrow> (\<forall>x \<in> set (om_orders om). lo_side x \<noteq> side)"
    unfolding om_wf_prio(2) [OF wf] by blast
  then show ?thesis
    using found unfolding om_best_order_def by (cases "priority_index side om") auto
qed

lemma om_best_order_Some:
  assumes wf: "om_wf om" and best: "om_best_order side om = Some x"
  shows "x \<in> set (om_orders om)" "lo_side x = side" "om_find_order om (lo_order_id x) = Some x"
    and "y \<in> set (om_orders om) \<Longrightarrow> lo_side y = side \<Longrightarrow>
      y = x \<or> priority_compare side (make_priority_key x) (make_priority_key y)"
proof -
  from best obtain key keys where k: "priority_index side om = key # keys" "om_find_order om (pk_order_id key) = Some x"
    by (auto simp: om_best_order_def split: list.splits)
  have x: "x \<in> set (om_orders om)" "lo_order_id x = pk_order_id key"
    using om_find_order_Some_iff [OF wf] k(2) by auto
  have "key \<in> make_priority_key ` {z \<in> set (om_orders om). lo_side z = side}"
    using om_wf_prio(2) [OF wf, of side] k(1) by auto
  then obtain z where z: "z \<in> set (om_orders om)" "lo_side z = side" "make_priority_key z = key" by blast
  then have "z = x" using x om_wf_id_unique [OF wf, of z x] by auto
  then show "x \<in> set (om_orders om)" "lo_side x = side" "om_find_order om (lo_order_id x) = Some x"
    using x z om_find_order_Some_iff [OF wf] by auto
  assume y: "y \<in> set (om_orders om)" "lo_side y = side"
  then have "make_priority_key y \<in> set (key # keys)" using key_in_index_iff [OF wf] k(1) by metis
  then have "make_priority_key y = key \<or> priority_compare side key (make_priority_key y)"
    using prio.begin_least om_wf_prio(1) [OF wf, of side] k(1) by metis
  moreover have "y = x" if "make_priority_key y = key"
    using that y x om_wf_id_unique [OF wf, of y x] by auto
  ultimately show "y = x \<or> priority_compare side (make_priority_key x) (make_priority_key y)"
    using z \<open>z = x\<close> by auto
qed

text \<open>The comparators say it in prices and arrival: the best price first, then the lowest sequence number.\<close>

definition better_price :: "order_side \<Rightarrow> int \<Rightarrow> int \<Rightarrow> bool" where
  "better_price side p q = (case side of Buy \<Rightarrow> p > q | Sell \<Rightarrow> p < q)"

lemma priority_compare_iff:
  "priority_compare side k l \<longleftrightarrow> better_price side (pk_price_ticks k) (pk_price_ticks l)
     \<or> pk_price_ticks k = pk_price_ticks l \<and> (pk_sequence_number k < pk_sequence_number l
        \<or> pk_sequence_number k = pk_sequence_number l \<and> pk_order_id k < pk_order_id l)"
  by (cases side) (auto simp: priority_compare_def buy_priority_compare_def sell_priority_compare_def
      better_price_def)

subsection \<open>Renewing a sequence number\<close>

text \<open>The priority set and the orders while an order changes its sequence number to one no order has there.\<close>

lemma renewed_key_fresh:
  assumes wf: "om_wf om" and x: "x \<in> set (om_orders om)" "lo_sequence_number x \<noteq> n"
  shows "make_priority_key (x\<lparr>lo_sequence_number := n\<rparr>) \<notin> set (priority_index (lo_side x) om)"
proof
  assume "make_priority_key (x\<lparr>lo_sequence_number := n\<rparr>) \<in> set (priority_index (lo_side x) om)"
  then obtain z where z: "z \<in> set (om_orders om)" "make_priority_key z = make_priority_key (x\<lparr>lo_sequence_number := n\<rparr>)"
    using om_wf_prio(2) [OF wf] by auto
  then have "lo_order_id z = lo_order_id x" "lo_sequence_number z = n" by (simp_all add: make_priority_key_def)
  then show False using z(1) x om_wf_id_unique [OF wf, of z x] by auto
qed

lemma renewed_key_sets:
  assumes wf: "om_wf om" and x: "x \<in> set (om_orders om)" "lo_sequence_number x \<noteq> n"
  defines "y \<equiv> x\<lparr>lo_sequence_number := n\<rparr>"
  obtains keys1 keys2 where
    "set_insert (priority_compare (lo_side x)) (make_priority_key y) (priority_index (lo_side x) om) = (True, keys1)"
    "set_erase (priority_compare (lo_side x)) (make_priority_key x) keys1 = (1, keys2)"
    "sorted_wrt (priority_compare (lo_side x)) keys2"
    "set keys2 = make_priority_key ` {z \<in> insert y (set (om_orders om) - {x}). lo_side z = lo_side x}"
proof -
  let ?side = "lo_side x" and ?old = "make_priority_key x" and ?new = "make_priority_key y" and ?idx = "priority_index (lo_side x) om"
  have old: "?old \<in> set ?idx" using om_wf_prio(2) [OF wf] x(1) by auto
  have fresh: "?new \<notin> set ?idx" unfolding y_def by (rule renewed_key_fresh [OF wf x])
  obtain a keys1 where ik: "set_insert (priority_compare ?side) ?new ?idx = (a, keys1)" by fastforce
  have keys1: "a" "sorted_wrt (priority_compare ?side) keys1" "set keys1 = insert ?new (set ?idx)"
    using prio.set_insert_fresh [OF om_wf_prio(1) [OF wf] fresh] ik by auto
  obtain b keys2 where ek: "set_erase (priority_compare ?side) ?old keys1 = (b, keys2)" by fastforce
  have keys2: "b = 1" "sorted_wrt (priority_compare ?side) keys2" "set keys2 = set keys1 - {?old}"
    using prio.set_erase_present [OF keys1(2), of ?old] old keys1(3) ek by auto
  have inj: "z = x" if "z \<in> set (om_orders om)" "make_priority_key z = ?old" for z
    using that om_wf_id_unique [OF wf, of z x] x(1) by (metis make_priority_key_simps(1))
  have "?new \<noteq> ?old" using fresh old by metis
  then have "set keys2 = insert ?new (set ?idx - {?old})" using keys1(3) keys2(3) by auto
  also have "set ?idx - {?old} = make_priority_key ` {z \<in> set (om_orders om) - {x}. lo_side z = ?side}"
    unfolding om_wf_prio(2) [OF wf] by (auto dest: inj)
  finally have "set keys2 = make_priority_key ` {z \<in> insert y (set (om_orders om) - {x}). lo_side z = ?side}"
    by (auto simp: y_def)
  with that ik ek keys1(1) keys2 show ?thesis by simp
qed

lemma om_update_sequence_ok:
  assumes wf: "om_wf om" and x: "om_find_order om k = Some x" and n: "n \<noteq> 0"
  obtains i om' where "om_update_sequence_number k n om = (Inr True, om')" "om_wf om'"
    "i < length (om_orders om)" "om_orders om ! i = x"
    "om_orders om' = (om_orders om)[i := x\<lparr>lo_sequence_number := n\<rparr>]" "om_max_size om' = om_max_size om"
proof -
  let ?y = "x\<lparr>lo_sequence_number := n\<rparr>"
  from x obtain i where i: "om_indices om k = Some i" "x = om_orders om ! i"
    by (auto simp: om_find_order_def split: option.splits)
  then have il: "i < length (om_orders om)" "lo_order_id x = k" using om_wf_index [OF wf] by auto
  then have mem: "x \<in> set (om_orders om)" using i(2) by simp
  show ?thesis
  proof (cases "lo_sequence_number x = n")
    case True
    then have "om_update_sequence_number k n om = (Inr True, om)"
      using x n by (simp add: om_update_sequence_number_def)
    moreover have "om_orders om = (om_orders om)[i := ?y]"
      using True i(2) by (metis list_update_id limit_order.surjective limit_order.update_convs(6))
    ultimately show ?thesis using that wf il i by metis
  next
    case False
    obtain keys1 keys2 where keys:
      "set_insert (priority_compare (lo_side x)) (make_priority_key ?y) (priority_index (lo_side x) om) = (True, keys1)"
      "set_erase (priority_compare (lo_side x)) (make_priority_key x) keys1 = (1, keys2)"
      "sorted_wrt (priority_compare (lo_side x)) keys2"
      "set keys2 = make_priority_key ` {z \<in> insert ?y (set (om_orders om) - {x}). lo_side z = lo_side x}"
      using renewed_key_sets [OF wf mem False] .
    let ?om' = "set_priority_index (lo_side x) keys2 om\<lparr>om_orders := (om_orders om)[i := ?y]\<rparr>"
    have new: "(make_priority_key x)\<lparr>pk_sequence_number := n\<rparr> = make_priority_key ?y" by (simp add: make_priority_key_def)
    have op: "om_update_sequence_number k n om = (Inr True, ?om')"
      using x n False keys(1,2) i(1) i(2) [symmetric] by (simp add: om_update_sequence_number_def Let_def new om_write_order_def)
    have "set ((om_orders om)[i := ?y]) = insert ?y {z \<in> set (om_orders om). lo_order_id z \<noteq> lo_order_id ?y}"
      by (rule set_update_distinct) (use om_wf_distinct [OF wf] il i in simp_all)
    then have set_y: "set ((om_orders om)[i := ?y]) = insert ?y (set (om_orders om) - {x})"
      using om_wf_id_unique [OF wf] mem by auto
    have "idx_wf ?om'" using om_wf_index [OF wf] i il by (auto simp: idx_wf_def nth_list_update)
    moreover have "prio_wf ?om'"
      by (rule prio_wfI [of "lo_side x"]) (use keys(3,4) om_wf_prio [OF wf] in \<open>auto simp: set_y\<close>)
    ultimately have "om_wf ?om'" using om_wf_max [OF wf] by (simp add: om_wf_parts)
    from that [OF op this il(1) i(2) [symmetric]] show ?thesis by simp
  qed
qed


subsection \<open>Properties\<close>

text \<open>C22 An order is added exactly when it is valid, its id is not in use and the vector has room; then it
  is the last of the vector and can be found, and the id index and the priority indexes describe the
  vector again. Otherwise \<open>add_order\<close> throws and nothing has changed.\<close>
theorem add_order_indexed:
  assumes "om_wf om" "om_add_order x om = (r, om')"
  shows "if order_valid x \<and> lo_order_id x \<notin> lo_order_id ` set (om_orders om) \<and> length (om_orders om) < om_max_size om
    then r = Inr () \<and> om_wf om' \<and> om_orders om' = om_orders om @ [x] \<and> om_find_order om' (lo_order_id x) = Some x
    else isl r \<and> om' = om"
proof (cases "order_valid x \<and> lo_order_id x \<notin> lo_order_id ` set (om_orders om) \<and> length (om_orders om) < om_max_size om")
  case True
  then obtain om1 where om1: "om_add_order x om = (Inr (), om1)" "om_wf om1" "om_orders om1 = om_orders om @ [x]"
    using om_add_order_ok [OF assms(1)] by metis
  then have "om_find_order om1 (lo_order_id x) = Some x" by (simp add: om_find_order_Some_iff [OF om1(2)])
  then show ?thesis using True om1 assms(2) by simp
next
  case False
  then have "throws (r, om')" using om_add_order_fails(2) [OF assms(1), of x] assms(2) by metis
  then show ?thesis
    using False om_add_order_fails(1) [OF assms(1)] assms(2) by (cases r) (auto simp: throws_def)
qed

definition sample_order :: limit_order where
  "sample_order = \<lparr>lo_order_id = 7, lo_side = Buy, lo_price_ticks = 100, lo_original_quantity = 4,
     lo_remaining_quantity = 4, lo_sequence_number = 1\<rparr>"

theorem add_order_indexed_witness:
  "om_find_order (snd (om_add_order sample_order (new_order_manager 1))) 7 = Some sample_order
   \<and> fst (om_add_order sample_order (new_order_manager 1)) = Inr ()"
proof -
  obtain r om' where r: "om_add_order sample_order (new_order_manager 1) = (r, om')" by fastforce
  have pre: "order_valid sample_order" "lo_order_id sample_order = 7"
    by (simp_all add: order_valid_def sample_order_def)
  have m: "om_orders (new_order_manager 1) = []" "om_max_size (new_order_manager 1) = 1"
    by (simp_all add: new_order_manager_def)
  from add_order_indexed [OF om_wf_new r] pre show ?thesis unfolding r m by simp
qed

text \<open>C21 An order that is taken out with a removal record is gone, the indexes describe the smaller
  vector, and restoring the record gives back the manager exactly as it was: positions, id index and
  both priority indexes.\<close>
theorem cancel_restore_round_trip:
  assumes "om_wf om" "om_find_order om k = Some x"
  shows "\<exists>om' record record'. om_cancel_order_removal k r om = (Inr True, om', record) \<and> om_wf om'
    \<and> om_find_order om' k = None \<and> mset (om_orders om) = add_mset x (mset (om_orders om'))
    \<and> om_restore_removal record om' = (Inr (), om, record')"
proof -
  obtain i om' where c: "om_cancel_order_removal k r om = (Inr True, om', removal_of om i r)" "om_wf om'"
    "i < length (om_orders om)" "om_orders om ! i = x"
    "om_orders om' = swap_remove i (om_orders om)" "om_max_size om' = om_max_size om"
    using om_cancel_order_removal_ok [OF assms] by metis
  have k: "lo_order_id x = k" using assms om_find_order_Some_iff by blast
  have "same_key (om_orders om ! i) x" using c(4) by (simp add: same_key_def)
  from om_restore_removal_ok [OF assms(1) c(3,2,5,6) this, of r] obtain r' where
    "om_restore_removal ((removal_of om i r)\<lparr>rm_removed_order := x\<rparr>) om' = (Inr (), om\<lparr>om_orders := (om_orders om)[i := x]\<rparr>, r')"
    by blast
  moreover have "(removal_of om i r)\<lparr>rm_removed_order := x\<rparr> = removal_of om i r"
    using c(4) by (simp add: removal_of_def Let_def)
  moreover have "om\<lparr>om_orders := (om_orders om)[i := x]\<rparr> = om" using c(4) by (metis list_update_id order_manager.surjective
      order_manager.update_convs(1))
  moreover have "om_find_order om' k = None"
    using om_find_order_None_iff [OF c(2)] set_swap_remove [OF c(3) om_wf_distinct [OF assms(1)]]
      om_wf_id_unique [OF assms(1)] k c(3,4,5) by auto
  moreover have "mset (om_orders om) = add_mset x (mset (om_orders om'))"
    using mset_swap_remove [OF c(3)] c(3,4,5) by simp
  ultimately show ?thesis using c(1,2) by auto
qed

definition sample_orders :: order_manager where
  "sample_orders = snd (om_add_order (sample_order\<lparr>lo_order_id := 8, lo_price_ticks := 101, lo_sequence_number := 2\<rparr>)
     (snd (om_add_order sample_order (new_order_manager 5))))"

lemma sample_orders_wf: "om_wf sample_orders"
proof -
  have step: "om_wf (snd (om_add_order x om))" if wf: "om_wf om" for x om
  proof (cases "fst (om_add_order x om)")
    case (Inl err)
    then have "snd (om_add_order x om) = om" using om_add_order_fails(1) [OF wf] by (metis prod.collapse)
    then show ?thesis using wf by simp
  next
    case (Inr u)
    then have "\<not> throws (om_add_order x om)" by (simp add: throws_def)
    then show ?thesis using om_add_order_fails(2) [OF wf] om_add_order_ok [OF wf] by (metis snd_conv)
  qed
  show ?thesis unfolding sample_orders_def by (intro step om_wf_new)
qed

theorem cancel_restore_round_trip_witness:
  "\<exists>om' record record'. om_cancel_order_removal 7 empty_removal sample_orders = (Inr True, om', record)
     \<and> om_find_order om' 7 = None \<and> om_restore_removal record om' = (Inr (), sample_orders, record')"
proof -
  have "om_find_order sample_orders 7 = Some sample_order" by code_simp
  from cancel_restore_round_trip [OF sample_orders_wf this] show ?thesis by blast
qed

text \<open>The best order of a side is one of the side's orders, and every other one has a worse price, or
  the same price and a later place (a larger sequence number, or the same one and a larger id).\<close>
lemma best_order_has_priority:
  assumes "om_wf om" "om_best_order side om = Some x" "y \<in> set (om_orders om)" "lo_side y = side" "y \<noteq> x"
  shows "x \<in> set (om_orders om) \<and> lo_side x = side
    \<and> (better_price side (lo_price_ticks x) (lo_price_ticks y)
       \<or> lo_price_ticks x = lo_price_ticks y \<and> (lo_sequence_number x < lo_sequence_number y
          \<or> lo_sequence_number x = lo_sequence_number y \<and> lo_order_id x < lo_order_id y))"
  using om_best_order_Some(1,2) [OF assms(1,2)] om_best_order_Some(4) [OF assms(1-4)] assms(5)
  by (auto simp: priority_compare_iff make_priority_key_def)

end
