(* ===== verification/Trade_Store.thy ===== *)
theory Trade_Store
  imports Order_Types
begin

text \<open>
  The trade history (\<open>include/trade_store.hpp\<close>): an append-only vector of trades with the next trade
  id and the next execution sequence, checkpoints and rollback. \<open>ts_max_size\<close> is the vector's
  \<open>max_size()\<close>: \<open>push_back\<close> throws \<open>std::length_error\<close> once the vector holds that many elements,
  which is the failure the \<open>catch\<close> block of \<open>record_trade\<close> is there for. It is a field of the
  state so that every theorem holds for every such limit.
\<close>

record trade_store =
  next_trade_id :: trade_id
  next_execution_sequence :: u64
  ts_trades :: "trade list"
  ts_max_size :: nat

record ts_checkpoint =
  cp_trade_count :: nat
  cp_next_trade_id :: trade_id
  cp_next_execution_sequence :: u64

definition new_trade_store :: "nat \<Rightarrow> trade_store" where
  "new_trade_store max_size =
     \<lparr>next_trade_id = 1, next_execution_sequence = 1, ts_trades = [], ts_max_size = max_size\<rparr>"

definition record_trade ::
  "order_side \<Rightarrow> int \<Rightarrow> int \<Rightarrow> order_id option \<Rightarrow> order_id option \<Rightarrow> trade_store
   \<Rightarrow> (trade, trade_store) outcome" where
  "record_trade aggressor_side price_ticks quantity buy_order_id sell_order_id ts =
     (case validate_trade price_ticks quantity of
        Inl e \<Rightarrow> (Inl e, ts)
      | Inr _ \<Rightarrow>
          (let t = \<lparr>tr_aggressor_side = aggressor_side, tr_price_ticks = price_ticks,
                    tr_quantity = quantity, tr_trade_id = next_trade_id ts,
                    tr_buy_order_id = buy_order_id, tr_sell_order_id = sell_order_id,
                    tr_execution_sequence = next_execution_sequence ts\<rparr>;
               ts1 = ts\<lparr>next_trade_id := next_trade_id ts + 1,
                        next_execution_sequence := next_execution_sequence ts + 1\<rparr>
           in if length (ts_trades ts1) \<ge> ts_max_size ts1
              then (Inl Length_error,
                    ts1\<lparr>next_trade_id := next_trade_id ts1 - 1,
                        next_execution_sequence := next_execution_sequence ts1 - 1\<rparr>)
              else (Inr t, ts1\<lparr>ts_trades := ts_trades ts1 @ [t]\<rparr>)))"

definition checkpoint :: "trade_store \<Rightarrow> ts_checkpoint" where
  "checkpoint ts = \<lparr>cp_trade_count = length (ts_trades ts), cp_next_trade_id = next_trade_id ts,
     cp_next_execution_sequence = next_execution_sequence ts\<rparr>"

definition rollback :: "ts_checkpoint \<Rightarrow> trade_store \<Rightarrow> (unit, trade_store) outcome" where
  "rollback cp ts =
     (if cp_trade_count cp > length (ts_trades ts)
      then (Inl (Invalid_argument ''TradeStore checkpoint is newer than the current trade state.''), ts)
      else (Inr (), ts\<lparr>ts_trades := take (cp_trade_count cp) (ts_trades ts),
                       next_trade_id := cp_next_trade_id cp,
                       next_execution_sequence := cp_next_execution_sequence cp\<rparr>))"

definition clear_trades :: "trade_store \<Rightarrow> trade_store" where
  "clear_trades ts = ts\<lparr>ts_trades := []\<rparr>"

subsection \<open>Laws\<close>

lemma record_trade_cases:
  "record_trade s p q b sl ts =
     (case validate_trade p q of
        Inl e \<Rightarrow> (Inl e, ts)
      | Inr _ \<Rightarrow>
          if length (ts_trades ts) \<ge> ts_max_size ts then (Inl Length_error, ts)
          else (let t = \<lparr>tr_aggressor_side = s, tr_price_ticks = p, tr_quantity = q,
                         tr_trade_id = next_trade_id ts, tr_buy_order_id = b, tr_sell_order_id = sl,
                         tr_execution_sequence = next_execution_sequence ts\<rparr>
                in (Inr t, ts\<lparr>next_trade_id := next_trade_id ts + 1,
                              next_execution_sequence := next_execution_sequence ts + 1,
                              ts_trades := ts_trades ts @ [t]\<rparr>)))"
  by (cases "validate_trade p q") (simp_all add: record_trade_def Let_def)

lemma record_trade_fails_unchanged: "record_trade s p q b sl ts = (Inl e, ts') \<Longrightarrow> ts' = ts"
  by (auto simp: record_trade_cases Let_def split: sum.splits if_splits)

lemma record_trade_ok:
  assumes "record_trade s p q b sl ts = (Inr t, ts')"
  shows "0 < p" "0 < q" "ts_trades ts' = ts_trades ts @ [t]" "ts_max_size ts' = ts_max_size ts"
    "tr_price_ticks t = p" "tr_quantity t = q" "tr_aggressor_side t = s"
    "tr_buy_order_id t = b" "tr_sell_order_id t = sl" "length (ts_trades ts) < ts_max_size ts"
    "tr_trade_id t = next_trade_id ts" "next_trade_id ts' = next_trade_id ts + 1"
  using assms by (auto simp: record_trade_cases Let_def validate_Inr_iff split: sum.splits if_splits)

text \<open>
  The store only grows between a checkpoint and a rollback to it; then the rollback gives back the
  store of the checkpoint exactly, counters included.
\<close>

definition ts_extends :: "trade_store \<Rightarrow> trade_store \<Rightarrow> bool" where
  "ts_extends ts ts' \<longleftrightarrow>
     (\<exists>new. ts_trades ts' = ts_trades ts @ new) \<and> ts_max_size ts' = ts_max_size ts"

lemma ts_extends_refl [simp]: "ts_extends ts ts"
  by (simp add: ts_extends_def)

lemma ts_extends_trans: "ts_extends a b \<Longrightarrow> ts_extends b c \<Longrightarrow> ts_extends a c"
  by (auto simp: ts_extends_def)

lemma ts_extends_record: "record_trade s p q b sl ts = (r, ts') \<Longrightarrow> ts_extends ts ts'"
  by (cases r) (auto dest: record_trade_fails_unchanged simp: ts_extends_def record_trade_ok)

lemma rollback_checkpoint: "ts_extends ts ts' \<Longrightarrow> rollback (checkpoint ts) ts' = (Inr (), ts)"
  by (auto simp: ts_extends_def rollback_def checkpoint_def)

text \<open>Trade ids run up by one from the first trade on, so they name the trades of a history.\<close>

definition ts_ok :: "trade_store \<Rightarrow> bool" where
  "ts_ok ts \<longleftrightarrow> length (ts_trades ts) \<le> ts_max_size ts
     \<and> (\<forall>i < length (ts_trades ts).
          tr_trade_id (ts_trades ts ! i) = next_trade_id ts - of_nat (length (ts_trades ts) - i)
          \<and> tr_execution_sequence (ts_trades ts ! i)
              = next_execution_sequence ts - of_nat (length (ts_trades ts) - i)
          \<and> 0 < tr_price_ticks (ts_trades ts ! i) \<and> 0 < tr_quantity (ts_trades ts ! i))"

lemma ts_ok_new [simp]: "ts_ok (new_trade_store n)"
  by (simp add: ts_ok_def new_trade_store_def)

lemma ts_ok_record: "ts_ok ts \<Longrightarrow> record_trade s p q b sl ts = (r, ts') \<Longrightarrow> ts_ok ts'"
  by (auto simp: ts_ok_def record_trade_cases Let_def validate_Inr_iff nth_append less_Suc_eq Suc_diff_le
      split: sum.splits if_splits)

lemma ts_ok_clear: "ts_ok ts \<Longrightarrow> ts_ok (clear_trades ts)"
  by (simp add: ts_ok_def clear_trades_def)


subsection \<open>Properties\<close>

text \<open>A sequence of \<open>record_trade\<close> calls, each with its arguments.\<close>

fun record_trades ::
  "(order_side \<times> int \<times> int \<times> order_id option \<times> order_id option) list \<Rightarrow> trade_store \<Rightarrow> trade_store" where
  "record_trades [] ts = ts"
| "record_trades ((s, p, q, b, sl) # rest) ts = record_trades rest (snd (record_trade s p q b sl ts))"

lemma ts_extends_records: "ts_extends ts (record_trades xs ts)"
  by (induction xs ts rule: record_trades.induct) (auto intro: ts_extends_trans ts_extends_record prod.collapse [symmetric])

lemma ts_ok_records: "ts_ok ts \<Longrightarrow> ts_ok (record_trades xs ts)"
  by (induction xs ts rule: record_trades.induct) (auto intro: ts_ok_record prod.collapse [symmetric])

text \<open>Recording any number of trades and rolling back to a checkpoint taken before gives back the
  store as it was, trades and counters; a recorded trade carries the next trade id, and a trade that
  is refused leaves the store as it was.\<close>
lemma trade_rollback_round_trip:
  "rollback (checkpoint ts) (record_trades xs ts) = (Inr (), ts)"
  by (rule rollback_checkpoint [OF ts_extends_records])

text \<open>In a store that has only been appended to and cleared the trade ids and the execution sequences
  of the kept trades run up one by one to the store's counters, and prices and quantities are positive.\<close>
lemma trade_ids_consecutive:
  assumes "i < length (ts_trades (record_trades ys (clear_trades (record_trades xs (new_trade_store n)))))"
    and "ts = record_trades ys (clear_trades (record_trades xs (new_trade_store n)))"
  shows "tr_trade_id (ts_trades ts ! i) = next_trade_id ts - of_nat (length (ts_trades ts) - i)
    \<and> tr_execution_sequence (ts_trades ts ! i) = next_execution_sequence ts - of_nat (length (ts_trades ts) - i)
    \<and> 0 < tr_price_ticks (ts_trades ts ! i) \<and> 0 < tr_quantity (ts_trades ts ! i)"
  using assms ts_ok_records [OF ts_ok_clear [OF ts_ok_records [OF ts_ok_new]]] unfolding assms(2) by (simp add: ts_ok_def)

end
