(* ===== verification/Matching_Engine.thy ===== *)
theory Matching_Engine
  imports Order_Book Order_Manager Trade_Store Floating
begin

text \<open>
  The matching engine (\<open>include/matching_engine.hpp\<close>, \<open>src/matching_engine.cpp\<close>): the state and every
  public operation, with the \<open>try\<close>/\<open>catch\<close> blocks written out. An operation maps the engine to an
  outcome and the engine it leaves behind, so a rollback is an ordinary function from the state at
  the \<open>throw\<close> to the state after the \<open>catch\<close> block. Local variables that a \<open>catch\<close> block reads (the
  incoming order, the journal of mutations, the flags) are part of the loop states. The order book
  is a reference in the code and a field here.
\<close>

subsection \<open>State\<close>

record matching_engine =
  me_book :: order_book
  me_ids :: order_id_generator
  me_next_sequence :: sequence_number
  me_orders :: order_manager
  me_trades :: trade_store

definition new_engine :: "nat \<Rightarrow> nat \<Rightarrow> order_book \<Rightarrow> matching_engine" where
  "new_engine max_orders max_trades book =
     \<lparr>me_book = book, me_ids = \<lparr>next_order_id = 1\<rparr>, me_next_sequence = 1,
      me_orders = new_order_manager max_orders, me_trades = new_trade_store max_trades\<rparr>"

text \<open>
  The journal entry that the three journaling operations keep. The local struct of
  \<open>place_limit_order\<close> has no side, price and executed quantity, and its rollback does not read them.
\<close>

record order_mutation =
  mu_order_id :: order_id
  mu_side :: order_side
  mu_price_ticks :: int
  mu_executed_quantity :: int
  mu_original_remaining_quantity :: int
  mu_removed :: bool
  mu_removal :: removal

definition opposite :: "order_side \<Rightarrow> order_side" where
  "opposite side = (case side of Buy \<Rightarrow> Sell | Sell \<Rightarrow> Buy)"

subsection \<open>Book access\<close>

definition adjust_order_book ::
  "order_side \<Rightarrow> int \<Rightarrow> int \<Rightarrow> matching_engine \<Rightarrow> (unit, matching_engine) outcome" where
  "adjust_order_book side price_ticks quantity_delta e =
     (case (if side = Buy then adjust_bid price_ticks quantity_delta (me_book e)
            else adjust_ask price_ticks quantity_delta (me_book e)) of
        (r, book) \<Rightarrow> (r, e\<lparr>me_book := book\<rparr>))"

definition crosses_order_book :: "order_side \<Rightarrow> int \<Rightarrow> matching_engine \<Rightarrow> bool" where
  "crosses_order_book side price_ticks e =
     (if side = Buy
      then (case best_ask (me_book e) of None \<Rightarrow> False | Some l \<Rightarrow> pl_price_ticks l \<le> price_ticks)
      else (case best_bid (me_book e) of None \<Rightarrow> False | Some l \<Rightarrow> pl_price_ticks l \<ge> price_ticks))"

subsection \<open>Matching a limit order\<close>

definition find_best_match :: "limit_order \<Rightarrow> matching_engine \<Rightarrow> order_id option" where
  "find_best_match incoming_order e =
     (case (if lo_side incoming_order = Buy then best_sell_order (me_orders e)
            else best_buy_order (me_orders e)) of
        None \<Rightarrow> None
      | Some best_match \<Rightarrow>
          (let prices_cross =
                 (if lo_side incoming_order = Buy
                  then lo_price_ticks best_match \<le> lo_price_ticks incoming_order
                  else lo_price_ticks best_match \<ge> lo_price_ticks incoming_order)
           in if \<not> prices_cross then None else Some (lo_order_id best_match)))"

text \<open>
  \<open>resting_order\<close> is a reference into the order vector: \<open>handle\<close> is the id it was found under, and the
  second argument the order it refers to.
\<close>

definition execute_limit_trade ::
  "limit_order \<Rightarrow> order_id \<Rightarrow> limit_order \<Rightarrow> matching_engine
   \<Rightarrow> (unit, limit_order \<times> matching_engine) outcome" where
  "execute_limit_trade incoming_order handle resting_order e =
     (let executed_quantity = min (lo_remaining_quantity incoming_order) (lo_remaining_quantity resting_order);
          buy_order_id = (if lo_side incoming_order = Buy then lo_order_id incoming_order
                          else lo_order_id resting_order);
          sell_order_id = (if lo_side incoming_order = Sell then lo_order_id incoming_order
                           else lo_order_id resting_order)
      in case record_trade (lo_side incoming_order) (lo_price_ticks resting_order) executed_quantity
                (Some buy_order_id) (Some sell_order_id) (me_trades e) of
           (Inl err, ts) \<Rightarrow> (Inl err, incoming_order, e\<lparr>me_trades := ts\<rparr>)
         | (Inr _, ts) \<Rightarrow>
             (case adjust_order_book (lo_side resting_order) (lo_price_ticks resting_order)
                     (- executed_quantity) (e\<lparr>me_trades := ts\<rparr>) of
                (Inl err, e1) \<Rightarrow> (Inl err, incoming_order, e1)
              | (Inr _, e1) \<Rightarrow>
                  (Inr (), incoming_order\<lparr>lo_remaining_quantity :=
                               lo_remaining_quantity incoming_order - executed_quantity\<rparr>,
                   e1\<lparr>me_orders := om_write_order handle
                        (\<lambda>o1. o1\<lparr>lo_remaining_quantity := lo_remaining_quantity o1 - executed_quantity\<rparr>)
                        (me_orders e1)\<rparr>)))"

definition new_mutation :: "int \<Rightarrow> limit_order \<Rightarrow> order_mutation" where
  "new_mutation executed_quantity resting_order =
     \<lparr>mu_order_id = lo_order_id resting_order, mu_side = lo_side resting_order,
      mu_price_ticks = lo_price_ticks resting_order, mu_executed_quantity = executed_quantity,
      mu_original_remaining_quantity = lo_remaining_quantity resting_order,
      mu_removed = False, mu_removal = empty_removal\<rparr>"

text \<open>
  The end of a loop body: a filled resting order is taken out of the manager with its removal kept
  in the journal entry.
\<close>

definition remove_if_filled ::
  "order_id \<Rightarrow> order_id \<Rightarrow> order_mutation \<Rightarrow> matching_engine
   \<Rightarrow> (unit, order_mutation \<times> matching_engine) outcome" where
  "remove_if_filled handle resting_order_id mutation e =
     (if is_filled (the (om_find_order (me_orders e) handle))
      then (case om_cancel_order_removal resting_order_id (mu_removal mutation) (me_orders e) of
              (Inl err, om, rm) \<Rightarrow> (Inl err, mutation\<lparr>mu_removal := rm\<rparr>, e\<lparr>me_orders := om\<rparr>)
            | (Inr removed, om, rm) \<Rightarrow>
                if \<not> removed
                then (Inl (Logic_error ''Filled resting order could not be removed.''),
                      mutation\<lparr>mu_removal := rm\<rparr>, e\<lparr>me_orders := om\<rparr>)
                else (Inr (), mutation\<lparr>mu_removal := rm, mu_removed := True\<rparr>, e\<lparr>me_orders := om\<rparr>))
      else (Inr (), mutation, e))"

text \<open>One round of the matching loop: \<open>False\<close> is the \<open>break\<close>.\<close>

definition match_step ::
  "limit_order \<Rightarrow> order_mutation list \<Rightarrow> matching_engine
   \<Rightarrow> (bool, limit_order \<times> order_mutation list \<times> matching_engine) outcome" where
  "match_step incoming_order mutations e =
     (case find_best_match incoming_order e of
        None \<Rightarrow> (Inr False, incoming_order, mutations, e)
      | Some best_match_id \<Rightarrow>
          (case om_find_order (me_orders e) best_match_id of
             None \<Rightarrow> (Inl (Logic_error ''Selected resting order disappeared.''), incoming_order, mutations, e)
           | Some resting_order \<Rightarrow>
               (let mutation = new_mutation (min (lo_remaining_quantity incoming_order)
                                               (lo_remaining_quantity resting_order)) resting_order
                in case execute_limit_trade incoming_order best_match_id resting_order e of
                     (Inl err, incoming1, e1) \<Rightarrow> (Inl err, incoming1, mutations @ [mutation], e1)
                   | (Inr _, incoming1, e1) \<Rightarrow>
                       (case remove_if_filled best_match_id (lo_order_id resting_order) mutation e1 of
                          (Inl err, mutation1, e2) \<Rightarrow> (Inl err, incoming1, mutations @ [mutation1], e2)
                        | (Inr _, mutation1, e2) \<Rightarrow> (Inr True, incoming1, mutations @ [mutation1], e2)))))"

lemma match_step_decreases:
  assumes "match_step incoming mutations e = (Inr True, incoming', mutations', e')"
  shows "lo_remaining_quantity incoming' < lo_remaining_quantity incoming"
  using assms
  by (auto simp: match_step_def execute_limit_trade_def record_trade_cases Let_def validate_Inr_iff
      split: option.splits sum.splits prod.splits if_splits)

function match_loop ::
  "limit_order \<Rightarrow> order_mutation list \<Rightarrow> matching_engine
   \<Rightarrow> (unit, limit_order \<times> order_mutation list \<times> matching_engine) outcome" where
  "match_loop incoming_order mutations e =
     (if lo_remaining_quantity incoming_order > 0
      then (case match_step incoming_order mutations e of
              (Inl err, s) \<Rightarrow> (Inl err, s)
            | (Inr continue, incoming1, mutations1, e1) \<Rightarrow>
                if continue then match_loop incoming1 mutations1 e1
                else (Inr (), incoming1, mutations1, e1))
      else (Inr (), incoming_order, mutations, e))"
  by pat_completeness auto
termination
proof (relation "measure (\<lambda>(incoming, mutations, e). nat (lo_remaining_quantity incoming))", goal_cases)
  case 1
  then show ?case by simp
next
  case (2 incoming mutations e r cont s incoming' t mutations' e')
  then have "match_step incoming mutations e = (Inr True, incoming', mutations', e')" by simp
  then show ?case using 2(1) match_step_decreases by fastforce
qed

declare match_loop.simps [simp del]


subsection \<open>Rolling back a journal\<close>

definition on_orders ::
  "(order_manager \<Rightarrow> ('a, order_manager) outcome) \<Rightarrow> matching_engine \<Rightarrow> ('a, matching_engine) outcome" where
  "on_orders f e = (case f (me_orders e) of (r, om) \<Rightarrow> (r, e\<lparr>me_orders := om\<rparr>))"

definition on_trades ::
  "(trade_store \<Rightarrow> ('a, trade_store) outcome) \<Rightarrow> matching_engine \<Rightarrow> ('a, matching_engine) outcome" where
  "on_trades f e = (case f (me_trades e) of (r, ts) \<Rightarrow> (r, e\<lparr>me_trades := ts\<rparr>))"

definition undo_order :: "order_mutation \<Rightarrow> order_manager \<Rightarrow> (unit, order_manager) outcome" where
  "undo_order mutation om =
     (if mu_removed mutation
      then (let removal1 = (mu_removal mutation)\<lparr>rm_removed_order :=
                  (rm_removed_order (mu_removal mutation))
                    \<lparr>lo_remaining_quantity := mu_original_remaining_quantity mutation\<rparr>\<rparr>
            in case om_restore_removal removal1 om of (r, om1, _) \<Rightarrow> (r, om1))
      else case om_find_order om (mu_order_id mutation) of
             None \<Rightarrow> (Inl (Logic_error ''Partially filled order disappeared during rollback.''), om)
           | Some _ \<Rightarrow>
               (Inr (), om_write_order (mu_order_id mutation)
                  (\<lambda>o1. o1\<lparr>lo_remaining_quantity := mu_original_remaining_quantity mutation\<rparr>) om))"

text \<open>The loop over \<open>rbegin()\<close> to \<open>rend()\<close>; the list is the journal reversed.\<close>

fun undo_orders :: "order_mutation list \<Rightarrow> matching_engine \<Rightarrow> (unit, matching_engine) outcome" where
  "undo_orders [] e = (Inr (), e)"
| "undo_orders (mutation # mutations) e =
     seq (on_orders (undo_order mutation) e) (\<lambda>_ e1. undo_orders mutations e1)"

text \<open>The same loop where the executed quantity also goes back to the book.\<close>

fun undo_executions :: "order_mutation list \<Rightarrow> matching_engine \<Rightarrow> (unit, matching_engine) outcome" where
  "undo_executions [] e = (Inr (), e)"
| "undo_executions (mutation # mutations) e =
     seq (on_orders (undo_order mutation) e) (\<lambda>_ e1.
       seq (adjust_order_book (mu_side mutation) (mu_price_ticks mutation)
              (mu_executed_quantity mutation) e1)
         (\<lambda>_ e2. undo_executions mutations e2))"

subsection \<open>Placing a limit order\<close>

text \<open>The inner \<open>catch\<close> block; \<open>err\<close> is the exception it rethrows.\<close>

definition place_rollback ::
  "cpp_error \<Rightarrow> ts_checkpoint \<Rightarrow> bool \<Rightarrow> order_id \<Rightarrow> order_mutation list \<Rightarrow> matching_engine
   \<Rightarrow> (order_id, matching_engine) outcome" where
  "place_rollback err trade_store_checkpoint incoming_order_added incoming_id mutations e =
     seq (if incoming_order_added
          then seq (on_orders (om_cancel_order incoming_id) e) (\<lambda>removed e1.
                 if \<not> removed
                 then (Inl (Logic_error ''Incoming order disappeared during rollback.''), e1)
                 else (Inr (), e1))
          else (Inr (), e)) (\<lambda>_ e1.
     seq (undo_orders (rev mutations) e1) (\<lambda>_ e2.
     seq (on_trades (rollback trade_store_checkpoint) e2) (\<lambda>_ e3. (Inl err, e3))))"

definition place_match ::
  "limit_order \<Rightarrow> ts_checkpoint \<Rightarrow> matching_engine \<Rightarrow> (order_id, matching_engine) outcome" where
  "place_match incoming_order trade_store_checkpoint e =
     (let order_id = lo_order_id incoming_order
      in case match_loop incoming_order [] e of
           (Inl err, _, mutations, e1) \<Rightarrow>
             place_rollback err trade_store_checkpoint False order_id mutations e1
         | (Inr _, incoming1, mutations, e1) \<Rightarrow>
             if is_filled incoming1 then (Inr order_id, e1)
             else case on_orders (om_add_order incoming1) e1 of
                    (Inl err, e2) \<Rightarrow>
                      place_rollback err trade_store_checkpoint False order_id mutations e2
                  | (Inr _, e2) \<Rightarrow>
                      (case adjust_order_book (lo_side incoming1) (lo_price_ticks incoming1)
                              (lo_remaining_quantity incoming1) e2 of
                         (Inl err, e3) \<Rightarrow>
                           place_rollback err trade_store_checkpoint True order_id mutations e3
                       | (Inr _, e3) \<Rightarrow> (Inr order_id, e3)))"

text \<open>The outer \<open>catch\<close> block.\<close>

definition place_catch ::
  "order_side \<Rightarrow> int \<Rightarrow> int \<Rightarrow> order_id_generator \<Rightarrow> sequence_number \<Rightarrow> order_book option \<Rightarrow> bool
   \<Rightarrow> cpp_error \<Rightarrow> matching_engine \<Rightarrow> (order_id, matching_engine) outcome" where
  "place_catch side price_ticks quantity order_id_generator_backup sequence_number_backup
       order_book_backup non_crossing_book_adjusted err e =
     (let e1 = e\<lparr>me_ids := order_id_generator_backup, me_next_sequence := sequence_number_backup\<rparr>
      in case order_book_backup of
           Some book \<Rightarrow> (Inl err, e1\<lparr>me_book := book\<rparr>)
         | None \<Rightarrow>
             if non_crossing_book_adjusted
             then seq (adjust_order_book side price_ticks (- quantity) e1) (\<lambda>_ e2. (Inl err, e2))
             else (Inl err, e1))"

text \<open>The \<open>try\<close> block from the generated id on.\<close>

definition place_with_id ::
  "order_side \<Rightarrow> int \<Rightarrow> int \<Rightarrow> order_id_generator \<Rightarrow> sequence_number \<Rightarrow> order_book option \<Rightarrow> order_id
   \<Rightarrow> matching_engine \<Rightarrow> (order_id, matching_engine) outcome" where
  "place_with_id side price_ticks quantity ids_backup seq_backup book_backup order_id e =
     (let incoming_order = \<lparr>lo_order_id = order_id, lo_side = side, lo_price_ticks = price_ticks,
            lo_original_quantity = quantity, lo_remaining_quantity = quantity,
            lo_sequence_number = me_next_sequence e\<rparr>;
          e1 = e\<lparr>me_next_sequence := me_next_sequence e + 1\<rparr>
      in if \<not> crosses_order_book side price_ticks e1
         then (case adjust_order_book side price_ticks quantity e1 of
                 (Inl err, e2) \<Rightarrow>
                   place_catch side price_ticks quantity ids_backup seq_backup book_backup False err e2
               | (Inr _, e2) \<Rightarrow>
                   (case on_orders (om_add_order incoming_order) e2 of
                      (Inl err, e3) \<Rightarrow>
                        place_catch side price_ticks quantity ids_backup seq_backup book_backup True err e3
                    | (Inr _, e3) \<Rightarrow> (Inr order_id, e3)))
         else (let book_backup1 = (case book_backup of None \<Rightarrow> Some (me_book e1) | Some b \<Rightarrow> Some b)
               in case place_match incoming_order (checkpoint (me_trades e1)) e1 of
                    (Inl err, e2) \<Rightarrow>
                      place_catch side price_ticks quantity ids_backup seq_backup book_backup1 False err e2
                  | (Inr i, e2) \<Rightarrow> (Inr i, e2)))"

definition place_limit_order ::
  "order_side \<Rightarrow> int \<Rightarrow> int \<Rightarrow> matching_engine \<Rightarrow> (order_id, matching_engine) outcome" where
  "place_limit_order side price_ticks quantity e =
     (case validate_limit_order price_ticks quantity of
        Inl err \<Rightarrow> (Inl err, e)
      | Inr _ \<Rightarrow>
          (let first_local_order = (om_orders (me_orders e) = []);
               book_backup = (if first_local_order then Some (me_book e) else None);
               e1 = (if first_local_order
                     then e\<lparr>me_book := replace_normalized_snapshot [] [] (me_book e)\<rparr> else e)
           in case generator_next (me_ids e1) of
                (Inl err, ids) \<Rightarrow>
                  place_catch side price_ticks quantity (me_ids e) (me_next_sequence e) book_backup False
                    err (e1\<lparr>me_ids := ids\<rparr>)
              | (Inr order_id, ids) \<Rightarrow>
                  place_with_id side price_ticks quantity (me_ids e) (me_next_sequence e) book_backup
                    order_id (e1\<lparr>me_ids := ids\<rparr>)))"

definition place_limit_buy :: "int \<Rightarrow> int \<Rightarrow> matching_engine \<Rightarrow> (order_id, matching_engine) outcome" where
  "place_limit_buy price_ticks quantity = place_limit_order Buy price_ticks quantity"

definition place_limit_sell :: "int \<Rightarrow> int \<Rightarrow> matching_engine \<Rightarrow> (order_id, matching_engine) outcome" where
  "place_limit_sell price_ticks quantity = place_limit_order Sell price_ticks quantity"

subsection \<open>Market orders\<close>

text \<open>
  The locals of \<open>execute_market_order\<close> are the result under construction and the price total in
  \<open>long double\<close> (argument \<open>ld\<close>, its rounding). \<open>False\<close> is the \<open>break\<close> of either loop.
\<close>

definition fill_result :: "trade \<Rightarrow> int \<Rightarrow> execution_result \<Rightarrow> execution_result" where
  "fill_result t quantity res = res\<lparr>er_trades := er_trades res @ [t],
     er_executed_quantity := er_executed_quantity res + quantity,
     er_remaining_quantity := er_remaining_quantity res - quantity\<rparr>"

definition add_notional :: "rounding_mode \<Rightarrow> int \<Rightarrow> int \<Rightarrow> rat \<Rightarrow> rat" where
  "add_notional ld price_ticks quantity weighted_price_total =
     ld (weighted_price_total + ld (ld (of_int price_ticks) * ld (of_int quantity)))"

definition update_side :: "order_side \<Rightarrow> int \<Rightarrow> int \<Rightarrow> matching_engine \<Rightarrow> (unit, matching_engine) outcome" where
  "update_side side price_ticks quantity e =
     (case (if side = Buy then update_ask price_ticks quantity (me_book e)
            else update_bid price_ticks quantity (me_book e)) of
        (r, book) \<Rightarrow> (r, e\<lparr>me_book := book\<rparr>))"

definition market_level_step ::
  "rounding_mode \<Rightarrow> order_side \<Rightarrow> execution_result \<Rightarrow> rat \<Rightarrow> matching_engine
   \<Rightarrow> (bool, execution_result \<times> rat \<times> matching_engine) outcome" where
  "market_level_step ld side res weighted e =
     (case (if side = Buy then ob_asks (me_book e) else ob_bids (me_book e)) of
        [] \<Rightarrow> (Inr False, res, weighted, e)
      | best_level # _ \<Rightarrow>
          (let executed_at_level = min (er_remaining_quantity res) (pl_quantity best_level)
           in case on_trades (record_trade side (pl_price_ticks best_level) executed_at_level None None) e of
                (Inl err, e1) \<Rightarrow> (Inl err, res, weighted, e1)
              | (Inr t, e1) \<Rightarrow>
                  (let res1 = fill_result t executed_at_level res;
                       weighted1 = add_notional ld (pl_price_ticks best_level) executed_at_level weighted
                   in case update_side side (pl_price_ticks best_level)
                             (pl_quantity best_level - executed_at_level) e1 of
                        (Inl err, e2) \<Rightarrow> (Inl err, res1, weighted1, e2)
                      | (Inr _, e2) \<Rightarrow> (Inr True, res1, weighted1, e2))))"

lemma market_level_step_decreases:
  assumes "market_level_step ld side res w e = (Inr True, res', w', e')"
  shows "er_remaining_quantity res' < er_remaining_quantity res"
  using assms
  by (auto simp: market_level_step_def on_trades_def record_trade_cases Let_def validate_Inr_iff fill_result_def
      split: list.splits sum.splits prod.splits if_splits)

function market_level_loop ::
  "rounding_mode \<Rightarrow> order_side \<Rightarrow> execution_result \<Rightarrow> rat \<Rightarrow> matching_engine
   \<Rightarrow> (unit, execution_result \<times> rat \<times> matching_engine) outcome" where
  "market_level_loop ld side res weighted e =
     (if er_remaining_quantity res > 0
      then (case market_level_step ld side res weighted e of
              (Inl err, s) \<Rightarrow> (Inl err, s)
            | (Inr continue, res1, weighted1, e1) \<Rightarrow>
                if continue then market_level_loop ld side res1 weighted1 e1
                else (Inr (), res1, weighted1, e1))
      else (Inr (), res, weighted, e))"
  by pat_completeness auto
termination
proof (relation "measure (\<lambda>(ld, side, res, w, e). nat (er_remaining_quantity res))", goal_cases)
  case 1
  then show ?case by simp
next
  case (2 ld side res w e r cont s res' t w' e')
  then have "market_level_step ld side res w e = (Inr True, res', w', e')" by simp
  then show ?case using 2(1) market_level_step_decreases by fastforce
qed

declare market_level_loop.simps [simp del]

definition market_order_step ::
  "rounding_mode \<Rightarrow> order_side \<Rightarrow> execution_result \<Rightarrow> rat \<Rightarrow> order_mutation list \<Rightarrow> matching_engine
   \<Rightarrow> (bool, execution_result \<times> rat \<times> order_mutation list \<times> matching_engine) outcome" where
  "market_order_step ld side res weighted mutations e =
     (case (if side = Buy then best_sell_order (me_orders e) else best_buy_order (me_orders e)) of
        None \<Rightarrow> (Inr False, res, weighted, mutations, e)
      | Some best_match \<Rightarrow>
          (let resting_order_id = lo_order_id best_match
           in case om_find_order (me_orders e) resting_order_id of
                None \<Rightarrow> (Inl (Logic_error ''Selected resting order disappeared.''), res, weighted, mutations, e)
              | Some resting_order \<Rightarrow>
                  (let executed_quantity = min (er_remaining_quantity res) (lo_remaining_quantity resting_order);
                       buy_order_id = (if side = Buy then None else Some (lo_order_id resting_order));
                       sell_order_id = (if side = Sell then None else Some (lo_order_id resting_order));
                       mutation = new_mutation executed_quantity resting_order
                   in case on_trades (record_trade side (lo_price_ticks resting_order) executed_quantity
                                        buy_order_id sell_order_id) e of
                        (Inl err, e1) \<Rightarrow> (Inl err, res, weighted, mutations @ [mutation], e1)
                      | (Inr t, e1) \<Rightarrow>
                          (let res1 = fill_result t executed_quantity res;
                               weighted1 = add_notional ld (lo_price_ticks resting_order) executed_quantity weighted
                           in case adjust_order_book (lo_side resting_order) (lo_price_ticks resting_order)
                                     (- executed_quantity) e1 of
                                (Inl err, e2) \<Rightarrow> (Inl err, res1, weighted1, mutations @ [mutation], e2)
                              | (Inr _, e2) \<Rightarrow>
                                  (case remove_if_filled resting_order_id resting_order_id mutation
                                          (e2\<lparr>me_orders := om_write_order resting_order_id
                                             (\<lambda>o1. o1\<lparr>lo_remaining_quantity :=
                                                lo_remaining_quantity o1 - executed_quantity\<rparr>)
                                             (me_orders e2)\<rparr>) of
                                     (Inl err, mutation1, e3) \<Rightarrow>
                                       (Inl err, res1, weighted1, mutations @ [mutation1], e3)
                                   | (Inr _, mutation1, e3) \<Rightarrow>
                                       (Inr True, res1, weighted1, mutations @ [mutation1], e3))))))"

lemma market_order_step_decreases:
  assumes "market_order_step ld side res w ms e = (Inr True, res', w', ms', e')"
  shows "er_remaining_quantity res' < er_remaining_quantity res"
  using assms
  by (auto simp: market_order_step_def on_trades_def record_trade_cases Let_def validate_Inr_iff fill_result_def
      split: option.splits sum.splits prod.splits if_splits)

function market_order_loop ::
  "rounding_mode \<Rightarrow> order_side \<Rightarrow> execution_result \<Rightarrow> rat \<Rightarrow> order_mutation list \<Rightarrow> matching_engine
   \<Rightarrow> (unit, execution_result \<times> rat \<times> order_mutation list \<times> matching_engine) outcome" where
  "market_order_loop ld side res weighted mutations e =
     (if er_remaining_quantity res > 0
      then (case market_order_step ld side res weighted mutations e of
              (Inl err, s) \<Rightarrow> (Inl err, s)
            | (Inr continue, res1, weighted1, mutations1, e1) \<Rightarrow>
                if continue then market_order_loop ld side res1 weighted1 mutations1 e1
                else (Inr (), res1, weighted1, mutations1, e1))
      else (Inr (), res, weighted, mutations, e))"
  by pat_completeness auto
termination
proof (relation "measure (\<lambda>(ld, side, res, w, ms, e). nat (er_remaining_quantity res))", goal_cases)
  case 1
  then show ?case by simp
next
  case (2 ld side res w ms e r cont s res' t w' u ms' e')
  then have "market_order_step ld side res w ms e = (Inr True, res', w', ms', e')" by simp
  then show ?case using 2(1) market_order_step_decreases by fastforce
qed

declare market_order_loop.simps [simp del]

text \<open>The \<open>catch\<close> block of the branch with active orders.\<close>

definition market_rollback ::
  "cpp_error \<Rightarrow> ts_checkpoint \<Rightarrow> order_mutation list \<Rightarrow> matching_engine
   \<Rightarrow> (execution_result, matching_engine) outcome" where
  "market_rollback err trade_store_checkpoint mutations e =
     seq (undo_executions (rev mutations) e) (\<lambda>_ e1.
     seq (on_trades (rollback trade_store_checkpoint) e1) (\<lambda>_ e2. (Inl err, e2)))"

definition average_result :: "rounding_mode \<Rightarrow> execution_result \<Rightarrow> rat \<Rightarrow> execution_result" where
  "average_result ld res weighted =
     (if er_executed_quantity res > 0
      then res\<lparr>er_average_price_ticks := Some (trunc (ld (weighted / ld (of_int (er_executed_quantity res)))))\<rparr>
      else res)"

definition new_result :: "order_side \<Rightarrow> int \<Rightarrow> execution_result" where
  "new_result side quantity = \<lparr>er_side = side, er_requested_quantity = quantity, er_executed_quantity = 0,
     er_remaining_quantity = quantity, er_average_price_ticks = None, er_trades = []\<rparr>"

definition execute_market_order ::
  "rounding_mode \<Rightarrow> order_side \<Rightarrow> int \<Rightarrow> matching_engine \<Rightarrow> (execution_result, matching_engine) outcome" where
  "execute_market_order ld side quantity e =
     (case validate_market_order quantity of
        Inl err \<Rightarrow> (Inl err, e)
      | Inr _ \<Rightarrow>
          (let trade_store_checkpoint = checkpoint (me_trades e);
               result = new_result side quantity
           in if om_orders (me_orders e) = []
              then (let order_book_backup = me_book e
                    in case market_level_loop ld side result 0 e of
                         (Inl err, _, _, e1) \<Rightarrow>
                           seq (on_trades (rollback trade_store_checkpoint) (e1\<lparr>me_book := order_book_backup\<rparr>))
                             (\<lambda>_ e2. (Inl err, e2))
                       | (Inr _, res, weighted, e1) \<Rightarrow> (Inr (average_result ld res weighted), e1))
              else (case market_order_loop ld side result 0 [] e of
                      (Inl err, _, _, mutations, e1) \<Rightarrow>
                        market_rollback err trade_store_checkpoint mutations e1
                    | (Inr _, res, weighted, _, e1) \<Rightarrow> (Inr (average_result ld res weighted), e1))))"

definition execute_market_buy ::
  "rounding_mode \<Rightarrow> int \<Rightarrow> matching_engine \<Rightarrow> (execution_result, matching_engine) outcome" where
  "execute_market_buy ld quantity = execute_market_order ld Buy quantity"

definition execute_market_sell ::
  "rounding_mode \<Rightarrow> int \<Rightarrow> matching_engine \<Rightarrow> (execution_result, matching_engine) outcome" where
  "execute_market_sell ld quantity = execute_market_order ld Sell quantity"

subsection \<open>Cancelling\<close>

definition cancel_order :: "order_id \<Rightarrow> matching_engine \<Rightarrow> (bool, matching_engine) outcome" where
  "cancel_order order_id e =
     (case om_find_order (me_orders e) order_id of
        None \<Rightarrow> (Inr False, e)
      | Some order_to_cancel \<Rightarrow>
          seq (on_orders (om_cancel_order order_id) e) (\<lambda>cancelled e1.
            if \<not> cancelled then (Inr False, e1)
            else case adjust_order_book (lo_side order_to_cancel) (lo_price_ticks order_to_cancel)
                        (- lo_remaining_quantity order_to_cancel) e1 of
                   (Inl err, e2) \<Rightarrow> seq (on_orders (om_add_order order_to_cancel) e2) (\<lambda>_ e3. (Inl err, e3))
                 | (Inr _, e2) \<Rightarrow> (Inr True, e2)))"

subsection \<open>Modifying\<close>

definition adjust_if_nonzero ::
  "order_side \<Rightarrow> int \<Rightarrow> int \<Rightarrow> matching_engine \<Rightarrow> (unit, matching_engine) outcome" where
  "adjust_if_nonzero side price_ticks quantity_delta e =
     (if quantity_delta \<noteq> 0 then adjust_order_book side price_ticks quantity_delta e else (Inr (), e))"

definition modify_renew_priority ::
  "order_id \<Rightarrow> limit_order \<Rightarrow> int \<Rightarrow> matching_engine \<Rightarrow> (unit, matching_engine) outcome" where
  "modify_renew_priority order_id original_order quantity_delta e =
     (case seq (on_orders (om_update_sequence_number order_id (me_next_sequence e)) e) (\<lambda>updated e1.
             if \<not> updated then (Inl (Logic_error ''Modified order disappeared.''), e1) else (Inr (), e1)) of
        (Inl err, e1) \<Rightarrow>
          seq (adjust_if_nonzero (lo_side original_order) (lo_price_ticks original_order)
                 (- quantity_delta) e1) (\<lambda>_ e2. (Inl err, e2))
      | (Inr _, e1) \<Rightarrow> (Inr (), e1\<lparr>me_next_sequence := me_next_sequence e1 + 1\<rparr>))"

definition modify_same_price ::
  "order_id \<Rightarrow> limit_order \<Rightarrow> int \<Rightarrow> matching_engine \<Rightarrow> (bool, matching_engine) outcome" where
  "modify_same_price order_id original_order new_quantity e =
     (let quantity_delta = new_quantity - lo_remaining_quantity original_order;
          loses_priority = (new_quantity > lo_remaining_quantity original_order)
      in seq (adjust_if_nonzero (lo_side original_order) (lo_price_ticks original_order) quantity_delta e)
           (\<lambda>_ e1. seq (if loses_priority
                        then modify_renew_priority order_id original_order quantity_delta e1
                        else (Inr (), e1)) (\<lambda>_ e2.
              case om_find_order (me_orders e2) order_id of
                None \<Rightarrow> (Inl (Logic_error ''Modified order disappeared.''), e2)
              | Some _ \<Rightarrow>
                  (Inr True, e2\<lparr>me_orders := om_write_order order_id
                     (\<lambda>o1. o1\<lparr>lo_original_quantity := new_quantity, lo_remaining_quantity := new_quantity\<rparr>)
                     (me_orders e2)\<rparr>))))"

text \<open>
  The \<open>catch\<close> block of the price change, with the locals it reads: the original order, the modified
  order as the loop left it, the removal, the four flags, the journal and the two backups.
\<close>

definition modify_rollback ::
  "cpp_error \<Rightarrow> limit_order \<Rightarrow> limit_order \<Rightarrow> removal \<Rightarrow> bool \<Rightarrow> bool \<Rightarrow> bool \<Rightarrow> bool \<Rightarrow> order_mutation list
   \<Rightarrow> sequence_number \<Rightarrow> ts_checkpoint \<Rightarrow> matching_engine \<Rightarrow> (bool, matching_engine) outcome" where
  "modify_rollback err original_order modified_order original_removal original_removed
       original_book_adjusted modified_order_added modified_book_adjusted mutations
       sequence_number_backup trade_store_checkpoint e =
     seq (if modified_book_adjusted
          then adjust_order_book (lo_side modified_order) (lo_price_ticks modified_order)
                 (- lo_remaining_quantity modified_order) e
          else (Inr (), e)) (\<lambda>_ e1.
     seq (if modified_order_added
          then seq (on_orders (om_cancel_order (lo_order_id modified_order)) e1) (\<lambda>removed e2.
                 if \<not> removed
                 then (Inl (Logic_error ''Modified order disappeared during rollback.''), e2)
                 else (Inr (), e2))
          else (Inr (), e1)) (\<lambda>_ e2.
     seq (undo_executions (rev mutations) e2) (\<lambda>_ e3.
     seq (if original_book_adjusted
          then adjust_order_book (lo_side original_order) (lo_price_ticks original_order)
                 (lo_remaining_quantity original_order) e3
          else (Inr (), e3)) (\<lambda>_ e4.
     seq (if original_removed
          then on_orders (\<lambda>om. case om_restore_removal (original_removal\<lparr>rm_removed_order := original_order\<rparr>) om of
                                 (r, om1, _) \<Rightarrow> (r, om1)) e4
          else (Inr (), e4)) (\<lambda>_ e5.
     seq (on_trades (rollback trade_store_checkpoint) (e5\<lparr>me_next_sequence := sequence_number_backup\<rparr>))
         (\<lambda>_ e6. (Inl err, e6)))))))"

text \<open>The \<open>try\<close> block once the original order is out of the manager and of the book.\<close>

definition modify_match ::
  "limit_order \<Rightarrow> limit_order \<Rightarrow> removal \<Rightarrow> sequence_number \<Rightarrow> ts_checkpoint \<Rightarrow> matching_engine
   \<Rightarrow> (bool, matching_engine) outcome" where
  "modify_match original_order modified_order original_removal sequence_number_backup
       trade_store_checkpoint e =
     (case match_loop modified_order [] e of
        (Inl err, modified1, mutations, e1) \<Rightarrow>
          modify_rollback err original_order modified1 original_removal True True False False mutations
            sequence_number_backup trade_store_checkpoint e1
      | (Inr _, modified1, mutations, e1) \<Rightarrow>
          if is_filled modified1 then (Inr True, e1)
          else case on_orders (om_add_order modified1) e1 of
                 (Inl err, e2) \<Rightarrow>
                   modify_rollback err original_order modified1 original_removal True True False False
                     mutations sequence_number_backup trade_store_checkpoint e2
               | (Inr _, e2) \<Rightarrow>
                   (case adjust_order_book (lo_side modified1) (lo_price_ticks modified1)
                           (lo_remaining_quantity modified1) e2 of
                      (Inl err, e3) \<Rightarrow>
                        modify_rollback err original_order modified1 original_removal True True True False
                          mutations sequence_number_backup trade_store_checkpoint e3
                    | (Inr _, e3) \<Rightarrow> (Inr True, e3)))"

definition modify_price ::
  "order_id \<Rightarrow> limit_order \<Rightarrow> int \<Rightarrow> int \<Rightarrow> matching_engine \<Rightarrow> (bool, matching_engine) outcome" where
  "modify_price order_id original_order new_price_ticks new_quantity e =
     (let sequence_number_backup = me_next_sequence e;
          trade_store_checkpoint = checkpoint (me_trades e);
          modified_order = original_order\<lparr>lo_price_ticks := new_price_ticks,
            lo_original_quantity := new_quantity, lo_remaining_quantity := new_quantity,
            lo_sequence_number := me_next_sequence e\<rparr>
      in case om_cancel_order_removal order_id empty_removal (me_orders e) of
           (Inl err, om, r) \<Rightarrow>
             modify_rollback err original_order modified_order r False False False False []
               sequence_number_backup trade_store_checkpoint (e\<lparr>me_orders := om\<rparr>)
         | (Inr removed, om, r) \<Rightarrow>
             if \<not> removed then (Inr False, e\<lparr>me_orders := om\<rparr>)
             else case adjust_order_book (lo_side original_order) (lo_price_ticks original_order)
                         (- lo_remaining_quantity original_order) (e\<lparr>me_orders := om\<rparr>) of
                    (Inl err, e1) \<Rightarrow>
                      modify_rollback err original_order modified_order r True False False False []
                        sequence_number_backup trade_store_checkpoint e1
                  | (Inr _, e1) \<Rightarrow>
                      modify_match original_order modified_order r sequence_number_backup
                        trade_store_checkpoint (e1\<lparr>me_next_sequence := me_next_sequence e1 + 1\<rparr>))"

definition modify_order :: "order_id \<Rightarrow> int \<Rightarrow> int \<Rightarrow> matching_engine \<Rightarrow> (bool, matching_engine) outcome" where
  "modify_order order_id new_price_ticks new_quantity e =
     (case validate_modify_order new_price_ticks new_quantity of
        Inl err \<Rightarrow> (Inl err, e)
      | Inr _ \<Rightarrow>
          (case om_find_order (me_orders e) order_id of
             None \<Rightarrow> (Inr False, e)
           | Some original_order \<Rightarrow>
               if new_price_ticks = lo_price_ticks original_order
               then modify_same_price order_id original_order new_quantity e
               else modify_price order_id original_order new_price_ticks new_quantity e))"

definition clear_trade_history :: "matching_engine \<Rightarrow> matching_engine" where
  "clear_trade_history e = e\<lparr>me_trades := clear_trades (me_trades e)\<rparr>"

definition active_limit_orders :: "matching_engine \<Rightarrow> limit_order list" where
  "active_limit_orders e = om_orders (me_orders e)"

definition trade_history :: "matching_engine \<Rightarrow> trade list" where
  "trade_history e = ts_trades (me_trades e)"

end
