(* ===== verification/Engine_State.thy ===== *)
theory Engine_State
  imports Matching_Engine
begin

text \<open>
  What an engine state means. The two sides of the book as quantities per price, the resting orders
  of a side as a queue in price-time priority, and \<open>synced\<close>: the book shows at every price exactly
  the remaining quantity of the orders that rest there. A synced engine is determined by its order
  vector, which is why its rollback code can be shown to restore it exactly.
\<close>

subsection \<open>Book sides\<close>

definition side_levels :: "order_side \<Rightarrow> order_book \<Rightarrow> price_level list" where
  "side_levels side book = (case side of Buy \<Rightarrow> ob_bids book | Sell \<Rightarrow> ob_asks book)"

definition book_qty :: "order_book \<Rightarrow> order_side \<Rightarrow> int \<Rightarrow> int" where
  "book_qty book side = level_qty (side_levels side book)"

definition put_level :: "order_side \<Rightarrow> int \<Rightarrow> int \<Rightarrow> order_book \<Rightarrow> order_book" where
  "put_level side p q book =
     (case side of Buy \<Rightarrow> book\<lparr>ob_bids := set_level bid_before (ob_bids book) p q\<rparr>
      | Sell \<Rightarrow> book\<lparr>ob_asks := set_level ask_before (ob_asks book) p q\<rparr>)"

lemma book_ok_sides:
  "book_ok book \<longleftrightarrow> levels_ok bid_before (side_levels Buy book) \<and> levels_ok ask_before (side_levels Sell book)"
  by (simp add: book_ok_def side_levels_def)

lemma book_ext:
  assumes "book_ok a" "book_ok b" "book_qty a = book_qty b"
  shows "a = b"
proof -
  have "level_qty (side_levels side a) = level_qty (side_levels side b)" for side
    using assms(3) unfolding book_qty_def by meson
  then have "side_levels Buy a = side_levels Buy b" "side_levels Sell a = side_levels Sell b"
    using assms(1,2) bid_order.levels_ext ask_order.levels_ext unfolding book_ok_sides by blast+
  then show ?thesis by (cases a; cases b) (simp add: side_levels_def)
qed

lemma book_qty_range: "book_ok book \<Longrightarrow> 0 \<le> book_qty book side p \<and> book_qty book side p \<le> INT64_MAX"
  by (cases side) (auto simp: book_qty_def book_ok_sides dest: level_qty_range)

lemma book_qty_empty [simp]: "book_qty empty_book side p = 0"
  by (cases side) (simp_all add: book_qty_def empty_book_def side_levels_def)

lemma put_level_ok:
  assumes "book_ok book" "0 \<le> p" "0 \<le> q" "q \<le> INT64_MAX"
  shows "book_ok (put_level side p q book)"
    and "book_qty (put_level side p q book) = (book_qty book)(side := (book_qty book side)(p := q))"
proof -
  show "book_ok (put_level side p q book)"
    using assms level_order_laws(3,4) by (cases side) (simp_all add: put_level_def book_ok_def)
  show "book_qty (put_level side p q book) = (book_qty book)(side := (book_qty book side)(p := q))"
  proof
    fix s
    show "book_qty (put_level side p q book) s = ((book_qty book)(side := (book_qty book side)(p := q))) s"
      using assms(1) level_order_laws(1,2)
      by (cases side; cases s) (simp_all add: put_level_def book_ok_def book_qty_def side_levels_def)
  qed
qed

definition side_name_of :: "order_side \<Rightarrow> string" where
  "side_name_of side = (case side of Buy \<Rightarrow> ''Bid'' | Sell \<Rightarrow> ''Ask'')"

lemma adjust_order_book_eq:
  assumes "book_ok (me_book e)" "0 \<le> p" "i64 d"
  shows "adjust_order_book side p d e =
    (let q = book_qty (me_book e) side p + d
     in if q < 0 then (Inl (negative_adjustment (side_name_of side)), e)
        else if q > INT64_MAX
        then (Inl (Overflow_error (side_name_of side @ '' quantity adjustment overflow.'')), e)
        else (Inr (), e\<lparr>me_book := put_level side p q (me_book e)\<rparr>))"
proof -
  note eqs = bid_order.adjust_levels_eq [of "ob_bids (me_book e)" p d "''Bid''"]
    ask_order.adjust_levels_eq [of "ob_asks (me_book e)" p d "''Ask''"]
  show ?thesis
    using assms eqs
    by (cases side) (auto simp: adjust_order_book_def adjust_bid_def adjust_ask_def on_bids_def on_asks_def
        book_ok_def book_qty_def side_levels_def put_level_def side_name_of_def Let_def)
qed

lemma adjust_order_book_ok:
  assumes "book_ok (me_book e)" "0 \<le> p" "i64 d"
    and "0 \<le> book_qty (me_book e) side p + d" "book_qty (me_book e) side p + d \<le> INT64_MAX"
  shows "adjust_order_book side p d e =
    (Inr (), e\<lparr>me_book := put_level side p (book_qty (me_book e) side p + d) (me_book e)\<rparr>)"
  using assms by (simp add: adjust_order_book_eq Let_def)

lemma adjust_order_book_fails:
  "adjust_order_book side p d e = (Inl err, e') \<Longrightarrow> e' = e"
  by (auto simp: adjust_order_book_def adjust_bid_def adjust_ask_def on_bids_def on_asks_def
      split: if_splits prod.splits sum.splits)

text \<open>Taking a quantity off a level and putting it back gives the same book.\<close>

lemma adjust_back:
  assumes "book_ok b" "book_ok (me_book e)" "0 \<le> p" "i64 d"
    and "book_qty b = (book_qty (me_book e))(side := (book_qty (me_book e) side)(p := book_qty (me_book e) side p + d))"
  shows "adjust_order_book side p d e = (Inr (), e\<lparr>me_book := b\<rparr>)"
proof -
  let ?q = "book_qty (me_book e) side p + d"
  have q: "0 \<le> ?q" "?q \<le> INT64_MAX"
    using book_qty_range [OF assms(1), of side p] assms(5) by simp_all
  have "put_level side p ?q (me_book e) = b"
    using put_level_ok [OF assms(2,3) q, of side] assms(1,5) by (intro book_ext) simp_all
  then show ?thesis using adjust_order_book_ok [OF assms(2-4) q] by simp
qed

subsection \<open>Queues in price-time priority\<close>

definition queue :: "order_side \<Rightarrow> order_manager \<Rightarrow> limit_order list" where
  "queue side om = map (\<lambda>k. the (om_find_order om (pk_order_id k))) (priority_index side om)"

definition before_order :: "order_side \<Rightarrow> limit_order \<Rightarrow> limit_order \<Rightarrow> bool" where
  "before_order side = (\<lambda>x y. priority_compare side (make_priority_key x) (make_priority_key y))"

lemma om_find_order_mem: "om_wf om \<Longrightarrow> x \<in> set (om_orders om) \<Longrightarrow> om_find_order om (lo_order_id x) = Some x"
  by (simp add: om_find_order_Some_iff)

lemma queue_keys:
  assumes "om_wf om"
  shows "map make_priority_key (queue side om) = priority_index side om"
    and "set (queue side om) = {x \<in> set (om_orders om). lo_side x = side}"
proof -
  have at: "make_priority_key (the (om_find_order om (pk_order_id k))) = k
      \<and> the (om_find_order om (pk_order_id k)) \<in> {x \<in> set (om_orders om). lo_side x = side}"
    if k: "k \<in> set (priority_index side om)" for k
  proof -
    obtain x where x: "k = make_priority_key x" "x \<in> set (om_orders om)" "lo_side x = side"
      using k unfolding om_wf_prio(2) [OF assms] by blast
    then have "om_find_order om (pk_order_id k) = Some x" using om_find_order_Some_iff [OF assms] by simp
    then show ?thesis using x by simp
  qed
  show "map make_priority_key (queue side om) = priority_index side om"
    unfolding queue_def map_map by (rule map_idI) (simp add: at)
  have "x \<in> set (queue side om)" if "x \<in> set (om_orders om)" "lo_side x = side" for x
  proof -
    have "make_priority_key x \<in> set (priority_index side om)" using key_in_index_iff [OF assms] that by simp
    moreover have "the (om_find_order om (pk_order_id (make_priority_key x))) = x"
      using that om_find_order_Some_iff [OF assms, of "lo_order_id x" x] by simp
    ultimately show ?thesis unfolding queue_def set_map by (metis image_eqI)
  qed
  then show "set (queue side om) = {x \<in> set (om_orders om). lo_side x = side}"
    using at unfolding queue_def by auto
qed

lemma queue_mem: "om_wf om \<Longrightarrow> x \<in> set (queue side om) \<longleftrightarrow> x \<in> set (om_orders om) \<and> lo_side x = side"
  by (simp add: queue_keys)

lemma queue_sorted: "om_wf om \<Longrightarrow> sorted_wrt (before_order side) (queue side om)"
  using om_wf_prio(1) [of om side] queue_keys(1) [of om side, symmetric]
  by (simp add: sorted_wrt_map before_order_def)

lemma queue_unique:
  assumes "om_wf om" "sorted_wrt (before_order side) xs" "set xs = {x \<in> set (om_orders om). lo_side x = side}"
  shows "queue side om = xs"
proof -
  have "map make_priority_key xs = priority_index side om"
    using assms(2,3) om_wf_prio [OF assms(1), of side]
    by (intro prio.sorted_unique [of side]) (auto simp: sorted_wrt_map before_order_def)
  moreover have "\<forall>x \<in> set xs. the (om_find_order om (lo_order_id x)) = x"
    using assms(3) om_find_order_mem [OF assms(1)] by simp
  ultimately show ?thesis
    unfolding queue_def by (metis (no_types, lifting) comp_apply list.map_comp make_priority_key_simps(1) map_idI)
qed

lemma om_best_order_queue:
  assumes "om_wf om"
  shows "om_best_order side om = (case queue side om of [] \<Rightarrow> None | x # _ \<Rightarrow> Some x)"
proof (cases "queue side om")
  case Nil
  then show ?thesis using queue_keys(1) [OF assms, of side] by (simp add: om_best_order_def)
next
  case (Cons x xs)
  then have "x \<in> set (om_orders om)" using queue_keys(2) [OF assms, of side] by auto
  then have "om_find_order om (lo_order_id x) = Some x" using om_find_order_Some_iff [OF assms] by simp
  then show ?thesis using Cons by (simp add: om_best_order_def queue_keys(1) [OF assms, of side, symmetric])
qed

lemma queue_order_at:
  assumes "om_wf om" "queue side om = x # xs"
  obtains i where "i < length (om_orders om)" "om_orders om ! i = x" "lo_side x = side"
    "om_find_order om (lo_order_id x) = Some x" "om_indices om (lo_order_id x) = Some i"
proof -
  have x: "x \<in> set (om_orders om)" "lo_side x = side"
    using assms queue_keys(2) [OF assms(1), of side] by auto
  then obtain i where i: "i < length (om_orders om)" "om_orders om ! i = x"
    by (auto simp: in_set_conv_nth)
  then show ?thesis
    using that x om_find_order_Some_iff [OF assms(1)] om_wf_nth_index [OF assms(1) i(1)] by simp
qed

text \<open>How the queues move when an order is edited in place, removed, or added.\<close>

lemma queue_edit_head:
  assumes wf: "om_wf om" "om_wf om'" and q: "queue side om = x # xs"
    and i: "i < length (om_orders om)" "om_orders om ! i = x"
    and y: "same_key x y" and orders: "om_orders om' = (om_orders om)[i := y]"
  shows "queue side om' = y # xs" and "side' \<noteq> side \<Longrightarrow> queue side' om' = queue side' om"
proof -
  have set': "set (om_orders om') = insert y (set (om_orders om) - {x})"
  proof -
    have "set (om_orders om') = insert y {z \<in> set (om_orders om). lo_order_id z \<noteq> lo_order_id y}"
      unfolding orders by (rule set_update_distinct [OF om_wf_distinct [OF wf(1)] i(1)])
        (use i(2) y in \<open>simp add: same_key_def\<close>)
    also have "{z \<in> set (om_orders om). lo_order_id z \<noteq> lo_order_id y} = set (om_orders om) - {x}"
    proof -
      have "z = x \<longleftrightarrow> lo_order_id z = lo_order_id y" if "z \<in> set (om_orders om)" for z
        using that om_wf_id_unique [OF wf(1), of z x] nth_mem [OF i(1)] i(2) y
        by (auto simp: same_key_def)
      then show ?thesis by auto
    qed
    finally show ?thesis .
  qed
  have side: "lo_side x = side" "lo_side y = side"
    using queue_mem [OF wf(1), of x side] q y by (simp_all add: same_key_def)
  have "sorted_wrt (before_order side) (y # xs)"
    using queue_sorted [OF wf(1), of side] y unfolding q by (simp add: before_order_def same_key_def)
  moreover have "x \<notin> set xs"
    using queue_sorted [OF wf(1), of side] prio.lt_irrefl unfolding q by (auto simp: before_order_def)
  ultimately show "queue side om' = y # xs"
    using queue_keys(2) [OF wf(1), of side] side unfolding q by (intro queue_unique [OF wf(2)]) (auto simp: set')
  show "queue side' om' = queue side' om" if "side' \<noteq> side"
    using that side queue_sorted [OF wf(1)] queue_keys(2) [OF wf(1), of side']
    by (intro queue_unique [OF wf(2)]) (auto simp: set')
qed

lemma queue_remove_head:
  assumes wf: "om_wf om" "om_wf om'" and q: "queue side om = x # xs"
    and i: "i < length (om_orders om)" "om_orders om ! i = x"
    and orders: "om_orders om' = swap_remove i (om_orders om)"
  shows "queue side om' = xs" and "side' \<noteq> side \<Longrightarrow> queue side' om' = queue side' om"
proof -
  have set': "set (om_orders om') = set (om_orders om) - {x}"
    using set_swap_remove [OF i(1) om_wf_distinct [OF wf(1)]] i orders by simp
  have side: "lo_side x = side" using queue_mem [OF wf(1), of x side] q by simp
  have "x \<notin> set xs"
    using queue_sorted [OF wf(1), of side] prio.lt_irrefl unfolding q by (auto simp: before_order_def)
  then show "queue side om' = xs"
    using queue_keys(2) [OF wf(1), of side] queue_sorted [OF wf(1), of side] unfolding q
    by (intro queue_unique [OF wf(2)]) (auto simp: set')
  show "queue side' om' = queue side' om" if "side' \<noteq> side"
    using that side queue_sorted [OF wf(1)] queue_keys(2) [OF wf(1), of side']
    by (intro queue_unique [OF wf(2)]) (auto simp: set')
qed

subsection \<open>Synced engines\<close>

definition resting_in :: "limit_order list \<Rightarrow> order_side \<Rightarrow> int \<Rightarrow> int" where
  "resting_in orders side p =
     sum_list (map lo_remaining_quantity (filter (\<lambda>x. lo_side x = side \<and> lo_price_ticks x = p) orders))"

definition order_ok :: "limit_order \<Rightarrow> bool" where
  "order_ok x \<longleftrightarrow> order_valid x \<and> lo_original_quantity x \<le> INT64_MAX \<and> lo_price_ticks x \<le> INT64_MAX"

definition orders_ok :: "order_manager \<Rightarrow> bool" where
  "orders_ok om \<longleftrightarrow> om_wf om \<and> (\<forall>x \<in> set (om_orders om). order_ok x)"

definition synced :: "matching_engine \<Rightarrow> bool" where
  "synced e \<longleftrightarrow> orders_ok (me_orders e) \<and> book_ok (me_book e)
     \<and> book_qty (me_book e) = resting_in (om_orders (me_orders e))"

lemma syncedD:
  assumes "synced e"
  shows "om_wf (me_orders e)" "x \<in> set (om_orders (me_orders e)) \<Longrightarrow> order_ok x" "book_ok (me_book e)"
    "book_qty (me_book e) side p = resting_in (om_orders (me_orders e)) side p"
  using assms by (simp_all add: synced_def orders_ok_def)

lemma synced_frame [simp]:
  "synced (e\<lparr>me_trades := ts\<rparr>) = synced e"
  "synced (e\<lparr>me_ids := g\<rparr>) = synced e"
  "synced (e\<lparr>me_next_sequence := n\<rparr>) = synced e"
  by (simp_all add: synced_def)

text \<open>A synced engine is determined by its order vector.\<close>

lemma synced_ext:
  assumes "synced a" "synced b" "om_orders (me_orders a) = om_orders (me_orders b)"
    "om_max_size (me_orders a) = om_max_size (me_orders b)"
  shows "me_orders a = me_orders b" "me_book a = me_book b"
  using assms by (auto simp: synced_def orders_ok_def intro: om_wf_ext book_ext)

lemma order_okD:
  assumes "order_ok x"
  shows "0 < lo_price_ticks x" "0 < lo_remaining_quantity x" "lo_remaining_quantity x \<le> INT64_MAX"
    "order_valid x" "lo_remaining_quantity x \<le> lo_original_quantity x" "lo_original_quantity x \<le> INT64_MAX"
    "lo_order_id x \<noteq> 0" "lo_sequence_number x \<noteq> 0"
  using assms by (auto simp: order_ok_def order_valid_def)

lemma resting_in_simps [simp]:
  "resting_in [] side p = 0"
  "resting_in (x # xs) side p =
     (if lo_side x = side \<and> lo_price_ticks x = p then lo_remaining_quantity x else 0) + resting_in xs side p"
  "resting_in (xs @ ys) side p = resting_in xs side p + resting_in ys side p"
  by (simp_all add: resting_in_def)

lemma resting_in_nonneg: "\<forall>x \<in> set xs. order_ok x \<Longrightarrow> 0 \<le> resting_in xs side p"
  by (induction xs) (auto dest: order_okD(2))

lemma resting_in_mset: "mset xs = mset ys \<Longrightarrow> resting_in xs side p = resting_in ys side p"
proof -
  have "resting_in zs side p = sum_mset (image_mset lo_remaining_quantity
      (filter_mset (\<lambda>x. lo_side x = side \<and> lo_price_ticks x = p) (mset zs)))" for zs
    by (simp add: resting_in_def sum_mset_sum_list flip: mset_map mset_filter)
  then show "mset xs = mset ys \<Longrightarrow> resting_in xs side p = resting_in ys side p" by simp
qed

lemma resting_in_update:
  assumes "i < length xs" "same_key (xs ! i) y"
  shows "resting_in (xs[i := y]) =
    (resting_in xs)(lo_side y := (resting_in xs (lo_side y))
       (lo_price_ticks y := resting_in xs (lo_side y) (lo_price_ticks y)
          + (lo_remaining_quantity y - lo_remaining_quantity (xs ! i))))"
proof (intro ext)
  fix side p
  have key: "lo_side (xs ! i) = lo_side y" "lo_price_ticks (xs ! i) = lo_price_ticks y"
    using assms(2) by (simp_all add: same_key_def make_priority_key_def)
  have split: "xs = take i xs @ xs ! i # drop (Suc i) xs" using id_take_nth_drop [OF assms(1)] .
  have "resting_in (xs[i := y]) side p =
      resting_in xs side p + (if lo_side y = side \<and> lo_price_ticks y = p
        then lo_remaining_quantity y - lo_remaining_quantity (xs ! i) else 0)"
  proof -
    have "resting_in (xs[i := y]) side p = resting_in (take i xs @ y # drop (Suc i) xs) side p"
      using upd_conv_take_nth_drop [OF assms(1)] by simp
    moreover have "resting_in xs side p = resting_in (take i xs @ xs ! i # drop (Suc i) xs) side p"
      using split by metis
    ultimately show ?thesis using key by simp
  qed
  then show "resting_in (xs[i := y]) side p = ((resting_in xs)(lo_side y := (resting_in xs (lo_side y))
       (lo_price_ticks y := resting_in xs (lo_side y) (lo_price_ticks y)
          + (lo_remaining_quantity y - lo_remaining_quantity (xs ! i))))) side p"
    by simp
qed

lemma resting_in_remove:
  assumes "i < length xs" "xs ! i = x"
  shows "resting_in (swap_remove i xs) =
    (resting_in xs)(lo_side x := (resting_in xs (lo_side x))
       (lo_price_ticks x := resting_in xs (lo_side x) (lo_price_ticks x) - lo_remaining_quantity x))"
proof (intro ext)
  fix side p
  have "resting_in (x # swap_remove i xs) side p = resting_in xs side p"
    using mset_swap_remove [OF assms(1)] assms(2) by (intro resting_in_mset) simp
  then show "resting_in (swap_remove i xs) side p = ((resting_in xs)(lo_side x := (resting_in xs (lo_side x))
       (lo_price_ticks x := resting_in xs (lo_side x) (lo_price_ticks x) - lo_remaining_quantity x))) side p"
    by auto
qed

lemma resting_in_add:
  "resting_in (xs @ [x]) =
    (resting_in xs)(lo_side x := (resting_in xs (lo_side x))
       (lo_price_ticks x := resting_in xs (lo_side x) (lo_price_ticks x) + lo_remaining_quantity x))"
  by (intro ext) auto

text \<open>Every synced change of the book is one \<open>adjust_order_book\<close>.\<close>

lemma resting_bounds:
  assumes "synced e" "x \<in> set (om_orders (me_orders e))"
  shows "lo_remaining_quantity x \<le> book_qty (me_book e) (lo_side x) (lo_price_ticks x)"
proof -
  obtain ys zs where xs: "om_orders (me_orders e) = ys @ x # zs" using split_list [OF assms(2)] by blast
  have "\<forall>y \<in> set ys \<union> set zs. order_ok y" using assms(1) xs by (simp add: synced_def orders_ok_def)
  then have "0 \<le> resting_in ys (lo_side x) (lo_price_ticks x)" "0 \<le> resting_in zs (lo_side x) (lo_price_ticks x)"
    by (auto intro: resting_in_nonneg)
  then show ?thesis using syncedD(4) [OF assms(1)] by (simp add: xs)
qed

lemma synced_adjust:
  assumes "synced e" "orders_ok om'" "0 \<le> p" "i64 d"
    and "resting_in (om_orders om') = (resting_in (om_orders (me_orders e)))
      (side := (resting_in (om_orders (me_orders e)) side)(p := resting_in (om_orders (me_orders e)) side p + d))"
    and "resting_in (om_orders (me_orders e)) side p + d \<le> INT64_MAX"
    and "me_book e1 = me_book e"
  obtains b where "adjust_order_book side p d e1 = (Inr (), e1\<lparr>me_book := b\<rparr>)"
    "synced (e1\<lparr>me_book := b, me_orders := om'\<rparr>)"
proof -
  let ?q = "book_qty (me_book e) side p + d"
  have "0 \<le> resting_in (om_orders om') side p"
    using assms(2) by (auto simp: orders_ok_def intro: resting_in_nonneg)
  then have q: "0 \<le> ?q" "?q \<le> INT64_MAX"
    using assms(5,6) syncedD(4) [OF assms(1)] by simp_all
  have "synced (e1\<lparr>me_book := put_level side p ?q (me_book e), me_orders := om'\<rparr>)"
    using put_level_ok [OF syncedD(3) [OF assms(1)] assms(3) q] assms(1,2,5)
    by (simp add: synced_def)
  then show ?thesis
    using that adjust_order_book_ok [of e1 p d side] syncedD(3) [OF assms(1)] assms(3,4,7) q by simp
qed

end
