(* ===== verification/Engine_Fills.thy ===== *)
theory Engine_Fills
  imports Engine_State
begin

text \<open>
  One fill against the head of a queue, as both matching loops perform it: the book is reduced, the
  resting order written through its pointer, and taken out when it is filled. The journal entry of
  the fill undoes it exactly; the locale \<open>journal\<close> is what the two rollback loops of the code have in
  common, and gives that undoing the entries last to first undoes the whole loop.
\<close>

subsection \<open>Journals\<close>

locale journal =
  fixes undo_one :: "'m \<Rightarrow> 's \<Rightarrow> (unit, 's) outcome" and undo_all :: "'m list \<Rightarrow> 's \<Rightarrow> (unit, 's) outcome"
  assumes undo_all_Nil: "undo_all [] s = (Inr (), s)"
    and undo_all_Cons: "undo_all (m # ms) s = seq (undo_one m s) (\<lambda>_ s1. undo_all ms s1)"
begin

lemma undo_all_append: "undo_all (ms @ ns) s = seq (undo_all ms s) (\<lambda>_ s1. undo_all ns s1)"
proof (induction ms arbitrary: s)
  case Nil
  then show ?case by (simp add: undo_all_Nil)
next
  case (Cons m ms)
  then show ?case by (cases "undo_one m s" rule: prod.exhaust) (auto simp: undo_all_Cons seq_def split: sum.splits)
qed

lemma undo_rev_snoc:
  "undo_one m s2 = (Inr (), s1) \<Longrightarrow> undo_all (rev (ms @ [m])) s2 = undo_all (rev ms) s1"
  by (simp add: undo_all_Cons)

end

definition undo_execution :: "order_mutation \<Rightarrow> matching_engine \<Rightarrow> (unit, matching_engine) outcome" where
  "undo_execution m e = seq (on_orders (undo_order m) e)
     (\<lambda>_ e1. adjust_order_book (mu_side m) (mu_price_ticks m) (mu_executed_quantity m) e1)"

interpretation orders_log: journal "\<lambda>m. on_orders (undo_order m)" undo_orders
  by unfold_locales simp_all

interpretation executions_log: journal undo_execution undo_executions
  by unfold_locales (auto simp: undo_execution_def seq_def split: prod.splits sum.splits)

subsection \<open>A fill and its undoing\<close>

definition reduced :: "int \<Rightarrow> limit_order \<Rightarrow> limit_order" where
  "reduced q x = x\<lparr>lo_remaining_quantity := lo_remaining_quantity x - q\<rparr>"

lemma reduced_simps [simp]:
  "lo_order_id (reduced q x) = lo_order_id x" "lo_side (reduced q x) = lo_side x"
  "lo_price_ticks (reduced q x) = lo_price_ticks x" "lo_sequence_number (reduced q x) = lo_sequence_number x"
  "lo_original_quantity (reduced q x) = lo_original_quantity x"
  "lo_remaining_quantity (reduced q x) = lo_remaining_quantity x - q"
  "make_priority_key (reduced q x) = make_priority_key x"
  by (simp_all add: reduced_def make_priority_key_def)

lemma reduced_same_key [simp]: "same_key x (reduced q x)" "same_key (reduced q x) x"
  by (simp_all add: same_key_def)

lemma reduced_set [simp]: "(reduced q x)\<lparr>lo_remaining_quantity := k\<rparr> = x\<lparr>lo_remaining_quantity := k\<rparr>"
  by (simp add: reduced_def)

lemma remaining_same [simp]: "x\<lparr>lo_remaining_quantity := lo_remaining_quantity x\<rparr> = x"
  by simp

lemma reduced_ok: "order_ok x \<Longrightarrow> 0 \<le> q \<Longrightarrow> q < lo_remaining_quantity x \<Longrightarrow> order_ok (reduced q x)"
  by (auto simp: order_ok_def order_valid_def)

lemma orders_ok_update:
  assumes "orders_ok om" "i < length (om_orders om)" "same_key (om_orders om ! i) y" "order_ok y"
  shows "orders_ok (om\<lparr>om_orders := (om_orders om)[i := y]\<rparr>)"
  using assms om_wf_write [OF _ assms(2,3)] set_update_subset_insert [of "om_orders om" i y]
  by (auto simp: orders_ok_def)

lemma orders_ok_remove:
  assumes "orders_ok om" "i < length (om_orders om)" "om_wf om'" "om_orders om' = swap_remove i (om_orders om)"
  shows "orders_ok om'"
  using assms set_swap_remove [OF assms(2) om_wf_distinct] by (auto simp: orders_ok_def)

lemma swap_remove_update:
  assumes "i < length xs"
  shows "swap_remove i (xs[i := y]) = swap_remove i xs"
proof (rule nth_equalityI)
  fix j assume "j < length (swap_remove i (xs[i := y]))"
  then show "swap_remove i (xs[i := y]) ! j = swap_remove i xs ! j"
    using assms by (cases "xs = []") (auto simp: nth_swap_remove nth_list_update last_list_update)
qed simp

text \<open>The manager's part of a fill: the partial and the complete case.\<close>

lemma undo_partial:
  assumes "om_wf om" "i < length (om_orders om)" "om_orders om ! i = x"
    and om': "om' = om\<lparr>om_orders := (om_orders om)[i := reduced q x]\<rparr>"
  shows "undo_order (new_mutation q x) om' = (Inr (), om)"
proof -
  have idx: "om_indices om' (lo_order_id x) = Some i" using om_wf_nth_index [OF assms(1,2)] assms(3) om' by simp
  have "(om_orders om')[i := x] = om_orders om" using assms(2,3) om' by auto
  then show ?thesis
    using idx assms(2) om'
    by (simp add: undo_order_def new_mutation_def om_find_order_def om_write_order_def)
qed

lemma undo_complete:
  assumes wf: "om_wf om" and i: "i < length (om_orders om)" "om_orders om ! i = x"
    and om1: "om1 = om\<lparr>om_orders := (om_orders om)[i := reduced q x]\<rparr>"
    and om': "om_wf om'" "om_orders om' = swap_remove i (om_orders om1)" "om_max_size om' = om_max_size om1"
  shows "undo_order ((new_mutation q x)\<lparr>mu_removal := removal_of om1 i r, mu_removed := True\<rparr>) om' = (Inr (), om)"
proof -
  have i1: "i < length (om_orders om1)" "om_orders om1 ! i = reduced q x" using i om1 by simp_all
  have wf1: "om_wf om1" using om_wf_write [OF wf i(1), of "reduced q x"] i om1 by simp
  have "rm_removed_order (removal_of om1 i r) = reduced q x" by (simp add: removal_of_def Let_def i1)
  moreover have "om1\<lparr>om_orders := (om_orders om1)[i := x]\<rparr> = om"
    unfolding om1 i(2) [symmetric] by simp
  moreover obtain r' where "om_restore_removal ((removal_of om1 i r)\<lparr>rm_removed_order := x\<rparr>) om'
      = (Inr (), om1\<lparr>om_orders := (om_orders om1)[i := x]\<rparr>, r')"
    using om_restore_removal_ok [OF wf1 i1(1) om', of x r] i1(2) by auto
  ultimately show ?thesis by (simp add: undo_order_def new_mutation_def)
qed

text \<open>
  \<open>fill_of\<close> says what a fill does: the queue loses its head or keeps it reduced, everything else
  of the manager stays, the engine is synced again, and the journal entry leads back.
\<close>

definition fill_of :: "matching_engine \<Rightarrow> limit_order \<Rightarrow> int \<Rightarrow> order_mutation \<Rightarrow> matching_engine \<Rightarrow> bool" where
  "fill_of e x q m e' \<longleftrightarrow>
     synced e' \<and> me_ids e' = me_ids e \<and> me_next_sequence e' = me_next_sequence e
     \<and> om_max_size (me_orders e') = om_max_size (me_orders e)
     \<and> queue (lo_side x) (me_orders e') =
         (if q = lo_remaining_quantity x then tl (queue (lo_side x) (me_orders e))
          else reduced q x # tl (queue (lo_side x) (me_orders e)))
     \<and> queue (opposite (lo_side x)) (me_orders e') = queue (opposite (lo_side x)) (me_orders e)
     \<and> resting_in (om_orders (me_orders e)) = (resting_in (om_orders (me_orders e')))
         (lo_side x := (resting_in (om_orders (me_orders e')) (lo_side x))
            (lo_price_ticks x := resting_in (om_orders (me_orders e')) (lo_side x) (lo_price_ticks x) + q))
     \<and> mu_side m = lo_side x \<and> mu_price_ticks m = lo_price_ticks x \<and> mu_executed_quantity m = q
     \<and> undo_order m (me_orders e') = (Inr (), me_orders e)"

lemma opposite_simps [simp]: "opposite Buy = Sell" "opposite Sell = Buy" "opposite side \<noteq> side"
  "side \<noteq> opposite side" "opposite (opposite side) = side"
  by (cases side; simp add: opposite_def)+

lemma resting_fill:
  assumes "i < length xs" "xs ! i = x"
  shows "resting_in (xs[i := reduced q x]) =
    (resting_in xs)(lo_side x := (resting_in xs (lo_side x))
       (lo_price_ticks x := resting_in xs (lo_side x) (lo_price_ticks x) + - q))"
  using resting_in_update [OF assms(1), of "reduced q x"] assms(2) by simp

lemma fill_adjust:
  assumes e: "synced e" and x: "order_ok x" and q: "0 < q" "q \<le> lo_remaining_quantity x" and om: "orders_ok om"
    and rest: "resting_in (om_orders om) = (resting_in (om_orders (me_orders e)))
      (lo_side x := (resting_in (om_orders (me_orders e)) (lo_side x))
        (lo_price_ticks x := resting_in (om_orders (me_orders e)) (lo_side x) (lo_price_ticks x) + - q))"
    and e1: "me_book e1 = me_book e"
  obtains b where "adjust_order_book (lo_side x) (lo_price_ticks x) (- q) e1 = (Inr (), e1\<lparr>me_book := b\<rparr>)"
    "synced (e1\<lparr>me_book := b, me_orders := om\<rparr>)"
proof -
  have i64: "i64 (- q)" using q order_okD(3) [OF x] by (simp add: i64_def INT64_MIN_eq)
  have bound: "resting_in (om_orders (me_orders e)) (lo_side x) (lo_price_ticks x) + - q \<le> INT64_MAX"
    using book_qty_range [OF syncedD(3) [OF e], of "lo_side x" "lo_price_ticks x"] q syncedD(4) [OF e] by simp
  have p: "0 \<le> lo_price_ticks x" using order_okD(1) [OF x] by simp
  show thesis using synced_adjust [OF e om p i64 rest bound e1] that by blast
qed

text \<open>A partial fill writes the reduced order back; a complete one takes the order out.\<close>

lemma fill_resting_part:
  assumes e: "synced e" and qu: "queue (lo_side x) (me_orders e) = x # xs"
    and i: "i < length (om_orders (me_orders e))" "om_orders (me_orders e) ! i = x"
    and q: "0 < q" "q < lo_remaining_quantity x"
    and e1: "me_book e1 = me_book e" "me_ids e1 = me_ids e" "me_next_sequence e1 = me_next_sequence e"
    and om1: "om1 = (me_orders e)\<lparr>om_orders := (om_orders (me_orders e))[i := reduced q x]\<rparr>" "om_wf om1"
    and find1: "om_find_order om1 (lo_order_id x) = Some (reduced q x)"
  obtains b where "adjust_order_book (lo_side x) (lo_price_ticks x) (- q) e1 = (Inr (), e1\<lparr>me_book := b\<rparr>)"
    "remove_if_filled (lo_order_id x) (lo_order_id x) (new_mutation q x) (e1\<lparr>me_book := b, me_orders := om1\<rparr>)
      = (Inr (), new_mutation q x, e1\<lparr>me_book := b, me_orders := om1\<rparr>)"
    "fill_of e x q (new_mutation q x) (e1\<lparr>me_book := b, me_orders := om1\<rparr>)"
proof -
  let ?om = "me_orders e"
  have wf: "om_wf ?om" and ok: "orders_ok ?om" using e syncedD(1) by (auto simp: synced_def)
  have x: "order_ok x" using i syncedD(2) [OF e] by auto
  have rest1: "resting_in (om_orders om1) = (resting_in (om_orders ?om))(lo_side x := (resting_in (om_orders ?om) (lo_side x))
      (lo_price_ticks x := resting_in (om_orders ?om) (lo_side x) (lo_price_ticks x) + - q))"
    using resting_fill [OF i, of q] by (simp add: om1(1))
  have "orders_ok om1"
    unfolding om1(1) using orders_ok_update [OF ok i(1), of "reduced q x"] i(2) reduced_ok [OF x, of q] q by simp
  then obtain b where b: "adjust_order_book (lo_side x) (lo_price_ticks x) (- q) e1 = (Inr (), e1\<lparr>me_book := b\<rparr>)"
    "synced (e1\<lparr>me_book := b, me_orders := om1\<rparr>)"
    using fill_adjust [OF e x q(1) _ _ rest1 e1(1)] q(2) by (metis order_less_imp_le)
  have "fill_of e x q (new_mutation q x) (e1\<lparr>me_book := b, me_orders := om1\<rparr>)"
    unfolding fill_of_def
    using b(2) e1 q qu queue_edit_head [OF wf om1(2) qu i, of "reduced q x"] undo_partial [OF wf i om1(1)] rest1
    by (simp add: om1(1) new_mutation_def)
  moreover have "remove_if_filled (lo_order_id x) (lo_order_id x) (new_mutation q x)
      (e1\<lparr>me_book := b, me_orders := om1\<rparr>) = (Inr (), new_mutation q x, e1\<lparr>me_book := b, me_orders := om1\<rparr>)"
    using find1 q by (simp add: remove_if_filled_def is_filled_def)
  ultimately show thesis using that b(1) by blast
qed

lemma fill_resting_whole:
  assumes e: "synced e" and qu: "queue (lo_side x) (me_orders e) = x # xs"
    and i: "i < length (om_orders (me_orders e))" "om_orders (me_orders e) ! i = x"
    and q: "0 < q" "q = lo_remaining_quantity x"
    and e1: "me_book e1 = me_book e" "me_ids e1 = me_ids e" "me_next_sequence e1 = me_next_sequence e"
    and om1: "om1 = (me_orders e)\<lparr>om_orders := (om_orders (me_orders e))[i := reduced q x]\<rparr>" "om_wf om1"
    and find1: "om_find_order om1 (lo_order_id x) = Some (reduced q x)"
  obtains b m om' where "adjust_order_book (lo_side x) (lo_price_ticks x) (- q) e1 = (Inr (), e1\<lparr>me_book := b\<rparr>)"
    "remove_if_filled (lo_order_id x) (lo_order_id x) (new_mutation q x) (e1\<lparr>me_book := b, me_orders := om1\<rparr>)
      = (Inr (), m, e1\<lparr>me_book := b, me_orders := om'\<rparr>)"
    "fill_of e x q m (e1\<lparr>me_book := b, me_orders := om'\<rparr>)"
proof -
  let ?om = "me_orders e"
  have wf: "om_wf ?om" and ok: "orders_ok ?om" using e syncedD(1) by (auto simp: synced_def)
  have x: "order_ok x" using i syncedD(2) [OF e] by auto
  obtain j om' where c: "om_cancel_order_removal (lo_order_id x) empty_removal om1 = (Inr True, om', removal_of om1 j empty_removal)"
    "om_wf om'" "j < length (om_orders om1)" "om_orders om1 ! j = reduced q x"
    "om_orders om' = swap_remove j (om_orders om1)" "om_max_size om' = om_max_size om1"
    using om_cancel_order_removal_ok [OF om1(2) find1] by metis
  have "om_indices ?om (lo_order_id x) = Some i" using om_wf_nth_index [OF wf i(1)] i(2) by simp
  then have "j = i" using om_wf_nth_index [OF om1(2) c(3)] c(4) by (simp add: om1(1))
  note c = c [unfolded this]
  have sr: "om_orders om' = swap_remove i (om_orders ?om)" using c(5) i(1) by (simp add: om1(1) swap_remove_update)
  have rest': "resting_in (om_orders om') = (resting_in (om_orders ?om))(lo_side x := (resting_in (om_orders ?om) (lo_side x))
      (lo_price_ticks x := resting_in (om_orders ?om) (lo_side x) (lo_price_ticks x) + - q))"
    using resting_in_remove [OF i] q(2) by (simp add: sr)
  obtain b where b: "adjust_order_book (lo_side x) (lo_price_ticks x) (- q) e1 = (Inr (), e1\<lparr>me_book := b\<rparr>)"
    "synced (e1\<lparr>me_book := b, me_orders := om'\<rparr>)"
    using fill_adjust [OF e x q(1) _ orders_ok_remove [OF ok i(1) c(2) sr] rest' e1(1)] q(2) by (metis order_refl)
  let ?m = "(new_mutation q x)\<lparr>mu_removal := removal_of om1 i empty_removal, mu_removed := True\<rparr>"
  have "fill_of e x q ?m (e1\<lparr>me_book := b, me_orders := om'\<rparr>)"
    unfolding fill_of_def
    using b(2) e1 q(2) qu queue_remove_head [OF wf c(2) qu i sr] undo_complete [OF wf i om1(1) c(2,5,6)] c(6) rest'
    by (simp add: om1(1) new_mutation_def)
  moreover have "remove_if_filled (lo_order_id x) (lo_order_id x) (new_mutation q x)
      (e1\<lparr>me_book := b, me_orders := om1\<rparr>) = (Inr (), ?m, e1\<lparr>me_book := b, me_orders := om'\<rparr>)"
    using find1 q(2) c(1) by (simp add: remove_if_filled_def is_filled_def new_mutation_def)
  ultimately show thesis using that b(1) by blast
qed

lemma fill_resting:
  assumes e: "synced e" and qu: "queue side (me_orders e) = x # xs"
    and q: "0 < q" "q \<le> lo_remaining_quantity x"
    and e1: "me_book e1 = me_book e" "me_orders e1 = me_orders e" "me_ids e1 = me_ids e"
      "me_next_sequence e1 = me_next_sequence e"
  obtains e2 m e3 where
    "adjust_order_book (lo_side x) (lo_price_ticks x) (- q) e1 = (Inr (), e2)" "me_orders e2 = me_orders e"
    "remove_if_filled (lo_order_id x) (lo_order_id x) (new_mutation q x)
       (e2\<lparr>me_orders := om_write_order (lo_order_id x)
             (\<lambda>o1. o1\<lparr>lo_remaining_quantity := lo_remaining_quantity o1 - q\<rparr>) (me_orders e2)\<rparr>) = (Inr (), m, e3)"
    "fill_of e x q m e3" "me_trades e3 = me_trades e1"
proof -
  let ?om = "me_orders e"
  have wf: "om_wf ?om" using syncedD(1) [OF e] by simp
  obtain i where i: "i < length (om_orders ?om)" "om_orders ?om ! i = x" "lo_side x = side"
    "om_indices ?om (lo_order_id x) = Some i"
    using queue_order_at [OF wf qu] by blast
  define om1 where "om1 = ?om\<lparr>om_orders := (om_orders ?om)[i := reduced q x]\<rparr>"
  have wr: "om_write_order (lo_order_id x) (\<lambda>o1. o1\<lparr>lo_remaining_quantity := lo_remaining_quantity o1 - q\<rparr>) ?om = om1"
    using i(2,4) by (simp add: om_write_order_def om1_def reduced_def)
  have wf1: "om_wf om1" using om_wf_write [OF wf i(1), of "reduced q x"] i(2) by (simp add: om1_def)
  have find1: "om_find_order om1 (lo_order_id x) = Some (reduced q x)"
    using i by (simp add: om_find_order_def om1_def)
  note qx = qu [folded i(3)]
  obtain b m om' where b: "adjust_order_book (lo_side x) (lo_price_ticks x) (- q) e1 = (Inr (), e1\<lparr>me_book := b\<rparr>)"
    "remove_if_filled (lo_order_id x) (lo_order_id x) (new_mutation q x) (e1\<lparr>me_book := b, me_orders := om1\<rparr>)
      = (Inr (), m, e1\<lparr>me_book := b, me_orders := om'\<rparr>)"
    "fill_of e x q m (e1\<lparr>me_book := b, me_orders := om'\<rparr>)"
    using fill_resting_part [OF e qx i(1,2) q(1) _ e1(1,3,4) om1_def wf1 find1]
      fill_resting_whole [OF e qx i(1,2) q(1) _ e1(1,3,4) om1_def wf1 find1] q(2) by (metis order_le_less)
  then show thesis using that [OF b(1), of m "e1\<lparr>me_book := b, me_orders := om'\<rparr>"] e1(2) wr by simp
qed

end
