(* ===== verification/Engine_Runs.thy ===== *)
theory Engine_Runs
  imports Engine_Fills
begin

text \<open>
  The matching loops against their specification. \<open>fill_queue\<close> is the reference: an aggressor of a
  given quantity eats the opposite queue from its head while the price is acceptable. \<open>fill_run\<close> is
  the relation between the engine before and after a number of fills, with the fills made and the
  journal kept; rule induction gives what every run has (synced states, trades recorded, a journal
  that leads back), and both loops of the code are shown to be runs that stop where \<open>fill_queue\<close> stops.
\<close>

subsection \<open>The reference\<close>

fun fill_queue ::
  "(int \<Rightarrow> bool) \<Rightarrow> int \<Rightarrow> limit_order list \<Rightarrow> int \<times> limit_order list \<times> (limit_order \<times> int) list" where
  "fill_queue acceptable n [] = (n, [], [])"
| "fill_queue acceptable n (x # xs) =
     (if n \<le> 0 \<or> \<not> acceptable (lo_price_ticks x) then (n, x # xs, [])
      else if n < lo_remaining_quantity x then (0, reduced n x # xs, [(x, n)])
      else case fill_queue acceptable (n - lo_remaining_quantity x) xs of
             (n', xs', fills) \<Rightarrow> (n', xs', (x, lo_remaining_quantity x) # fills))"

text \<open>The trade that a fill is recorded as.\<close>

definition trade_of :: "order_side \<Rightarrow> order_id option \<Rightarrow> limit_order \<times> int \<Rightarrow> trade \<Rightarrow> bool" where
  "trade_of side aggressor fill t \<longleftrightarrow>
     tr_aggressor_side t = side \<and> tr_price_ticks t = lo_price_ticks (fst fill) \<and> tr_quantity t = snd fill
     \<and> (case side of
          Buy \<Rightarrow> tr_buy_order_id t = aggressor \<and> tr_sell_order_id t = Some (lo_order_id (fst fill))
        | Sell \<Rightarrow> tr_sell_order_id t = aggressor \<and> tr_buy_order_id t = Some (lo_order_id (fst fill)))"

lemma fill_queue_total:
  assumes "\<forall>x \<in> set xs. order_ok x" "0 \<le> n" "fill_queue acc n xs = (n', xs', fills)"
  shows "0 \<le> n'" "n = n' + sum_list (map snd fills)"
    "\<forall>f \<in> set fills. 0 < snd f \<and> snd f \<le> lo_remaining_quantity (fst f) \<and> acc (lo_price_ticks (fst f))"
    "length fills \<le> length xs" "\<forall>f \<in> set fills. fst f \<in> set xs"
    "n' = 0 \<or> xs' = [] \<or> \<not> acc (lo_price_ticks (hd xs'))"
proof -
  have "0 \<le> n' \<and> n = n' + sum_list (map snd fills)
    \<and> (\<forall>f \<in> set fills. 0 < snd f \<and> snd f \<le> lo_remaining_quantity (fst f) \<and> acc (lo_price_ticks (fst f)))
    \<and> length fills \<le> length xs \<and> (\<forall>f \<in> set fills. fst f \<in> set xs)
    \<and> (n' = 0 \<or> xs' = [] \<or> \<not> acc (lo_price_ticks (hd xs')))"
    using assms
  proof (induction xs arbitrary: n n' xs' fills)
    case (Cons x xs)
    have x: "0 < lo_remaining_quantity x" using Cons.prems(1) order_okD(2) by simp
    consider "n \<le> 0 \<or> \<not> acc (lo_price_ticks x)" | "0 < n" "acc (lo_price_ticks x)" "n < lo_remaining_quantity x"
      | "0 < n" "acc (lo_price_ticks x)" "lo_remaining_quantity x \<le> n" by linarith
    then show ?case
    proof cases
      case 3
      obtain m ys fs where rec: "fill_queue acc (n - lo_remaining_quantity x) xs = (m, ys, fs)"
        by (metis prod_cases3)
      then have eq: "n' = m" "xs' = ys" "fills = (x, lo_remaining_quantity x) # fs" using 3 Cons.prems(3) by auto
      have "0 \<le> n - lo_remaining_quantity x" using 3 by simp
      from Cons.IH [OF _ this rec] Cons.prems(1) 3 x show ?thesis by (simp add: eq)
    qed (use Cons.prems in auto)
  qed auto
  then show "0 \<le> n'" "n = n' + sum_list (map snd fills)"
    "\<forall>f \<in> set fills. 0 < snd f \<and> snd f \<le> lo_remaining_quantity (fst f) \<and> acc (lo_price_ticks (fst f))"
    "length fills \<le> length xs" "\<forall>f \<in> set fills. fst f \<in> set xs"
    "n' = 0 \<or> xs' = [] \<or> \<not> acc (lo_price_ticks (hd xs'))"
    by blast+
qed

subsection \<open>Runs\<close>

definition aggressor_ids :: "order_side \<Rightarrow> order_id option \<Rightarrow> order_id \<Rightarrow> order_id option \<times> order_id option" where
  "aggressor_ids side aggressor resting_id =
     (case side of Buy \<Rightarrow> (aggressor, Some resting_id) | Sell \<Rightarrow> (Some resting_id, aggressor))"

inductive fill_run ::
  "(int \<Rightarrow> bool) \<Rightarrow> order_side \<Rightarrow> order_id option \<Rightarrow> int \<Rightarrow> matching_engine
   \<Rightarrow> (limit_order \<times> int) list \<Rightarrow> order_mutation list \<Rightarrow> int \<Rightarrow> matching_engine \<Rightarrow> bool"
  for acceptable :: "int \<Rightarrow> bool" and side :: order_side and aggressor :: "order_id option"
    and n :: int and e :: matching_engine where
  start: "fill_run acceptable side aggressor n e [] [] n e"
| fill: "fill_run acceptable side aggressor n e fills ms n1 e1 \<Longrightarrow> 0 < n1 \<Longrightarrow>
    queue (opposite side) (me_orders e1) = x # xs \<Longrightarrow> acceptable (lo_price_ticks x) \<Longrightarrow>
    q = min n1 (lo_remaining_quantity x) \<Longrightarrow>
    record_trade side (lo_price_ticks x) q (fst (aggressor_ids side aggressor (lo_order_id x)))
      (snd (aggressor_ids side aggressor (lo_order_id x))) (me_trades e1) = (Inr t, ts) \<Longrightarrow>
    fill_of e1 x q m e2 \<Longrightarrow> me_trades e2 = ts \<Longrightarrow>
    fill_run acceptable side aggressor n e (fills @ [(x, q)]) (ms @ [m]) (n1 - q) e2"

text \<open>What the rollback loops make of the journal of a run.\<close>

definition undoes :: "matching_engine \<Rightarrow> order_mutation list \<Rightarrow> matching_engine \<Rightarrow> bool" where
  "undoes e ms e' \<longleftrightarrow>
     (\<forall>c. me_orders c = me_orders e' \<longrightarrow> undo_orders (rev ms) c = (Inr (), c\<lparr>me_orders := me_orders e\<rparr>))
     \<and> (\<forall>c. me_orders c = me_orders e' \<longrightarrow> me_book c = me_book e' \<longrightarrow>
          undo_executions (rev ms) c = (Inr (), c\<lparr>me_orders := me_orders e, me_book := me_book e\<rparr>))"

lemma undoes_Nil: "undoes e [] e"
  by (simp add: undoes_def)

lemma fill_undone:
  assumes "synced e" "0 < q" "q \<le> lo_remaining_quantity x" "order_ok x" "fill_of e x q m e'"
    and "me_orders c = me_orders e'" "me_book c = me_book e'"
  shows "undo_execution m c = (Inr (), c\<lparr>me_orders := me_orders e, me_book := me_book e\<rparr>)"
proof -
  have m: "mu_side m = lo_side x" "mu_price_ticks m = lo_price_ticks x" "mu_executed_quantity m = q"
    "undo_order m (me_orders e') = (Inr (), me_orders e)" and e': "synced e'"
    using assms(5) by (simp_all add: fill_of_def)
  let ?c = "c\<lparr>me_orders := me_orders e\<rparr>"
  have "book_qty (me_book e) = (book_qty (me_book ?c))(lo_side x := (book_qty (me_book ?c) (lo_side x))
      (lo_price_ticks x := book_qty (me_book ?c) (lo_side x) (lo_price_ticks x) + q))"
    using assms(1,5,7) e' by (simp add: fill_of_def synced_def)
  moreover have "i64 q" using assms(2,3) order_okD(3) [OF assms(4)] by (simp add: i64_nonneg_iff)
  moreover have "0 \<le> lo_price_ticks x" using order_okD(1) [OF assms(4)] by simp
  ultimately have "adjust_order_book (lo_side x) (lo_price_ticks x) q ?c = (Inr (), ?c\<lparr>me_book := me_book e\<rparr>)"
    using syncedD(3) [OF assms(1)] syncedD(3) [OF e'] assms(7) by (intro adjust_back) simp_all
  then show ?thesis using m assms(6) by (simp add: undo_execution_def on_orders_def)
qed

lemma undoes_snoc:
  assumes "undoes e ms e1" "synced e1" "0 < q" "q \<le> lo_remaining_quantity x" "order_ok x" "fill_of e1 x q m e2"
  shows "undoes e (ms @ [m]) e2"
  unfolding undoes_def
proof (intro conjI allI impI)
  fix c :: matching_engine assume c: "me_orders c = me_orders e2"
  then have "on_orders (undo_order m) c = (Inr (), c\<lparr>me_orders := me_orders e1\<rparr>)"
    using assms(6) by (simp add: on_orders_def fill_of_def)
  from orders_log.undo_rev_snoc [OF this, of ms] assms(1)
  show "undo_orders (rev (ms @ [m])) c = (Inr (), c\<lparr>me_orders := me_orders e\<rparr>)"
    by (simp add: undoes_def)
next
  fix c :: matching_engine assume c: "me_orders c = me_orders e2" "me_book c = me_book e2"
  from executions_log.undo_rev_snoc [OF fill_undone [OF assms(2-6) c], of ms] assms(1)
  show "undo_executions (rev (ms @ [m])) c = (Inr (), c\<lparr>me_orders := me_orders e, me_book := me_book e\<rparr>)"
    by (simp add: undoes_def)
qed

text \<open>What every run from a synced engine has.\<close>

lemma queue_head_ok:
  "synced e \<Longrightarrow> queue side (me_orders e) = x # xs \<Longrightarrow> order_ok x \<and> lo_side x = side \<and> x \<in> set (om_orders (me_orders e))"
  using syncedD(2) [of e x] queue_mem [OF syncedD(1), of e x side] by simp

lemma fill_run_inv:
  assumes "fill_run acc side aggr n e fills ms n' e'" "synced e" "0 \<le> n"
  shows "synced e' \<and> 0 \<le> n' \<and> undoes e ms e' \<and> me_ids e' = me_ids e \<and> me_next_sequence e' = me_next_sequence e
    \<and> om_max_size (me_orders e') = om_max_size (me_orders e) \<and> ts_extends (me_trades e) (me_trades e')
    \<and> queue side (me_orders e') = queue side (me_orders e)"
  using assms
proof (induction rule: fill_run.induct)
  case start
  then show ?case by (simp add: undoes_Nil)
next
  case (fill fills ms n1 e1 x xs q t ts m e2)
  then have IH: "synced e1" "0 \<le> n1" "undoes e ms e1" "me_ids e1 = me_ids e" "me_next_sequence e1 = me_next_sequence e"
    "om_max_size (me_orders e1) = om_max_size (me_orders e)" "ts_extends (me_trades e) (me_trades e1)"
    "queue side (me_orders e1) = queue side (me_orders e)" by simp_all
  have x: "order_ok x" "lo_side x = opposite side" using queue_head_ok [OF IH(1) fill.hyps(3)] by simp_all
  have q: "0 < q" "q \<le> lo_remaining_quantity x" using fill.hyps(2,5) order_okD(2) [OF x(1)] by auto
  have "ts_extends (me_trades e) (me_trades e2)"
    using ts_extends_trans [OF IH(7) ts_extends_record [OF fill.hyps(6)]] fill.hyps(8) by simp
  then show ?case
    using undoes_snoc [OF IH(3,1) q x(1) fill.hyps(7)] fill.hyps(5,7) IH x(2) by (auto simp: fill_of_def)
qed

text \<open>A run is a prefix of what the reference does, and its fills are the trades it recorded.\<close>

lemma fill_run_queue:
  assumes "fill_run acc side aggr n e fills ms n' e'" "synced e" "0 \<le> n"
  shows "fill_queue acc n (queue (opposite side) (me_orders e)) =
    (case fill_queue acc n' (queue (opposite side) (me_orders e')) of (k, xs, fs) \<Rightarrow> (k, xs, fills @ fs))"
  using assms
proof (induction rule: fill_run.induct)
  case start
  then show ?case by (auto split: prod.splits)
next
  case (fill fills ms n1 e1 x xs q t ts m e2)
  have e1: "synced e1" using fill_run_inv [OF fill.hyps(1) fill.prems] by simp
  have x: "order_ok x" "lo_side x = opposite side" using queue_head_ok [OF e1 fill.hyps(3)] by simp_all
  have "fill_queue acc n1 (queue (opposite side) (me_orders e1)) =
    (case fill_queue acc (n1 - q) (queue (opposite side) (me_orders e2)) of (k, xs, fs) \<Rightarrow> (k, xs, (x, q) # fs))"
  proof (cases "n1 < lo_remaining_quantity x")
    case True
    then have "queue (opposite side) (me_orders e2) = reduced n1 x # xs" "q = n1"
      using fill.hyps(3,5,7) x(2) by (auto simp: fill_of_def)
    then show ?thesis using True fill.hyps(2-4) by simp
  next
    case False
    then have "queue (opposite side) (me_orders e2) = xs" "q = lo_remaining_quantity x"
      using fill.hyps(3,5,7) x(2) by (auto simp: fill_of_def)
    then show ?thesis using False fill.hyps(2-4) by simp
  qed
  then show ?case using fill.IH fill.prems by (auto split: prod.splits)
qed

lemma fill_run_trades:
  assumes "fill_run acc side aggr n e fills ms n' e'"
  shows "\<exists>new. ts_trades (me_trades e') = ts_trades (me_trades e) @ new \<and> list_all2 (trade_of side aggr) fills new"
  using assms
proof (induction rule: fill_run.induct)
  case start
  then show ?case by simp
next
  case (fill fills ms n1 e1 x xs q t ts m e2)
  then obtain new where new: "ts_trades (me_trades e1) = ts_trades (me_trades e) @ new"
    "list_all2 (trade_of side aggr) fills new" by blast
  have "trade_of side aggr (x, q) t"
    using record_trade_ok [OF fill.hyps(6)] by (cases side) (simp_all add: trade_of_def aggressor_ids_def)
  moreover have "ts_trades (me_trades e2) = ts_trades (me_trades e) @ (new @ [t])"
    using record_trade_ok(3) [OF fill.hyps(6)] fill.hyps(8) new(1) by simp
  ultimately show ?case using new(2) by (metis list_all2_appendI list_all2_Cons list_all2_Nil)
qed

subsection \<open>The limit order loop\<close>

definition limit_accepts :: "order_side \<Rightarrow> int \<Rightarrow> int \<Rightarrow> bool" where
  "limit_accepts side limit p = (case side of Buy \<Rightarrow> p \<le> limit | Sell \<Rightarrow> p \<ge> limit)"

definition nothing_acceptable :: "(int \<Rightarrow> bool) \<Rightarrow> limit_order list \<Rightarrow> bool" where
  "nothing_acceptable acceptable xs \<longleftrightarrow> (case xs of [] \<Rightarrow> True | x # _ \<Rightarrow> \<not> acceptable (lo_price_ticks x))"

lemma find_best_match_queue:
  assumes "om_wf (me_orders e)"
  shows "find_best_match inc e = (case queue (opposite (lo_side inc)) (me_orders e) of
      [] \<Rightarrow> None
    | x # _ \<Rightarrow> if limit_accepts (lo_side inc) (lo_price_ticks inc) (lo_price_ticks x)
              then Some (lo_order_id x) else None)"
  by (cases "lo_side inc") (simp_all add: find_best_match_def best_sell_order_def best_buy_order_def
      om_best_order_queue [OF assms] limit_accepts_def Let_def split: list.splits)

definition store_full :: "matching_engine \<Rightarrow> bool" where
  "store_full e \<longleftrightarrow> length (ts_trades (me_trades e)) \<ge> ts_max_size (me_trades e)"

lemma record_full:
  "store_full e \<Longrightarrow> 0 < p \<Longrightarrow> 0 < q \<Longrightarrow> record_trade s p q b sl (me_trades e) = (Inl Length_error, me_trades e)"
  by (simp add: record_trade_cases store_full_def)

lemma record_room:
  assumes "\<not> store_full e" "0 < p" "0 < q"
  obtains t ts where "record_trade s p q b sl (me_trades e) = (Inr t, ts)"
  using assms by (auto simp: record_trade_cases store_full_def Let_def)

lemma match_step_stop:
  assumes "synced e" "nothing_acceptable (limit_accepts (lo_side inc) (lo_price_ticks inc))
    (queue (opposite (lo_side inc)) (me_orders e))"
  shows "match_step inc ms e = (Inr False, inc, ms, e)"
  using assms find_best_match_queue [OF syncedD(1) [OF assms(1)], of inc]
  by (simp add: match_step_def nothing_acceptable_def split: list.splits)

lemma match_step_fill:
  assumes e: "synced e" and inc: "0 < lo_remaining_quantity inc"
    and qu: "queue (opposite (lo_side inc)) (me_orders e) = x # xs"
    and acc: "limit_accepts (lo_side inc) (lo_price_ticks inc) (lo_price_ticks x)"
  defines "q \<equiv> min (lo_remaining_quantity inc) (lo_remaining_quantity x)"
  defines "ids \<equiv> aggressor_ids (lo_side inc) (Some (lo_order_id inc)) (lo_order_id x)"
  shows "store_full e \<Longrightarrow> match_step inc ms e = (Inl Length_error, inc, ms @ [new_mutation q x], e)"
    and "\<not> store_full e \<Longrightarrow> \<exists>t ts m e'.
      record_trade (lo_side inc) (lo_price_ticks x) q (fst ids) (snd ids) (me_trades e) = (Inr t, ts)
      \<and> fill_of e x q m e' \<and> me_trades e' = ts
      \<and> match_step inc ms e = (Inr True, reduced q inc, ms @ [m], e')"
proof -
  have x: "order_ok x" "lo_side x = opposite (lo_side inc)" "x \<in> set (om_orders (me_orders e))"
    using queue_head_ok [OF e qu] by simp_all
  have pos: "0 < lo_price_ticks x" "0 < q" "q \<le> lo_remaining_quantity x"
    using order_okD(1,2) [OF x(1)] inc by (simp_all add: q_def)
  have find: "find_best_match inc e = Some (lo_order_id x)"
    "om_find_order (me_orders e) (lo_order_id x) = Some x"
    using find_best_match_queue [OF syncedD(1) [OF e], of inc] om_find_order_mem [OF syncedD(1) [OF e] x(3)] qu acc
    by simp_all
  have step: "match_step inc ms e = (case execute_limit_trade inc (lo_order_id x) x e of
      (Inl err, incoming1, e1) \<Rightarrow> (Inl err, incoming1, ms @ [new_mutation q x], e1)
    | (Inr _, incoming1, e1) \<Rightarrow>
        (case remove_if_filled (lo_order_id x) (lo_order_id x) (new_mutation q x) e1 of
           (Inl err, mutation1, e2) \<Rightarrow> (Inl err, incoming1, ms @ [mutation1], e2)
         | (Inr _, mutation1, e2) \<Rightarrow> (Inr True, incoming1, ms @ [mutation1], e2)))"
    unfolding match_step_def q_def Let_def using find by simp
  have ids: "(if lo_side inc = Buy then lo_order_id inc else lo_order_id x) = the (fst ids)"
    "(if lo_side inc = Sell then lo_order_id inc else lo_order_id x) = the (snd ids)"
    "Some (the (fst ids)) = fst ids" "Some (the (snd ids)) = snd ids"
    by (cases "lo_side inc"; simp add: ids_def aggressor_ids_def)+
  have exec: "execute_limit_trade inc (lo_order_id x) x e =
      (case record_trade (lo_side inc) (lo_price_ticks x) q (fst ids) (snd ids) (me_trades e) of
         (Inl err, ts) \<Rightarrow> (Inl err, inc, e\<lparr>me_trades := ts\<rparr>)
       | (Inr _, ts) \<Rightarrow>
           (case adjust_order_book (lo_side x) (lo_price_ticks x) (- q) (e\<lparr>me_trades := ts\<rparr>) of
              (Inl err, e1) \<Rightarrow> (Inl err, inc, e1)
            | (Inr _, e1) \<Rightarrow> (Inr (), reduced q inc,
                 e1\<lparr>me_orders := om_write_order (lo_order_id x)
                        (\<lambda>o1. o1\<lparr>lo_remaining_quantity := lo_remaining_quantity o1 - q\<rparr>) (me_orders e1)\<rparr>)))"
    unfolding execute_limit_trade_def Let_def ids q_def [symmetric] reduced_def ..
  show "match_step inc ms e = (Inl Length_error, inc, ms @ [new_mutation q x], e)" if "store_full e"
    using record_full [OF that pos(1,2)] by (simp add: step exec)
  show "\<exists>t ts m e'.
      record_trade (lo_side inc) (lo_price_ticks x) q (fst ids) (snd ids) (me_trades e) = (Inr t, ts)
      \<and> fill_of e x q m e' \<and> me_trades e' = ts
      \<and> match_step inc ms e = (Inr True, reduced q inc, ms @ [m], e')" if "\<not> store_full e"
  proof -
    obtain t ts where rec: "record_trade (lo_side inc) (lo_price_ticks x) q (fst ids) (snd ids) (me_trades e) = (Inr t, ts)"
      using record_room [OF \<open>\<not> store_full e\<close> pos(1,2)] by blast
    obtain e2 m e3 where f: "adjust_order_book (lo_side x) (lo_price_ticks x) (- q) (e\<lparr>me_trades := ts\<rparr>) = (Inr (), e2)"
      "remove_if_filled (lo_order_id x) (lo_order_id x) (new_mutation q x)
       (e2\<lparr>me_orders := om_write_order (lo_order_id x)
             (\<lambda>o1. o1\<lparr>lo_remaining_quantity := lo_remaining_quantity o1 - q\<rparr>) (me_orders e2)\<rparr>) = (Inr (), m, e3)"
      "fill_of e x q m e3" "me_trades e3 = me_trades (e\<lparr>me_trades := ts\<rparr>)"
      by (rule fill_resting [OF e qu pos(2,3), of "e\<lparr>me_trades := ts\<rparr>"]) (simp, simp, simp, simp, blast)
    then show ?thesis using rec by (simp add: step exec)
  qed
qed

lemma match_loop_run:
  assumes "match_loop inc ms e0 = (r, inc', ms', e')"
    and "fill_run (limit_accepts (lo_side inc) (lo_price_ticks inc)) (lo_side inc) (Some (lo_order_id inc))
           n e fills ms (lo_remaining_quantity inc) e0" "synced e" "0 \<le> n"
  shows "\<exists>fills' js n'. fill_run (limit_accepts (lo_side inc) (lo_price_ticks inc)) (lo_side inc)
       (Some (lo_order_id inc)) n e fills' js n' e' \<and> inc' = inc\<lparr>lo_remaining_quantity := n'\<rparr>
    \<and> (r = Inr () \<longrightarrow> ms' = js \<and> (n' = 0 \<or> nothing_acceptable (limit_accepts (lo_side inc) (lo_price_ticks inc))
          (queue (opposite (lo_side inc)) (me_orders e'))))
    \<and> (\<forall>err. r = Inl err \<longrightarrow> err = Length_error \<and> 0 < n' \<and> store_full e'
           \<and> (\<exists>x xs. queue (opposite (lo_side inc)) (me_orders e') = x # xs
                \<and> limit_accepts (lo_side inc) (lo_price_ticks inc) (lo_price_ticks x)
                \<and> ms' = js @ [new_mutation (min n' (lo_remaining_quantity x)) x]))"
  using assms
proof (induction inc ms e0 arbitrary: fills rule: match_loop.induct)
  case (1 inc ms e0)
  let ?acc = "limit_accepts (lo_side inc) (lo_price_ticks inc)"
  have e0: "synced e0" "0 \<le> lo_remaining_quantity inc" using fill_run_inv [OF "1.prems"(2-4)] by simp_all
  show ?case
  proof (cases "0 < lo_remaining_quantity inc")
    case False
    then have "lo_remaining_quantity inc = 0" "r = Inr ()" "inc' = inc" "ms' = ms" "e' = e0"
      using "1.prems"(1) e0(2) by (simp_all add: match_loop.simps)
    then show ?thesis using "1.prems"(2) by (intro exI [of _ fills] exI [of _ ms] exI [of _ 0]) simp
  next
    case pos: True
    show ?thesis
    proof (cases "nothing_acceptable ?acc (queue (opposite (lo_side inc)) (me_orders e0))")
      case True
      then have "r = Inr ()" "inc' = inc" "ms' = ms" "e' = e0"
        using "1.prems"(1) pos match_step_stop [OF e0(1) True, of ms] by (simp_all add: match_loop.simps)
      then show ?thesis using "1.prems"(2) True
        by (intro exI [of _ fills] exI [of _ ms] exI [of _ "lo_remaining_quantity inc"]) simp
    next
      case False
      then obtain x xs where qu: "queue (opposite (lo_side inc)) (me_orders e0) = x # xs"
        and acc: "?acc (lo_price_ticks x)" by (auto simp: nothing_acceptable_def split: list.splits)
      let ?q = "min (lo_remaining_quantity inc) (lo_remaining_quantity x)"
      note step = match_step_fill [OF e0(1) pos qu acc, of ms]
      show ?thesis
      proof (cases "store_full e0")
        case True
        then have "r = Inl Length_error" "inc' = inc" "ms' = ms @ [new_mutation ?q x]" "e' = e0"
          using "1.prems"(1) pos step(1) by (auto simp: match_loop.simps)
        then show ?thesis using "1.prems"(2) pos qu acc True
          by (intro exI [of _ fills] exI [of _ ms] exI [of _ "lo_remaining_quantity inc"]) simp
      next
        case False
        then obtain t ts m e1 where f:
          "record_trade (lo_side inc) (lo_price_ticks x) ?q
             (fst (aggressor_ids (lo_side inc) (Some (lo_order_id inc)) (lo_order_id x)))
             (snd (aggressor_ids (lo_side inc) (Some (lo_order_id inc)) (lo_order_id x))) (me_trades e0) = (Inr t, ts)"
          "fill_of e0 x ?q m e1" "me_trades e1 = ts"
          "match_step inc ms e0 = (Inr True, reduced ?q inc, ms @ [m], e1)"
          using step(2) by blast
        have run: "fill_run ?acc (lo_side inc) (Some (lo_order_id inc)) n e (fills @ [(x, ?q)]) (ms @ [m])
            (lo_remaining_quantity inc - ?q) e1"
          by (rule fill_run.fill [OF "1.prems"(2) pos qu acc refl f(1-3)])
        have loop: "match_loop (reduced ?q inc) (ms @ [m]) e1 = (r, inc', ms', e')"
          using "1.prems"(1) pos f(4) by (simp add: match_loop.simps)
        show ?thesis
          using "1.IH" [OF pos f(4) [symmetric] refl refl refl TrueI, of "fills @ [(x, ?q)]"] loop run "1.prems"(3,4)
          by simp
      qed
    qed
  qed
qed

end
