(* ===== verification/Limit_Orders.thy ===== *)
theory Limit_Orders
  imports Engine_Runs
begin

text \<open>
  Placing and cancelling limit orders. A placed order first eats the opposite queue as \<open>fill_queue\<close>
  says and then rests with what is left of it; an operation that throws leaves the engine exactly as
  it found it; the engine invariant, which includes that the book is never crossed, is kept.
\<close>

subsection \<open>The engine invariant\<close>

definition uncrossed :: "limit_order list \<Rightarrow> bool" where
  "uncrossed orders \<longleftrightarrow> (\<forall>x \<in> set orders. \<forall>y \<in> set orders.
     lo_side x = Buy \<longrightarrow> lo_side y = Sell \<longrightarrow> lo_price_ticks x < lo_price_ticks y)"

definition engine_inv :: "matching_engine \<Rightarrow> bool" where
  "engine_inv e \<longleftrightarrow> orders_ok (me_orders e) \<and> book_ok (me_book e)
     \<and> (om_orders (me_orders e) \<noteq> [] \<longrightarrow> synced e)
     \<and> uncrossed (om_orders (me_orders e)) \<and> ts_ok (me_trades e)
     \<and> next_order_id (me_ids e) \<noteq> 0
     \<and> (\<forall>x \<in> set (om_orders (me_orders e)). lo_order_id x < next_order_id (me_ids e))"

lemma engine_inv_new: "book_ok book \<Longrightarrow> engine_inv (new_engine max_orders max_trades book)"
  by (simp add: engine_inv_def new_engine_def orders_ok_def uncrossed_def) (simp add: new_order_manager_def)

subsection \<open>The best level is the head of the queue\<close>

lemma resting_in_pos_iff:
  assumes "\<forall>x \<in> set xs. order_ok x"
  shows "0 < resting_in xs side p \<longleftrightarrow> (\<exists>x \<in> set xs. lo_side x = side \<and> lo_price_ticks x = p)"
  using assms
proof (induction xs)
  case (Cons x xs)
  then have "0 < lo_remaining_quantity x" "0 \<le> resting_in xs side p"
    using order_okD(2) resting_in_nonneg by auto
  with Cons show ?case by auto
qed simp

lemma synced_level_iff:
  assumes "synced e"
  shows "p \<in> pl_price_ticks ` set (side_levels side (me_book e)) \<longleftrightarrow>
    (\<exists>x \<in> set (queue side (me_orders e)). lo_price_ticks x = p)"
proof -
  have ok: "\<exists>before. levels_ok before (side_levels side (me_book e))"
    using syncedD(3) [OF assms] by (cases side) (auto simp: book_ok_sides)
  then have "p \<in> pl_price_ticks ` set (side_levels side (me_book e)) \<longleftrightarrow> 0 < book_qty (me_book e) side p"
    unfolding book_qty_def using level_qty_pos level_qty_notin by (metis less_irrefl)
  also have "\<dots> \<longleftrightarrow> (\<exists>x \<in> set (om_orders (me_orders e)). lo_side x = side \<and> lo_price_ticks x = p)"
    using resting_in_pos_iff syncedD(2,4) [OF assms] by (metis (no_types, lifting))
  finally show ?thesis using queue_mem [OF syncedD(1) [OF assms]] by blast
qed

lemma better_price_antisym: "better_price side p q \<Longrightarrow> \<not> better_price side q p"
  by (cases side) (simp_all add: better_price_def)

lemma levels_head:
  "book_ok book \<Longrightarrow> side_levels side book = l # ls \<Longrightarrow> m \<in> set ls \<Longrightarrow>
     better_price side (pl_price_ticks l) (pl_price_ticks m)"
  by (cases side) (auto simp: book_ok_sides levels_ok_Cons better_price_def)

lemma queue_head_best:
  assumes "om_wf om" "queue side om = x # xs" "y \<in> set xs"
  shows "better_price side (lo_price_ticks x) (lo_price_ticks y) \<or> lo_price_ticks x = lo_price_ticks y"
  using queue_sorted [OF assms(1), of side] assms(2,3)
  by (auto simp: before_order_def priority_compare_iff)

lemma best_level_is_queue_head:
  assumes "synced e"
  shows "map_option pl_price_ticks (case side_levels side (me_book e) of [] \<Rightarrow> None | l # _ \<Rightarrow> Some l)
    = map_option lo_price_ticks (om_best_order side (me_orders e))"
proof -
  note iff = synced_level_iff [OF assms, of _ side]
  show ?thesis
  proof (cases "side_levels side (me_book e)")
    case Nil
    then have "queue side (me_orders e) = []" using iff by (cases "queue side (me_orders e)") auto
    then show ?thesis using Nil by (simp add: om_best_order_queue [OF syncedD(1) [OF assms]])
  next
    case (Cons l ls)
    then obtain y where y: "y \<in> set (queue side (me_orders e))" "lo_price_ticks y = pl_price_ticks l"
      using iff [of "pl_price_ticks l"] by auto
    then obtain x xs where q: "queue side (me_orders e) = x # xs" by (cases "queue side (me_orders e)") auto
    have "better_price side (lo_price_ticks x) (pl_price_ticks l) \<or> lo_price_ticks x = pl_price_ticks l"
      using queue_head_best [OF syncedD(1) [OF assms] q, of y] y q by auto
    moreover have "lo_price_ticks x \<in> pl_price_ticks ` set (l # ls)" using iff [of "lo_price_ticks x"] q Cons by auto
    then have "better_price side (pl_price_ticks l) (lo_price_ticks x) \<or> lo_price_ticks x = pl_price_ticks l"
      using levels_head [OF syncedD(3) [OF assms] Cons] by auto
    ultimately have "lo_price_ticks x = pl_price_ticks l" using better_price_antisym by blast
    then show ?thesis using Cons q by (simp add: om_best_order_queue [OF syncedD(1) [OF assms]])
  qed
qed

lemma crosses_iff_queue:
  assumes "synced e"
  shows "crosses_order_book side p e \<longleftrightarrow>
    \<not> nothing_acceptable (limit_accepts side p) (queue (opposite side) (me_orders e))"
  using best_level_is_queue_head [OF assms, of "opposite side"] om_best_order_queue [OF syncedD(1) [OF assms], of "opposite side"]
  by (cases side) (auto simp: crosses_order_book_def best_ask_def best_bid_def side_levels_def
      nothing_acceptable_def limit_accepts_def split: list.splits)

subsection \<open>Rolling back a placement\<close>

text \<open>
  A journal entry that was pushed for a trade which then was not recorded: undoing it in the manager
  is a write of the value that is already there.
\<close>

lemma undo_unfilled:
  assumes "om_wf om" "x \<in> set (om_orders om)"
  shows "undo_order (new_mutation q x) om = (Inr (), om)"
proof -
  obtain i where i: "i < length (om_orders om)" "om_orders om ! i = x" using assms(2) by (auto simp: in_set_conv_nth)
  then have "om_indices om (lo_order_id x) = Some i" using om_wf_nth_index [OF assms(1)] by blast
  then show ?thesis
    using i(2) [symmetric] by (simp add: undo_order_def new_mutation_def om_find_order_def om_write_order_def)
qed

lemma undo_orders_unfilled:
  assumes "om_wf (me_orders c)" "x \<in> set (om_orders (me_orders c))"
  shows "undo_orders (rev (ms @ [new_mutation q x])) c = undo_orders (rev ms) c"
proof -
  have "on_orders (undo_order (new_mutation q x)) c = (Inr (), c)"
    by (simp add: on_orders_def undo_unfilled [OF assms])
  from orders_log.undo_rev_snoc [OF this] show ?thesis .
qed

lemma place_rollback_eq:
  assumes "undo_orders (rev ms) c = (Inr (), c\<lparr>me_orders := om\<rparr>)" "ts_extends ts (me_trades c)"
  shows "place_rollback err (checkpoint ts) False i ms c = (Inl err, c\<lparr>me_orders := om, me_trades := ts\<rparr>)"
  using rollback_checkpoint [OF assms(2)] by (simp add: place_rollback_def assms(1) on_trades_def)

lemma cancel_after_add:
  assumes "om_wf om" "om_add_order x om = (Inr (), om')"
  shows "om_cancel_order (lo_order_id x) om' = (Inr True, om)"
proof -
  have ok: "order_valid x" "lo_order_id x \<notin> lo_order_id ` set (om_orders om)" "length (om_orders om) < om_max_size om"
    using om_add_order_fails(2) [OF assms(1), of x] assms(2) by auto
  obtain om1 where om1: "om_add_order x om = (Inr (), om1)" "om_wf om1" "om_orders om1 = om_orders om @ [x]"
    "om_max_size om1 = om_max_size om"
    using om_add_order_ok [OF assms(1) ok] by blast
  then have "om1 = om'" using assms(2) by simp
  have "om_find_order om' (lo_order_id x) = Some x"
    using om1 \<open>om1 = om'\<close> om_find_order_Some_iff [of om'] by simp
  then obtain i om2 where c: "om_cancel_order (lo_order_id x) om' = (Inr True, om2)" "om_wf om2"
    "i < length (om_orders om')" "om_orders om' ! i = x" "om_orders om2 = swap_remove i (om_orders om')"
    "om_max_size om2 = om_max_size om'"
    using om_cancel_order_ok om1(2) \<open>om1 = om'\<close> by metis
  have "om_orders om' ! length (om_orders om) = x" "length (om_orders om) < length (om_orders om')"
    using om1(3) \<open>om1 = om'\<close> by simp_all
  then have "i = length (om_orders om)"
    using c(3,4) om_wf_distinct [OF om1(2)] \<open>om1 = om'\<close> nth_eq_iff_index_eq by (metis length_map nth_map)
  then have "om_orders om2 = om_orders om"
    using c(5) om1(3) \<open>om1 = om'\<close> by (simp add: swap_remove_def)
  then have "om2 = om" using om_wf_ext [OF c(2) assms(1)] c(6) om1(4) \<open>om1 = om'\<close> by simp
  then show ?thesis using c(1) by simp
qed

lemma place_rollback_added:
  assumes "om_wf om1" "om_add_order x om1 = (Inr (), me_orders c)"
    and "undo_orders (rev ms) (c\<lparr>me_orders := om1\<rparr>) = (Inr (), c\<lparr>me_orders := om\<rparr>)" "ts_extends ts (me_trades c)"
  shows "place_rollback err (checkpoint ts) True (lo_order_id x) ms c = (Inl err, c\<lparr>me_orders := om, me_trades := ts\<rparr>)"
  using rollback_checkpoint [OF assms(4)] cancel_after_add [OF assms(1,2)] assms(3)
  by (simp add: place_rollback_def on_trades_def on_orders_def)

text \<open>What the inner \<open>try\<close> block does to a synced engine.\<close>

definition keeps_orders :: "matching_engine \<Rightarrow> matching_engine \<Rightarrow> bool" where
  "keeps_orders e e' \<longleftrightarrow> (\<exists>b. e' = e\<lparr>me_book := b\<rparr>)"

text \<open>What can become of a remainder that is to rest: refused by the manager, refused by the book, or resting.\<close>

lemma add_adjust_cases:
  assumes "om_wf (me_orders e)"
  obtains (refused) err where "om_add_order x (me_orders e) = (Inl err, me_orders e)"
  | (overflow) err om where "om_add_order x (me_orders e) = (Inr (), om)"
      "adjust_order_book (lo_side x) (lo_price_ticks x) (lo_remaining_quantity x) (e\<lparr>me_orders := om\<rparr>)
        = (Inl err, e\<lparr>me_orders := om\<rparr>)"
  | (rests) om e' where "om_add_order x (me_orders e) = (Inr (), om)"
      "adjust_order_book (lo_side x) (lo_price_ticks x) (lo_remaining_quantity x) (e\<lparr>me_orders := om\<rparr>) = (Inr (), e')"
proof -
  obtain ra om where add: "om_add_order x (me_orders e) = (ra, om)" by fastforce
  obtain rb e' where adj: "adjust_order_book (lo_side x) (lo_price_ticks x) (lo_remaining_quantity x)
      (e\<lparr>me_orders := om\<rparr>) = (rb, e')" by fastforce
  show thesis
  proof (cases ra)
    case (Inl err)
    then show ?thesis using refused add om_add_order_fails(1) [OF assms] by blast
  next
    case (Inr u)
    then have added: "om_add_order x (me_orders e) = (Inr (), om)" using add by simp
    show ?thesis
    proof (cases rb)
      case (Inl err)
      then show ?thesis using overflow [OF added, of err] adj adjust_order_book_fails by blast
    next
      case (Inr v)
      then show ?thesis using rests [OF added, of e'] adj by simp
    qed
  qed
qed

lemma place_match_fails:
  assumes e: "synced e" and inc: "0 \<le> lo_remaining_quantity inc"
    and fails: "place_match inc (checkpoint (me_trades e)) e = (Inl err, e')"
  shows "keeps_orders e e'"
proof -
  obtain r inc1 ms e1 where loop: "match_loop inc [] e = (r, inc1, ms, e1)" by (metis prod_cases4)
  obtain fills js n where run: "fill_run (limit_accepts (lo_side inc) (lo_price_ticks inc)) (lo_side inc)
      (Some (lo_order_id inc)) (lo_remaining_quantity inc) e fills js n e1"
    and inc1: "inc1 = inc\<lparr>lo_remaining_quantity := n\<rparr>"
    and ok: "r = Inr () \<Longrightarrow> ms = js"
    and bad: "\<And>err. r = Inl err \<Longrightarrow> \<exists>x xs. queue (opposite (lo_side inc)) (me_orders e1) = x # xs
        \<and> ms = js @ [new_mutation (min n (lo_remaining_quantity x)) x]"
    using match_loop_run [OF loop fill_run.start e inc] by blast
  have inv: "synced e1" "undoes e js e1" "me_ids e1 = me_ids e" "me_next_sequence e1 = me_next_sequence e"
    "ts_extends (me_trades e) (me_trades e1)"
    using fill_run_inv [OF run e inc] by simp_all
  have undone: "undo_orders (rev js) c = (Inr (), c\<lparr>me_orders := me_orders e\<rparr>)" if "me_orders c = me_orders e1" for c
    using inv(2) that by (simp add: undoes_def)
  have kept: "keeps_orders e (c\<lparr>me_orders := me_orders e, me_trades := me_trades e\<rparr>)"
    if "me_ids c = me_ids e" "me_next_sequence c = me_next_sequence e" for c
    unfolding keeps_orders_def using that by (intro exI [of _ "me_book c"]) (cases c, cases e, simp)
  show ?thesis
  proof (cases r)
    case (Inl err0)
    then obtain x xs where x: "queue (opposite (lo_side inc)) (me_orders e1) = x # xs"
      "ms = js @ [new_mutation (min n (lo_remaining_quantity x)) x]" using bad by blast
    have "x \<in> set (om_orders (me_orders e1))" using queue_head_ok [OF inv(1) x(1)] by simp
    then have "undo_orders (rev ms) e1 = (Inr (), e1\<lparr>me_orders := me_orders e\<rparr>)"
      using undo_orders_unfilled [OF syncedD(1) [OF inv(1)]] undone x(2) by simp
    then show ?thesis
      using fails loop Inl place_rollback_eq [OF _ inv(5)] kept [OF inv(3,4)] by (auto simp: place_match_def Let_def)
  next
    case (Inr u)
    then have js: "ms = js" "r = Inr ()" using ok by auto
    then have unfilled: "\<not> is_filled inc1" using fails loop by (auto simp: place_match_def Let_def)
    from syncedD(1) [OF inv(1)] show ?thesis
    proof (cases rule: add_adjust_cases [of e1 inc1])
      case (refused err0)
      then have "place_match inc (checkpoint (me_trades e)) e
          = place_rollback err0 (checkpoint (me_trades e)) False (lo_order_id inc) js e1"
        using loop js unfilled by (simp add: place_match_def Let_def on_orders_def)
      then show ?thesis using fails place_rollback_eq [OF undone [OF refl] inv(5)] kept [OF inv(3,4)] by auto
    next
      case (overflow err1 om2)
      let ?e2 = "e1\<lparr>me_orders := om2\<rparr>"
      have "place_match inc (checkpoint (me_trades e)) e
          = place_rollback err1 (checkpoint (me_trades e)) True (lo_order_id inc) js ?e2"
        using loop js unfilled overflow by (simp add: place_match_def Let_def on_orders_def)
      moreover have "place_rollback err1 (checkpoint (me_trades e)) True (lo_order_id inc1) js ?e2
          = (Inl err1, ?e2\<lparr>me_orders := me_orders e, me_trades := me_trades e\<rparr>)"
        using place_rollback_added [OF syncedD(1) [OF inv(1)], of inc1 ?e2 js "me_orders e" "me_trades e" err1] overflow
          undone [of "?e2\<lparr>me_orders := me_orders e1\<rparr>"] inv(5) by simp
      ultimately show ?thesis using fails kept [of ?e2] inv(3,4) inc1 by auto
    next
      case (rests om2 e3)
      then show ?thesis using fails loop js unfilled by (simp add: place_match_def Let_def on_orders_def)
    qed
  qed
qed

subsection \<open>A placement that throws changes nothing\<close>

lemma engine_eqI:
  "me_book a = me_book b \<Longrightarrow> me_ids a = me_ids b \<Longrightarrow> me_next_sequence a = me_next_sequence b \<Longrightarrow>
   me_orders a = me_orders b \<Longrightarrow> me_trades a = me_trades b \<Longrightarrow> a = (b :: matching_engine)"
  by (cases a; cases b) simp

text \<open>
  The engine that the body of \<open>place_limit_order\<close> works on: the caller's, with the book cleared when
  the order is the first local one.
\<close>

definition place_start :: "matching_engine \<Rightarrow> matching_engine" where
  "place_start e = (if om_orders (me_orders e) = []
     then e\<lparr>me_book := replace_normalized_snapshot [] [] (me_book e)\<rparr> else e)"

lemma place_start_synced:
  assumes "engine_inv e"
  shows "synced (place_start e)" "me_orders (place_start e) = me_orders e" "me_ids (place_start e) = me_ids e"
    "me_next_sequence (place_start e) = me_next_sequence e" "me_trades (place_start e) = me_trades e"
proof -
  have "replace_normalized_snapshot [] [] b = empty_book" for b
    by (cases b) (simp add: replace_normalized_snapshot_def empty_book_def)
  then show "synced (place_start e)"
    using assms by (auto simp: place_start_def engine_inv_def synced_def fun_eq_iff)
qed (simp_all add: place_start_def)

lemma place_catch_restores:
  assumes "me_orders c = me_orders e" "me_trades c = me_trades e"
    and "bk = Some (me_book e) \<or> bk = None \<and> \<not> adj \<and> me_book c = me_book e
      \<or> bk = None \<and> adj \<and> adjust_order_book side p (- q) (c\<lparr>me_ids := me_ids e, me_next_sequence := me_next_sequence e\<rparr>)
          = (Inr (), e)"
  shows "place_catch side p q (me_ids e) (me_next_sequence e) bk adj err c = (Inl err, e)"
  using assms by (auto simp: place_catch_def Let_def intro: engine_eqI)

lemma place_level_undone:
  assumes book: "book_ok (me_book c)" and p: "0 < p" and q: "0 < q" "q \<le> INT64_MAX"
    and adj: "adjust_order_book side p q c = (Inr (), c2)" and d: "me_book d = me_book c2"
  shows "adjust_order_book side p (- q) d = (Inr (), d\<lparr>me_book := me_book c\<rparr>)"
proof -
  have qi: "i64 q" "i64 (- q)" using q by (simp_all add: i64_def INT64_MIN_eq)
  have b: "me_book c2 = put_level side p (book_qty (me_book c) side p + q) (me_book c)"
    "0 \<le> book_qty (me_book c) side p + q" "book_qty (me_book c) side p + q \<le> INT64_MAX"
    using adj adjust_order_book_eq [of c p q side] book p qi by (auto simp: Let_def split: if_splits)
  note pl = put_level_ok [OF book, of p "book_qty (me_book c) side p + q" side]
  show ?thesis using pl b d p qi(2) book by (intro adjust_back) auto
qed

lemma place_with_id_fails:
  assumes e: "engine_inv e" and i64: "0 < p" "0 < q" "q \<le> INT64_MAX"
    and c: "c = (place_start e)\<lparr>me_ids := ids\<rparr>"
    and bk: "bk = (if om_orders (me_orders e) = [] then Some (me_book e) else None)"
    and fails: "place_with_id side p q (me_ids e) (me_next_sequence e) bk i c = (Inl err, e')"
  shows "e' = e"
proof -
  note start = place_start_synced [OF e]
  let ?inc = "\<lparr>lo_order_id = i, lo_side = side, lo_price_ticks = p, lo_original_quantity = q,
      lo_remaining_quantity = q, lo_sequence_number = me_next_sequence c\<rparr>"
  let ?c1 = "c\<lparr>me_next_sequence := me_next_sequence c + 1\<rparr>"
  have c1: "synced ?c1" using start c by simp
  have book: "me_book c = me_book e" if "bk = None" using that bk c by (auto simp: place_start_def)
  have bk_cases: "bk = Some (me_book e) \<or> bk = None" using bk by auto
  show ?thesis
  proof (cases "crosses_order_book side p ?c1")
    case True
    obtain err1 c2 where m: "place_match ?inc (checkpoint (me_trades ?c1)) ?c1 = (Inl err1, c2)"
      "(Inl err, e') = place_catch side p q (me_ids e) (me_next_sequence e)
         (case bk of None \<Rightarrow> Some (me_book ?c1) | Some b \<Rightarrow> Some b) False err1 c2"
      using fails True by (auto simp: place_with_id_def Let_def split: prod.splits sum.splits)
    obtain b where "c2 = ?c1\<lparr>me_book := b\<rparr>"
      using place_match_fails [OF c1 _ m(1)] i64 by (auto simp: keeps_orders_def)
    then have "place_catch side p q (me_ids e) (me_next_sequence e)
         (case bk of None \<Rightarrow> Some (me_book ?c1) | Some b \<Rightarrow> Some b) False err1 c2 = (Inl err1, e)"
      using start c book bk_cases by (intro place_catch_restores) auto
    then show ?thesis using m(2) by simp
  next
    case False
    obtain r c2 where adj: "adjust_order_book side p q ?c1 = (r, c2)" by fastforce
    show ?thesis
    proof (cases r)
      case (Inl err1)
      then have "c2 = ?c1" using adj adjust_order_book_fails by blast
      moreover have "(Inl err, e') = place_catch side p q (me_ids e) (me_next_sequence e) bk False err1 c2"
        using fails False adj Inl by (simp add: place_with_id_def Let_def)
      moreover have "place_catch side p q (me_ids e) (me_next_sequence e) bk False err1 ?c1 = (Inl err1, e)"
        using start c book bk_cases by (intro place_catch_restores) auto
      ultimately show ?thesis by simp
    next
      case (Inr u)
      then obtain b where b: "c2 = ?c1\<lparr>me_book := b\<rparr>"
        using adj by (auto simp: adjust_order_book_def split: prod.splits)
      obtain ra om where add: "om_add_order ?inc (me_orders c) = (ra, om)" by fastforce
      then obtain err1 where ra: "ra = Inl err1"
        using fails False adj Inr b by (cases ra) (auto simp: place_with_id_def Let_def on_orders_def)
      then have "om = me_orders c" using om_add_order_fails(1) add syncedD(1) [OF c1] by auto
      then have "(Inl err, e') = place_catch side p q (me_ids e) (me_next_sequence e) bk True err1 c2"
        using fails False adj Inr b add ra by (simp add: place_with_id_def Let_def on_orders_def)
      moreover have "adjust_order_book side p (- q) (c2\<lparr>me_ids := me_ids e, me_next_sequence := me_next_sequence e\<rparr>)
          = (Inr (), e)" if "bk = None"
      proof -
        let ?d = "c2\<lparr>me_ids := me_ids e, me_next_sequence := me_next_sequence e\<rparr>"
        have "adjust_order_book side p (- q) ?d = (Inr (), ?d\<lparr>me_book := me_book ?c1\<rparr>)"
          using place_level_undone [OF syncedD(3) [OF c1] i64, of side c2 ?d] adj Inr by simp
        also have "?d\<lparr>me_book := me_book ?c1\<rparr> = e"
          using b c start book [OF that] by (intro engine_eqI) auto
        finally show ?thesis .
      qed
      ultimately show ?thesis using place_catch_restores [of c2 e bk True side p q err1] b c start bk_cases by auto
    qed
  qed
qed

lemma place_limit_order_eq:
  assumes "0 < p" "0 < q"
  shows "place_limit_order side p q e = (case generator_next (me_ids e) of
      (Inl err, ids) \<Rightarrow> place_catch side p q (me_ids e) (me_next_sequence e)
        (if om_orders (me_orders e) = [] then Some (me_book e) else None) False err ((place_start e)\<lparr>me_ids := ids\<rparr>)
    | (Inr i, ids) \<Rightarrow> place_with_id side p q (me_ids e) (me_next_sequence e)
        (if om_orders (me_orders e) = [] then Some (me_book e) else None) i ((place_start e)\<lparr>me_ids := ids\<rparr>))"
  unfolding place_limit_order_def place_start_def Let_def using assms
  by (cases "om_orders (me_orders e) = []") simp_all

lemma place_limit_order_fails:
  assumes "engine_inv e" "i64 q" "place_limit_order side p q e = (Inl err, e')"
  shows "e' = e"
proof (cases "0 < p \<and> 0 < q")
  case False
  then show ?thesis using assms(3) by (cases "validate_limit_order p q") (auto simp: place_limit_order_def validate_Inr_iff)
next
  case True
  let ?bk = "if om_orders (me_orders e) = [] then Some (me_book e) else None"
  note start = place_start_synced [OF assms(1)]
  note op = place_limit_order_eq [OF conjunct1 [OF True] conjunct2 [OF True], of side e]
  obtain r ids where gen: "generator_next (me_ids e) = (r, ids)" by fastforce
  show ?thesis
  proof (cases r)
    case (Inl err1)
    have "place_catch side p q (me_ids e) (me_next_sequence e) ?bk False err1 ((place_start e)\<lparr>me_ids := ids\<rparr>) = (Inl err1, e)"
      using start by (intro place_catch_restores) (auto simp: place_start_def)
    then show ?thesis using assms(3) gen Inl by (simp add: op)
  next
    case (Inr i)
    then show ?thesis
      using assms(2,3) True gen place_with_id_fails [OF assms(1) _ _ _ refl refl, where p = p and q = q and side = side
        and ids = ids and i = i and err = err and e' = e']
      by (simp add: op i64_def)
  qed
qed

subsection \<open>An order comes to rest\<close>

definition enqueue :: "order_side \<Rightarrow> limit_order \<Rightarrow> limit_order list \<Rightarrow> limit_order list" where
  "enqueue side x xs = filter (\<lambda>y. before_order side y x) xs @ x # filter (\<lambda>y. \<not> before_order side y x) xs"

lemma before_order_trans: "before_order side x y \<Longrightarrow> before_order side y z \<Longrightarrow> before_order side x z"
  unfolding before_order_def by (rule prio.lt_trans)

lemma before_order_total:
  "lo_order_id x \<noteq> lo_order_id y \<Longrightarrow> \<not> before_order side x y \<Longrightarrow> before_order side y x"
  unfolding before_order_def using prio.lt_linear by (metis make_priority_key_simps(1))

lemma sorted_enqueue:
  assumes "sorted_wrt (before_order side) xs" "\<forall>y \<in> set xs. lo_order_id y \<noteq> lo_order_id x"
  shows "sorted_wrt (before_order side) (enqueue side x xs)"
proof -
  have after: "before_order side x y" if "y \<in> set xs" "\<not> before_order side y x" for y
    using that assms(2) before_order_total by metis
  show ?thesis
    unfolding enqueue_def sorted_wrt_append
    using assms(1) after before_order_trans by (auto simp: sorted_wrt_filter)
qed

lemma queue_add:
  assumes "om_wf om" "om_wf om'" "om_orders om' = om_orders om @ [x]"
  shows "queue (lo_side x) om' = enqueue (lo_side x) x (queue (lo_side x) om)"
    and "side \<noteq> lo_side x \<Longrightarrow> queue side om' = queue side om"
proof -
  have "\<forall>y \<in> set (queue (lo_side x) om). lo_order_id y \<noteq> lo_order_id x"
    using om_wf_distinct [OF assms(2)] queue_mem [OF assms(1), of _ "lo_side x"] unfolding assms(3)
    by (simp add: image_iff) metis
  then have "sorted_wrt (before_order (lo_side x)) (enqueue (lo_side x) x (queue (lo_side x) om))"
    using queue_sorted [OF assms(1)] by (intro sorted_enqueue)
  moreover have "set (enqueue (lo_side x) x (queue (lo_side x) om)) = {y \<in> set (om_orders om'). lo_side y = lo_side x}"
    using queue_keys(2) [OF assms(1), of "lo_side x"] by (auto simp: enqueue_def assms(3))
  ultimately show "queue (lo_side x) om' = enqueue (lo_side x) x (queue (lo_side x) om)"
    using queue_unique [OF assms(2)] by blast
  show "queue side om' = queue side om" if "side \<noteq> lo_side x"
    using that queue_sorted [OF assms(1)] queue_keys(2) [OF assms(1), of side]
    by (intro queue_unique [OF assms(2)]) (auto simp: assms(3))
qed

text \<open>
  The two steps by which an order rests (add to the manager, adjust the book, in either order)
  succeed exactly when \<open>can_rest\<close>, and then leave a synced engine.
\<close>

definition can_rest :: "limit_order \<Rightarrow> matching_engine \<Rightarrow> bool" where
  "can_rest x e \<longleftrightarrow> order_valid x \<and> lo_order_id x \<notin> lo_order_id ` set (om_orders (me_orders e))
     \<and> length (om_orders (me_orders e)) < om_max_size (me_orders e)
     \<and> resting_in (om_orders (me_orders e)) (lo_side x) (lo_price_ticks x) + lo_remaining_quantity x \<le> INT64_MAX"

definition rested :: "limit_order \<Rightarrow> matching_engine \<Rightarrow> matching_engine \<Rightarrow> bool" where
  "rested x e e' \<longleftrightarrow> synced e' \<and> me_ids e' = me_ids e \<and> me_next_sequence e' = me_next_sequence e
     \<and> me_trades e' = me_trades e \<and> om_orders (me_orders e') = om_orders (me_orders e) @ [x]
     \<and> om_max_size (me_orders e') = om_max_size (me_orders e)
     \<and> queue (lo_side x) (me_orders e') = enqueue (lo_side x) x (queue (lo_side x) (me_orders e))
     \<and> queue (opposite (lo_side x)) (me_orders e') = queue (opposite (lo_side x)) (me_orders e)"

lemma rest_ok:
  assumes e: "synced e" and x: "order_ok x" and can: "can_rest x e"
  obtains b om' where "om_add_order x (me_orders e) = (Inr (), om')"
    "\<forall>c. me_book c = me_book e \<longrightarrow>
       adjust_order_book (lo_side x) (lo_price_ticks x) (lo_remaining_quantity x) c = (Inr (), c\<lparr>me_book := b\<rparr>)"
    "rested x e (e\<lparr>me_book := b, me_orders := om'\<rparr>)"
proof -
  let ?p = "lo_price_ticks x" and ?q = "lo_remaining_quantity x"
  obtain om' where om': "om_add_order x (me_orders e) = (Inr (), om')" "om_wf om'"
    "om_orders om' = om_orders (me_orders e) @ [x]" "om_max_size om' = om_max_size (me_orders e)"
    using om_add_order_ok [OF syncedD(1) [OF e], of x] can by (auto simp: can_rest_def)
  have ok: "orders_ok om'" using e x om'(2,3) by (auto simp: orders_ok_def synced_def)
  have i64: "i64 ?q" "0 \<le> ?p" using order_okD(1-3) [OF x] by (simp_all add: i64_def INT64_MIN_eq)
  have bound: "resting_in (om_orders (me_orders e)) (lo_side x) ?p + ?q \<le> INT64_MAX" using can by (simp add: can_rest_def)
  obtain b where b: "adjust_order_book (lo_side x) ?p ?q e = (Inr (), e\<lparr>me_book := b\<rparr>)"
    "synced (e\<lparr>me_book := b, me_orders := om'\<rparr>)"
    using synced_adjust [OF e ok i64(2,1), of "lo_side x" e] resting_in_add [of "om_orders (me_orders e)" x] om'(3) bound by auto
  have "adjust_order_book (lo_side x) ?p ?q c = (Inr (), c\<lparr>me_book := b\<rparr>)" if "me_book c = me_book e" for c
    using b(1) that by (auto simp: adjust_order_book_def split: prod.splits)
      (metis matching_engine.select_convs(1) matching_engine.surjective matching_engine.update_convs(1))+
  moreover have "rested x e (e\<lparr>me_book := b, me_orders := om'\<rparr>)"
    unfolding rested_def using b(2) om' queue_add [OF syncedD(1) [OF e] om'(2,3)] by simp
  ultimately show ?thesis using that om'(1) by blast
qed

lemma rest_fails:
  assumes e: "synced e" and x: "0 < lo_price_ticks x" "0 < lo_remaining_quantity x" "lo_remaining_quantity x \<le> INT64_MAX"
    and can: "\<not> can_rest x e"
  shows "throws (om_add_order x (me_orders e))
    \<or> (\<forall>c. me_book c = me_book e \<longrightarrow>
         throws (adjust_order_book (lo_side x) (lo_price_ticks x) (lo_remaining_quantity x) c))"
proof (rule ccontr)
  assume "\<not> ?thesis"
  then obtain c where c: "me_book c = me_book e" "\<not> throws (om_add_order x (me_orders e))"
    "\<not> throws (adjust_order_book (lo_side x) (lo_price_ticks x) (lo_remaining_quantity x) c)" by blast
  have "resting_in (om_orders (me_orders e)) (lo_side x) (lo_price_ticks x) + lo_remaining_quantity x \<le> INT64_MAX"
    using c(1,3) x syncedD(3,4) [OF e] adjust_order_book_eq [of c "lo_price_ticks x" "lo_remaining_quantity x" "lo_side x"]
    by (auto simp: Let_def i64_def INT64_MIN_eq split: if_splits)
  then show False using can c(2) om_add_order_fails(2) [OF syncedD(1) [OF e], of x] by (auto simp: can_rest_def)
qed

text \<open>Both orders in which the code takes the two steps.\<close>

lemma add_then_adjust:
  assumes e: "synced e" and x: "0 < lo_price_ticks x" "0 < lo_remaining_quantity x" "lo_original_quantity x \<le> INT64_MAX"
      "lo_price_ticks x \<le> INT64_MAX" "lo_remaining_quantity x \<le> lo_original_quantity x"
    and add: "om_add_order x (me_orders e) = (Inr u, om')"
    and adj: "adjust_order_book (lo_side x) (lo_price_ticks x) (lo_remaining_quantity x) c = (Inr v, c')"
    and c: "me_book c = me_book e"
  shows "\<exists>b. c' = c\<lparr>me_book := b\<rparr> \<and> rested x e (e\<lparr>me_book := b, me_orders := om'\<rparr>)"
proof -
  have can: "can_rest x e"
    using rest_fails [OF e x(1,2)] x add adj c by (metis order_trans throws_simps(2))
  then have "order_ok x" using x by (simp add: order_ok_def can_rest_def)
  from rest_ok [OF e this can] obtain b om2 where "om_add_order x (me_orders e) = (Inr (), om2)"
    "\<forall>c. me_book c = me_book e \<longrightarrow>
       adjust_order_book (lo_side x) (lo_price_ticks x) (lo_remaining_quantity x) c = (Inr (), c\<lparr>me_book := b\<rparr>)"
    "rested x e (e\<lparr>me_book := b, me_orders := om2\<rparr>)" by metis
  then show ?thesis using add adj c by auto
qed

subsection \<open>What a placement does\<close>

text \<open>
  \<open>placed\<close> is the contract that \<open>place_limit_order\<close> and the price change of \<open>modify_order\<close> share: a
  run against the opposite queue that goes as far as the limit allows, and then the rest of the
  order comes to rest.
\<close>

definition placed :: "limit_order \<Rightarrow> matching_engine \<Rightarrow> matching_engine \<Rightarrow> bool" where
  "placed inc e e' \<longleftrightarrow>
     (\<exists>fills js n e1. fill_run (limit_accepts (lo_side inc) (lo_price_ticks inc)) (lo_side inc)
         (Some (lo_order_id inc)) (lo_remaining_quantity inc) e fills js n e1
       \<and> (n = 0 \<or> nothing_acceptable (limit_accepts (lo_side inc) (lo_price_ticks inc))
            (queue (opposite (lo_side inc)) (me_orders e1)))
       \<and> (if n = 0 then e' = e1 else rested (inc\<lparr>lo_remaining_quantity := n\<rparr>) e1 e'))"

lemma placed_filled:
  "fill_run (limit_accepts (lo_side inc) (lo_price_ticks inc)) (lo_side inc) (Some (lo_order_id inc))
     (lo_remaining_quantity inc) e fills js 0 e1 \<Longrightarrow> placed inc e e1"
  by (auto simp: placed_def)

lemma placed_rests:
  "fill_run (limit_accepts (lo_side inc) (lo_price_ticks inc)) (lo_side inc) (Some (lo_order_id inc))
     (lo_remaining_quantity inc) e fills js n e1 \<Longrightarrow>
   nothing_acceptable (limit_accepts (lo_side inc) (lo_price_ticks inc)) (queue (opposite (lo_side inc)) (me_orders e1)) \<Longrightarrow>
   n \<noteq> 0 \<Longrightarrow> rested (inc\<lparr>lo_remaining_quantity := n\<rparr>) e1 e' \<Longrightarrow> placed inc e e'"
  unfolding placed_def by (rule exI [of _ fills], rule exI [of _ js], rule exI [of _ n], rule exI [of _ e1]) simp

definition limit_order_ok :: "limit_order \<Rightarrow> bool" where
  "limit_order_ok inc \<longleftrightarrow> 0 < lo_price_ticks inc \<and> lo_price_ticks inc \<le> INT64_MAX
     \<and> 0 < lo_remaining_quantity inc \<and> lo_original_quantity inc = lo_remaining_quantity inc
     \<and> lo_remaining_quantity inc \<le> INT64_MAX"

text \<open>The fills of a run are those of the reference as soon as nothing more is acceptable.\<close>

lemma fill_queue_stops:
  "n = 0 \<or> nothing_acceptable acc xs \<Longrightarrow> fill_queue acc n xs = (n, xs, [])"
  by (cases xs) (auto simp: nothing_acceptable_def)

lemma fill_run_reference:
  assumes "fill_run acc side aggr n e fills js n' e'" "synced e" "0 \<le> n"
    and "n' = 0 \<or> nothing_acceptable acc (queue (opposite side) (me_orders e'))"
  shows "fill_queue acc n (queue (opposite side) (me_orders e)) = (n', queue (opposite side) (me_orders e'), fills)"
    and "n = n' + sum_list (map snd fills)" "n' \<le> n"
proof -
  show eq: "fill_queue acc n (queue (opposite side) (me_orders e)) = (n', queue (opposite side) (me_orders e'), fills)"
    using fill_run_queue [OF assms(1-3)] fill_queue_stops [OF assms(4)] by simp
  have ok: "\<forall>x \<in> set (queue (opposite side) (me_orders e)). order_ok x"
    using syncedD(2) [OF assms(2)] queue_mem [OF syncedD(1) [OF assms(2)]] by blast
  note tot = fill_queue_total [OF ok assms(3) eq]
  show "n = n' + sum_list (map snd fills)" by (rule tot(2))
  have "0 \<le> sum_list (map snd fills)" using tot(3) by (intro sum_list_nonneg) auto
  then show "n' \<le> n" using tot(2) by simp
qed

lemma place_match_placed:
  assumes e: "synced e" and inc: "limit_order_ok inc" and ok: "place_match inc cp e = (Inr i, e')"
  shows "i = lo_order_id inc \<and> placed inc e e'"
proof -
  have pos: "0 \<le> lo_remaining_quantity inc" using inc by (simp add: limit_order_ok_def)
  have no: "place_rollback err cp b k ms c \<noteq> (Inr i, e')" for err b k ms c
    by (auto simp: place_rollback_def seq_eq_Inr_iff)
  obtain r inc1 ms e1 where loop: "match_loop inc [] e = (r, inc1, ms, e1)" by (metis prod_cases4)
  then have r: "r = Inr ()" using ok no by (cases r) (auto simp: place_match_def Let_def)
  obtain fills js n where run: "fill_run (limit_accepts (lo_side inc) (lo_price_ticks inc)) (lo_side inc)
      (Some (lo_order_id inc)) (lo_remaining_quantity inc) e fills js n e1"
    and inc1: "inc1 = inc\<lparr>lo_remaining_quantity := n\<rparr>"
    and stop: "n = 0 \<or> nothing_acceptable (limit_accepts (lo_side inc) (lo_price_ticks inc))
        (queue (opposite (lo_side inc)) (me_orders e1))"
    using match_loop_run [OF loop fill_run.start e pos] r by blast
  have n: "0 \<le> n" "n \<le> lo_remaining_quantity inc" "synced e1"
    using fill_run_inv [OF run e pos] fill_run_reference(3) [OF run e pos stop] by simp_all
  show ?thesis
  proof (cases "n = 0")
    case True
    then have "i = lo_order_id inc" "e' = e1" using ok loop r inc1 by (simp_all add: place_match_def Let_def is_filled_def)
    then show ?thesis using placed_filled run True by simp
  next
    case False
    obtain ra om2 where add: "om_add_order inc1 (me_orders e1) = (ra, om2)" by fastforce
    then obtain u where ra: "ra = Inr u"
      using ok no loop r inc1 False by (cases ra) (auto simp: place_match_def Let_def is_filled_def on_orders_def)
    obtain rb e3 where adj: "adjust_order_book (lo_side inc1) (lo_price_ticks inc1) (lo_remaining_quantity inc1)
        (e1\<lparr>me_orders := om2\<rparr>) = (rb, e3)" by fastforce
    then obtain v where rb: "rb = Inr v"
      using ok no loop r inc1 False add ra by (cases rb) (auto simp: place_match_def Let_def is_filled_def on_orders_def)
    have "i = lo_order_id inc" "e' = e3"
      using ok loop r inc1 False add ra adj rb by (auto simp: place_match_def Let_def is_filled_def on_orders_def)
    moreover have "\<exists>b. e3 = e1\<lparr>me_orders := om2, me_book := b\<rparr> \<and> rested inc1 e1 (e1\<lparr>me_book := b, me_orders := om2\<rparr>)"
      using add_then_adjust [OF n(3), of inc1 u om2 "e1\<lparr>me_orders := om2\<rparr>" v e3] add ra adj rb inc inc1 n False
      by (simp add: limit_order_ok_def)
    moreover have "e1\<lparr>me_orders := om2, me_book := b\<rparr> = e1\<lparr>me_book := b, me_orders := om2\<rparr>" for b by simp
    ultimately have "i = lo_order_id inc" "rested inc1 e1 e'" by auto
    then show ?thesis using placed_rests [OF run _ False] stop False inc1 by simp
  qed
qed

lemma place_limit_order_placed:
  assumes e: "engine_inv e" and b: "i64 p" "i64 q" and ok: "place_limit_order side p q e = (Inr i, e')"
  shows "i = next_order_id (me_ids e)" "i \<noteq> UINT64_MAX" "0 < p" "0 < q"
    and "placed \<lparr>lo_order_id = i, lo_side = side, lo_price_ticks = p, lo_original_quantity = q,
         lo_remaining_quantity = q, lo_sequence_number = me_next_sequence e\<rparr>
       ((place_start e)\<lparr>me_ids := \<lparr>next_order_id = i + 1\<rparr>, me_next_sequence := me_next_sequence e + 1\<rparr>) e'"
proof -
  show pos: "0 < p" "0 < q"
    using ok validate_Inr_iff(2) [of p q "()"]
    by (cases "validate_limit_order p q"; simp add: place_limit_order_def validate_Inr_iff)+
  have no: "place_catch side p q a c d f err g \<noteq> (Inr i, e')" for a c d f err g
    by (auto simp: place_catch_def Let_def seq_eq_Inr_iff split: option.splits)
  note start = place_start_synced [OF e]
  let ?bk = "if om_orders (me_orders e) = [] then Some (me_book e) else None"
  obtain j where gen: "generator_next (me_ids e) = (Inr j, \<lparr>next_order_id = j + 1\<rparr>)"
    "j = next_order_id (me_ids e)" "j \<noteq> UINT64_MAX"
    and w: "place_with_id side p q (me_ids e) (me_next_sequence e) ?bk j
       ((place_start e)\<lparr>me_ids := \<lparr>next_order_id = j + 1\<rparr>\<rparr>) = (Inr i, e')"
    using ok no place_limit_order_eq [OF pos, of side e]
    by (cases "next_order_id (me_ids e) = UINT64_MAX"; cases "me_ids e") (auto simp: generator_next_def)
  let ?c = "(place_start e)\<lparr>me_ids := \<lparr>next_order_id = j + 1\<rparr>\<rparr>"
  let ?c1 = "(place_start e)\<lparr>me_ids := \<lparr>next_order_id = j + 1\<rparr>, me_next_sequence := me_next_sequence e + 1\<rparr>"
  let ?inc = "\<lparr>lo_order_id = j, lo_side = side, lo_price_ticks = p, lo_original_quantity = q,
         lo_remaining_quantity = q, lo_sequence_number = me_next_sequence e\<rparr>"
  have c1: "synced ?c1" using start by simp
  have inc: "limit_order_ok ?inc" using pos b by (simp add: limit_order_ok_def i64_def)
  have "i = j \<and> placed ?inc ?c1 e'"
  proof (cases "crosses_order_book side p ?c1")
    case True
    then have "place_match ?inc (checkpoint (me_trades ?c1)) ?c1 = (Inr i, e')"
      using w no start(4) by (auto simp: place_with_id_def Let_def split: prod.splits sum.splits)
    from place_match_placed [OF c1 inc this] show ?thesis by simp
  next
    case False
    obtain ra c2 where adj: "adjust_order_book side p q ?c1 = (ra, c2)" by fastforce
    then obtain u where ra: "ra = Inr u"
      using w no start(4) False by (cases ra) (auto simp: place_with_id_def Let_def)
    have orders: "me_orders c2 = me_orders ?c1" using adj by (auto simp: adjust_order_book_def split: prod.splits)
    obtain rb om where add: "om_add_order ?inc (me_orders ?c1) = (rb, om)" by fastforce
    then obtain v where rb: "rb = Inr v"
      using w no start(4) False adj ra orders by (cases rb) (auto simp: place_with_id_def Let_def on_orders_def)
    have e': "i = j" "e' = c2\<lparr>me_orders := om\<rparr>"
      using w start(4) False adj ra orders add rb by (auto simp: place_with_id_def Let_def on_orders_def)
    obtain bk where bk: "c2 = ?c1\<lparr>me_book := bk\<rparr>" "rested ?inc ?c1 (?c1\<lparr>me_book := bk, me_orders := om\<rparr>)"
      using add_then_adjust [OF c1, of ?inc v om ?c1 u c2] adj ra add rb inc by (auto simp: limit_order_ok_def)
    then have "rested (?inc\<lparr>lo_remaining_quantity := q\<rparr>) ?c1 e'" using e'(2) by simp
    moreover have "nothing_acceptable (limit_accepts side p) (queue (opposite side) (me_orders ?c1))"
      using False crosses_iff_queue [OF c1] by simp
    moreover have "fill_run (limit_accepts side p) side (Some j) q ?c1 [] [] q ?c1" by (rule fill_run.start)
    ultimately show ?thesis using e'(1) pos(2) placed_rests [of ?inc ?c1 "[]" "[]" q ?c1 e'] by simp
  qed
  then show "i = next_order_id (me_ids e)" "i \<noteq> UINT64_MAX"
    and "placed \<lparr>lo_order_id = i, lo_side = side, lo_price_ticks = p, lo_original_quantity = q,
         lo_remaining_quantity = q, lo_sequence_number = me_next_sequence e\<rparr>
       ((place_start e)\<lparr>me_ids := \<lparr>next_order_id = i + 1\<rparr>, me_next_sequence := me_next_sequence e + 1\<rparr>) e'"
    using gen by simp_all
qed

end
