(* ===== verification/Placement.thy ===== *)
theory Placement
  imports Limit_Orders
begin

text \<open>
  What follows from the contract \<open>placed\<close>: the queues after a placement in terms of the queues before
  it, the trades, the invariant. Then the operations \<open>place_limit_order\<close> and \<open>cancel_order\<close> as a whole:
  when they succeed and what they leave.
\<close>

subsection \<open>Consequences of a placement\<close>

lemma same_key_refl: "same_key z z"
  by (simp add: same_key_def)

lemma fill_queue_rest:
  "fill_queue acc n xs = (n', xs', fills) \<Longrightarrow> y \<in> set xs' \<Longrightarrow> \<exists>x \<in> set xs. same_key x y"
proof (induction xs arbitrary: n n' xs' fills)
  case (Cons x xs)
  consider "n \<le> 0 \<or> \<not> acc (lo_price_ticks x)" | "0 < n" "acc (lo_price_ticks x)" "n < lo_remaining_quantity x"
    | "0 < n" "acc (lo_price_ticks x)" "lo_remaining_quantity x \<le> n" by linarith
  then show ?case
  proof cases
    case 3
    then obtain fs where "fill_queue acc (n - lo_remaining_quantity x) xs = (n', xs', fs)"
      using Cons.prems(1) by (auto split: prod.splits)
    from Cons.IH [OF this Cons.prems(2)] show ?thesis by auto
  qed (use Cons.prems same_key_refl [of y] in auto)
qed simp

lemma nothing_acceptable_all:
  assumes "om_wf om" "nothing_acceptable (limit_accepts side p) (queue (opposite side) om)"
    "y \<in> set (queue (opposite side) om)"
  shows "\<not> limit_accepts side p (lo_price_ticks y)"
proof -
  obtain x xs where q: "queue (opposite side) om = x # xs" using assms(3) by (cases "queue (opposite side) om") auto
  then have "\<not> limit_accepts side p (lo_price_ticks x)" using assms(2) by (simp add: nothing_acceptable_def)
  moreover have "y = x \<or> better_price (opposite side) (lo_price_ticks x) (lo_price_ticks y)
      \<or> lo_price_ticks x = lo_price_ticks y"
    using queue_head_best [OF assms(1) q, of y] assms(3) q by auto
  ultimately show ?thesis by (cases side) (auto simp: limit_accepts_def better_price_def)
qed

lemma uncrossed_queues:
  assumes "om_wf om"
  shows "uncrossed (om_orders om) \<longleftrightarrow>
    (\<forall>x \<in> set (queue side om). \<forall>y \<in> set (queue (opposite side) om). \<not> limit_accepts side (lo_price_ticks x) (lo_price_ticks y))"
  using queue_mem [OF assms] by (cases side) (auto simp: uncrossed_def limit_accepts_def not_le)

lemma set_enqueue [simp]: "set (enqueue side x xs) = insert x (set xs)"
  by (auto simp: enqueue_def)

definition own_after :: "limit_order \<Rightarrow> int \<Rightarrow> limit_order list \<Rightarrow> limit_order list" where
  "own_after inc n xs = (if n = 0 then xs else enqueue (lo_side inc) (inc\<lparr>lo_remaining_quantity := n\<rparr>) xs)"

lemma placed_result:
  assumes e: "synced e" and inc: "limit_order_ok inc" and pl: "placed inc e e'"
  obtains n rest fills new where
    "fill_queue (limit_accepts (lo_side inc) (lo_price_ticks inc)) (lo_remaining_quantity inc)
       (queue (opposite (lo_side inc)) (me_orders e)) = (n, rest, fills)"
    "queue (opposite (lo_side inc)) (me_orders e') = rest"
    "queue (lo_side inc) (me_orders e') = own_after inc n (queue (lo_side inc) (me_orders e))"
    "ts_trades (me_trades e') = ts_trades (me_trades e) @ new"
    "list_all2 (trade_of (lo_side inc) (Some (lo_order_id inc))) fills new"
    "synced e'" "me_ids e' = me_ids e" "me_next_sequence e' = me_next_sequence e"
    "om_max_size (me_orders e') = om_max_size (me_orders e)" "ts_max_size (me_trades e') = ts_max_size (me_trades e)"
    "n = 0 \<or> nothing_acceptable (limit_accepts (lo_side inc) (lo_price_ticks inc)) rest"
proof -
  let ?acc = "limit_accepts (lo_side inc) (lo_price_ticks inc)"
  obtain fills js n e1 where run: "fill_run ?acc (lo_side inc) (Some (lo_order_id inc)) (lo_remaining_quantity inc) e fills js n e1"
    and stop: "n = 0 \<or> nothing_acceptable ?acc (queue (opposite (lo_side inc)) (me_orders e1))"
    and fin: "if n = 0 then e' = e1 else rested (inc\<lparr>lo_remaining_quantity := n\<rparr>) e1 e'"
    using pl unfolding placed_def by blast
  have pos: "0 \<le> lo_remaining_quantity inc" using inc by (simp add: limit_order_ok_def)
  note inv = fill_run_inv [OF run e pos]
  obtain new where new: "ts_trades (me_trades e1) = ts_trades (me_trades e) @ new"
    "list_all2 (trade_of (lo_side inc) (Some (lo_order_id inc))) fills new"
    using fill_run_trades [OF run] by blast
  show ?thesis
    using that [OF fill_run_reference(1) [OF run e pos stop], of new] inv new fin stop
    by (cases "n = 0") (auto simp: own_after_def rested_def ts_extends_def)
qed

lemma placed_uncrossed:
  assumes e: "synced e" and inc: "limit_order_ok inc" and pl: "placed inc e e'"
    and un: "uncrossed (om_orders (me_orders e))"
  shows "uncrossed (om_orders (me_orders e'))"
proof -
  let ?s = "lo_side inc"
  obtain n rest fills where r:
    "fill_queue (limit_accepts ?s (lo_price_ticks inc)) (lo_remaining_quantity inc)
       (queue (opposite ?s) (me_orders e)) = (n, rest, fills)"
    "queue (opposite ?s) (me_orders e') = rest"
    "queue ?s (me_orders e') = own_after inc n (queue ?s (me_orders e))" "synced e'"
    "n = 0 \<or> nothing_acceptable (limit_accepts ?s (lo_price_ticks inc)) rest"
    using placed_result [OF e inc pl] by metis
  show ?thesis
    unfolding uncrossed_queues [OF syncedD(1) [OF r(4)], of ?s]
  proof (intro ballI)
    fix x y assume x: "x \<in> set (queue ?s (me_orders e'))" and y: "y \<in> set (queue (opposite ?s) (me_orders e'))"
    obtain z where z: "z \<in> set (queue (opposite ?s) (me_orders e))" "lo_price_ticks z = lo_price_ticks y"
      using fill_queue_rest [OF r(1)] y r(2) by (metis same_key_def make_priority_key_simps(2))
    consider "x \<in> set (queue ?s (me_orders e))" | "n \<noteq> 0" "lo_price_ticks x = lo_price_ticks inc"
      using x unfolding r(3) own_after_def by (auto split: if_splits)
    then show "\<not> limit_accepts ?s (lo_price_ticks x) (lo_price_ticks y)"
    proof cases
      case 1
      then show ?thesis using un z unfolding uncrossed_queues [OF syncedD(1) [OF e], of ?s] by metis
    next
      case 2
      then show ?thesis using nothing_acceptable_all [OF syncedD(1) [OF r(4)]] r(2,5) y by metis
    qed
  qed
qed

lemma placed_ids:
  assumes e: "synced e" and inc: "limit_order_ok inc" and pl: "placed inc e e'"
    and y: "y \<in> set (om_orders (me_orders e'))"
  shows "lo_order_id y = lo_order_id inc \<or> (\<exists>x \<in> set (om_orders (me_orders e)). lo_order_id x = lo_order_id y)"
proof -
  let ?s = "lo_side inc"
  obtain n rest fills where r:
    "fill_queue (limit_accepts ?s (lo_price_ticks inc)) (lo_remaining_quantity inc)
       (queue (opposite ?s) (me_orders e)) = (n, rest, fills)"
    "queue (opposite ?s) (me_orders e') = rest"
    "queue ?s (me_orders e') = own_after inc n (queue ?s (me_orders e))" "synced e'"
    using placed_result [OF e inc pl] by metis
  have "y \<in> set (queue ?s (me_orders e')) \<or> y \<in> set (queue (opposite ?s) (me_orders e'))"
    using y queue_mem [OF syncedD(1) [OF r(4)]] by (cases ?s; cases "lo_side y") auto
  then show ?thesis
  proof
    assume "y \<in> set (queue ?s (me_orders e'))"
    then show ?thesis unfolding r(3) own_after_def
      using queue_mem [OF syncedD(1) [OF e]] by (auto split: if_splits)
  next
    assume "y \<in> set (queue (opposite ?s) (me_orders e'))"
    then show ?thesis using fill_queue_rest [OF r(1)] r(2) queue_mem [OF syncedD(1) [OF e]] by (metis same_key_def)
  qed
qed

lemma fill_run_ts_ok:
  "fill_run acc side aggr n e fills js n' e' \<Longrightarrow> ts_ok (me_trades e) \<Longrightarrow> ts_ok (me_trades e')"
  by (induction rule: fill_run.induct) (auto intro: ts_ok_record)

lemma placed_ts_ok: "placed inc e e' \<Longrightarrow> ts_ok (me_trades e) \<Longrightarrow> ts_ok (me_trades e')"
  unfolding placed_def using fill_run_ts_ok by (auto simp: rested_def split: if_splits)

subsection \<open>Placing keeps the invariant\<close>

lemma place_limit_order_inv:
  assumes e: "engine_inv e" and b: "i64 p" "i64 q" and ok: "place_limit_order side p q e = (Inr i, e')"
  shows "engine_inv e'"
proof -
  note pl = place_limit_order_placed [OF e b ok]
  let ?inc = "\<lparr>lo_order_id = i, lo_side = side, lo_price_ticks = p, lo_original_quantity = q,
         lo_remaining_quantity = q, lo_sequence_number = me_next_sequence e\<rparr>"
  let ?c = "(place_start e)\<lparr>me_ids := \<lparr>next_order_id = i + 1\<rparr>, me_next_sequence := me_next_sequence e + 1\<rparr>"
  note start = place_start_synced [OF e]
  have c: "synced ?c" using start by simp
  have inc: "limit_order_ok ?inc" using pl(3,4) b by (simp add: limit_order_ok_def i64_def)
  have s: "synced e'" "me_ids e' = \<lparr>next_order_id = i + 1\<rparr>"
    using placed_result [OF c inc pl(5)] by auto
  have less: "i < i + 1" using u64_less_Suc [OF pl(2)] .
  have "lo_order_id y < i + 1" if "y \<in> set (om_orders (me_orders e'))" for y
    using placed_ids [OF c inc pl(5) that] e pl(1) start(2) less
    by (auto simp: engine_inv_def)
  moreover have "i + 1 \<noteq> 0" using less by (metis word_not_simps(1))
  moreover have "uncrossed (om_orders (me_orders e'))"
    using placed_uncrossed [OF c inc pl(5)] e start(2) by (simp add: engine_inv_def)
  moreover have "ts_ok (me_trades e')" using placed_ts_ok [OF pl(5)] e start(5) by (simp add: engine_inv_def)
  ultimately show ?thesis using s by (auto simp: engine_inv_def synced_def)
qed

lemma place_keeps_inv:
  assumes "engine_inv e" "i64 p" "i64 q"
  shows "engine_inv (snd (place_limit_order side p q e))"
proof (cases "place_limit_order side p q e")
  case (Pair r e')
  then show ?thesis
    using place_limit_order_fails [OF assms(1,3)] place_limit_order_inv [OF assms] assms(1) by (cases r) auto
qed

subsection \<open>When a placement succeeds\<close>

lemma orders_by_side:
  assumes "om_wf om"
  shows "length (om_orders om) = length (queue side om) + length (queue (opposite side) om)"
proof -
  have d: "distinct xs" if "sorted_wrt (before_order s) xs" for s xs
    using that prio.lt_irrefl by (induction xs) (auto simp: before_order_def)
  have dq: "distinct (queue s om)" for s using d queue_sorted [OF assms] by blast
  have "distinct (om_orders om)" using om_wf_distinct [OF assms] by (simp add: distinct_map)
  moreover have "set (om_orders om) = set (queue side om) \<union> set (queue (opposite side) om)"
    using queue_mem [OF assms] by (cases side) auto
  ultimately have "length (om_orders om) = card (set (queue side om) \<union> set (queue (opposite side) om))"
    using distinct_card by metis
  also have "\<dots> = card (set (queue side om)) + card (set (queue (opposite side) om))"
    using queue_mem [OF assms] by (intro card_Un_disjoint) auto
  finally show ?thesis using distinct_card [OF dq] by simp
qed

lemma queue_distinct: "om_wf om \<Longrightarrow> distinct (queue side om)"
proof -
  have "distinct xs" if "sorted_wrt (before_order side) xs" for xs
    using that prio.lt_irrefl by (induction xs) (auto simp: before_order_def)
  then show "om_wf om \<Longrightarrow> distinct (queue side om)" using queue_sorted by blast
qed

lemma resting_in_queue:
  assumes "om_wf om"
  shows "resting_in (om_orders om) side p = resting_in (queue side om) side p"
proof -
  have "distinct (filter (\<lambda>x. lo_side x = side) (om_orders om))"
    using om_wf_distinct [OF assms] by (simp add: distinct_map)
  then have "mset (filter (\<lambda>x. lo_side x = side) (om_orders om)) = mset (queue side om)"
    using queue_distinct [OF assms] queue_keys(2) [OF assms] by (intro set_eq_iff_mset_eq_distinct [THEN iffD1]) auto
  then have "resting_in (filter (\<lambda>x. lo_side x = side) (om_orders om)) side p = resting_in (queue side om) side p"
    by (rule resting_in_mset)
  moreover have "resting_in (filter (\<lambda>x. lo_side x = side) xs) side p = resting_in xs side p" for xs
    by (induction xs) auto
  ultimately show ?thesis by simp
qed

text \<open>What a placement needs: room for its trades, and room and level capacity for what comes to rest.\<close>

definition can_place :: "limit_order \<Rightarrow> matching_engine \<Rightarrow> bool" where
  "can_place inc e = (let side = lo_side inc in
     case fill_queue (limit_accepts side (lo_price_ticks inc)) (lo_remaining_quantity inc)
            (queue (opposite side) (me_orders e)) of
       (n, rest, fills) \<Rightarrow>
         length (ts_trades (me_trades e)) + length fills \<le> ts_max_size (me_trades e)
         \<and> (n = 0 \<or> lo_sequence_number inc \<noteq> 0
              \<and> length rest + length (queue side (me_orders e)) < om_max_size (me_orders e)
              \<and> book_qty (me_book e) side (lo_price_ticks inc) + n \<le> INT64_MAX))"

definition store_room :: "limit_order \<Rightarrow> matching_engine \<Rightarrow> bool" where
  "store_room inc e =
     (case fill_queue (limit_accepts (lo_side inc) (lo_price_ticks inc)) (lo_remaining_quantity inc)
            (queue (opposite (lo_side inc)) (me_orders e)) of
       (n, rest, fills) \<Rightarrow> length (ts_trades (me_trades e)) + length fills \<le> ts_max_size (me_trades e))"

lemma can_place_room: "can_place inc e \<Longrightarrow> store_room inc e"
  by (auto simp: can_place_def store_room_def Let_def split: prod.splits)

lemma match_loop_total:
  assumes e: "synced e" and inc: "limit_order_ok inc" and can: "store_room inc e"
  obtains inc1 e1 fills js n where "match_loop inc [] e = (Inr (), inc1, js, e1)"
    "fill_run (limit_accepts (lo_side inc) (lo_price_ticks inc)) (lo_side inc) (Some (lo_order_id inc))
       (lo_remaining_quantity inc) e fills js n e1" "inc1 = inc\<lparr>lo_remaining_quantity := n\<rparr>"
    "n = 0 \<or> nothing_acceptable (limit_accepts (lo_side inc) (lo_price_ticks inc))
       (queue (opposite (lo_side inc)) (me_orders e1))"
proof -
  let ?acc = "limit_accepts (lo_side inc) (lo_price_ticks inc)" and ?s = "lo_side inc"
  have pos: "0 \<le> lo_remaining_quantity inc" using inc by (simp add: limit_order_ok_def)
  obtain r inc1 ms e1 where loop: "match_loop inc [] e = (r, inc1, ms, e1)" by (metis prod_cases4)
  obtain fills js n where run: "fill_run ?acc ?s (Some (lo_order_id inc)) (lo_remaining_quantity inc) e fills js n e1"
    and inc1: "inc1 = inc\<lparr>lo_remaining_quantity := n\<rparr>"
    and ok: "r = Inr () \<Longrightarrow> ms = js \<and> (n = 0 \<or> nothing_acceptable ?acc (queue (opposite ?s) (me_orders e1)))"
    and bad: "\<And>err. r = Inl err \<Longrightarrow> 0 < n \<and> store_full e1 \<and> (\<exists>x xs. queue (opposite ?s) (me_orders e1) = x # xs
        \<and> ?acc (lo_price_ticks x))"
    using match_loop_run [OF loop fill_run.start e pos] by (elim exE conjE) metis
  have "r = Inr ()"
  proof (cases r)
    case (Inl err)
    then obtain x xs where x: "0 < n" "store_full e1" "queue (opposite ?s) (me_orders e1) = x # xs" "?acc (lo_price_ticks x)"
      using bad by blast
    obtain k ys fs where fq: "fill_queue ?acc n (x # xs) = (k, ys, fs)" by (metis prod_cases3)
    then have "fs \<noteq> []" using x(1,4) by (auto split: if_splits prod.splits)
    have "fill_queue ?acc (lo_remaining_quantity inc) (queue (opposite ?s) (me_orders e)) = (k, ys, fills @ fs)"
      using fill_run_queue [OF run e pos] fq x(3) by simp
    then have "length (ts_trades (me_trades e)) + length (fills @ fs) \<le> ts_max_size (me_trades e)"
      using can by (simp add: store_room_def)
    moreover obtain new where "ts_trades (me_trades e1) = ts_trades (me_trades e) @ new" "length fills = length new"
      using fill_run_trades [OF run] list_all2_lengthD by blast
    moreover have "ts_max_size (me_trades e1) = ts_max_size (me_trades e)"
      using fill_run_inv [OF run e pos] by (simp add: ts_extends_def)
    ultimately show ?thesis using x(2) \<open>fs \<noteq> []\<close> by (cases fs) (auto simp: store_full_def)
  qed simp
  then show ?thesis using that loop run inc1 ok by blast
qed

lemma can_rest_after_run:
  assumes e: "synced e" and inc: "limit_order_ok inc" and can: "can_place inc e"
    and fresh: "lo_order_id inc \<noteq> 0" "lo_order_id inc \<notin> lo_order_id ` set (om_orders (me_orders e))"
    and run: "fill_run (limit_accepts (lo_side inc) (lo_price_ticks inc)) (lo_side inc) (Some (lo_order_id inc))
       (lo_remaining_quantity inc) e fills js n e1"
    and stop: "nothing_acceptable (limit_accepts (lo_side inc) (lo_price_ticks inc))
       (queue (opposite (lo_side inc)) (me_orders e1))" and n: "n \<noteq> 0"
  shows "can_rest (inc\<lparr>lo_remaining_quantity := n\<rparr>) e1" "order_ok (inc\<lparr>lo_remaining_quantity := n\<rparr>)"
proof -
  let ?s = "lo_side inc" and ?x = "inc\<lparr>lo_remaining_quantity := n\<rparr>"
  have pos: "0 \<le> lo_remaining_quantity inc" using inc by (simp add: limit_order_ok_def)
  note inv = fill_run_inv [OF run e pos]
  note ref = fill_run_reference [OF run e pos disjI2 [OF stop]]
  have e1: "synced e1" and wf1: "om_wf (me_orders e1)" using inv syncedD(1) by blast+
  have c: "lo_sequence_number inc \<noteq> 0"
    "length (queue (opposite ?s) (me_orders e1)) + length (queue ?s (me_orders e)) < om_max_size (me_orders e)"
    "book_qty (me_book e) ?s (lo_price_ticks inc) + n \<le> INT64_MAX"
    using can n ref(1) by (simp_all add: can_place_def Let_def)
  have "0 < n" "n \<le> lo_remaining_quantity inc" using inv ref(3) n by auto
  then show ok: "order_ok ?x"
    using inc fresh(1) c(1) by (auto simp: order_ok_def order_valid_def limit_order_ok_def)
  have "length (om_orders (me_orders e1)) < om_max_size (me_orders e1)"
    using orders_by_side [OF wf1, of ?s] c(2) inv by simp
  moreover have "resting_in (om_orders (me_orders e1)) ?s (lo_price_ticks inc) + n \<le> INT64_MAX"
    using c(3) syncedD(4) [OF e] resting_in_queue [OF wf1] resting_in_queue [OF syncedD(1) [OF e]] inv by simp
  moreover have "lo_order_id inc \<notin> lo_order_id ` set (om_orders (me_orders e1))"
  proof
    assume "lo_order_id inc \<in> lo_order_id ` set (om_orders (me_orders e1))"
    then obtain y where y: "y \<in> set (om_orders (me_orders e1))" "lo_order_id y = lo_order_id inc" by auto
    have "y \<in> set (queue ?s (me_orders e1)) \<or> y \<in> set (queue (opposite ?s) (me_orders e1))"
      using y(1) queue_mem [OF wf1, of y] by (cases ?s; cases "lo_side y") auto
    moreover have "queue ?s (me_orders e1) = queue ?s (me_orders e)" using inv by simp
    ultimately have "\<exists>x \<in> set (om_orders (me_orders e)). lo_order_id x = lo_order_id y"
      using fill_queue_rest [OF ref(1), of y] queue_mem [OF syncedD(1) [OF e]] by (auto simp: same_key_def)
    then show False using fresh(2) y(2) by (metis imageI)
  qed
  ultimately show "can_rest ?x e1" using ok by (simp add: can_rest_def order_ok_def)
qed

lemma place_match_total:
  assumes e: "synced e" and inc: "limit_order_ok inc" and can: "can_place inc e"
    and fresh: "lo_order_id inc \<noteq> 0" "lo_order_id inc \<notin> lo_order_id ` set (om_orders (me_orders e))"
  shows "\<exists>e'. place_match inc cp e = (Inr (lo_order_id inc), e')"
proof -
  obtain inc1 e1 fills js n where loop: "match_loop inc [] e = (Inr (), inc1, js, e1)"
    and run: "fill_run (limit_accepts (lo_side inc) (lo_price_ticks inc)) (lo_side inc) (Some (lo_order_id inc))
       (lo_remaining_quantity inc) e fills js n e1" and inc1: "inc1 = inc\<lparr>lo_remaining_quantity := n\<rparr>"
    and stop: "n = 0 \<or> nothing_acceptable (limit_accepts (lo_side inc) (lo_price_ticks inc))
       (queue (opposite (lo_side inc)) (me_orders e1))"
    using match_loop_total [OF e inc can_place_room [OF can]] by metis
  show ?thesis
  proof (cases "n = 0")
    case True
    then show ?thesis using loop inc1 by (simp add: place_match_def is_filled_def)
  next
    case False
    have pos: "0 \<le> lo_remaining_quantity inc" using inc by (simp add: limit_order_ok_def)
    have e1: "synced e1" using fill_run_inv [OF run e pos] by simp
    have cr: "can_rest inc1 e1" "order_ok inc1"
      using can_rest_after_run [OF e inc can fresh run _ False] stop False inc1 by simp_all
    obtain b om' where "om_add_order inc1 (me_orders e1) = (Inr (), om')"
      "\<forall>c. me_book c = me_book e1 \<longrightarrow>
         adjust_order_book (lo_side inc1) (lo_price_ticks inc1) (lo_remaining_quantity inc1) c = (Inr (), c\<lparr>me_book := b\<rparr>)"
      using rest_ok [OF e1 cr(2,1)] by metis
    then show ?thesis using loop inc1 False by (simp add: place_match_def is_filled_def on_orders_def)
  qed
qed

lemma place_limit_order_total:
  assumes e: "engine_inv e" and b: "0 < p" "p \<le> INT64_MAX" "0 < q" "q \<le> INT64_MAX"
    and ids: "next_order_id (me_ids e) \<noteq> UINT64_MAX"
    and can: "can_place \<lparr>lo_order_id = next_order_id (me_ids e), lo_side = side, lo_price_ticks = p,
        lo_original_quantity = q, lo_remaining_quantity = q, lo_sequence_number = me_next_sequence e\<rparr> (place_start e)"
  shows "\<exists>e'. place_limit_order side p q e = (Inr (next_order_id (me_ids e)), e')"
proof -
  let ?i = "next_order_id (me_ids e)"
  let ?inc = "\<lparr>lo_order_id = ?i, lo_side = side, lo_price_ticks = p, lo_original_quantity = q,
         lo_remaining_quantity = q, lo_sequence_number = me_next_sequence e\<rparr>"
  let ?c1 = "(place_start e)\<lparr>me_ids := \<lparr>next_order_id = ?i + 1\<rparr>, me_next_sequence := me_next_sequence e + 1\<rparr>"
  let ?bk = "if om_orders (me_orders e) = [] then Some (me_book e) else None"
  note start = place_start_synced [OF e]
  have gen: "generator_next (me_ids e) = (Inr ?i, \<lparr>next_order_id = ?i + 1\<rparr>)"
    using ids by (cases "me_ids e") (simp add: generator_next_def)
  have op: "place_limit_order side p q e = place_with_id side p q (me_ids e) (me_next_sequence e) ?bk ?i
      ((place_start e)\<lparr>me_ids := \<lparr>next_order_id = ?i + 1\<rparr>\<rparr>)"
    using place_limit_order_eq [OF b(1,3), of side e] gen by simp
  have c1: "synced ?c1" using start by simp
  have inc: "limit_order_ok ?inc" using b by (simp add: limit_order_ok_def)
  have fresh: "lo_order_id ?inc \<noteq> 0" "lo_order_id ?inc \<notin> lo_order_id ` set (om_orders (me_orders ?c1))"
    using e start(2) by (auto simp: engine_inv_def)
  have can1: "can_place ?inc ?c1" using can by (simp add: can_place_def Let_def)
  show ?thesis
  proof (cases "crosses_order_book side p ?c1")
    case True
    obtain e' where "place_match ?inc (checkpoint (me_trades ?c1)) ?c1 = (Inr ?i, e')"
      using place_match_total [OF c1 inc can1 fresh] by auto
    then show ?thesis using True start(4) by (simp add: op place_with_id_def Let_def)
  next
    case False
    then have stop: "nothing_acceptable (limit_accepts side p) (queue (opposite side) (me_orders ?c1))"
      using crosses_iff_queue [OF c1] by simp
    have run: "fill_run (limit_accepts side p) side (Some ?i) q ?c1 [] [] q ?c1" by (rule fill_run.start)
    have cr: "can_rest ?inc ?c1" "order_ok ?inc"
      using can_rest_after_run [OF c1 inc can1 fresh, of "[]" "[]" q ?c1] run stop b(3) by simp_all
    obtain bk om' where ok: "om_add_order ?inc (me_orders ?c1) = (Inr (), om')"
      "\<forall>c. me_book c = me_book ?c1 \<longrightarrow>
         adjust_order_book (lo_side ?inc) (lo_price_ticks ?inc) (lo_remaining_quantity ?inc) c = (Inr (), c\<lparr>me_book := bk\<rparr>)"
      using rest_ok [OF c1 cr(2,1)] by metis
    then have "adjust_order_book side p q ?c1 = (Inr (), ?c1\<lparr>me_book := bk\<rparr>)" by simp
    then show ?thesis using False ok(1) start(4) by (simp add: op place_with_id_def Let_def on_orders_def)
  qed
qed

subsection \<open>Cancelling\<close>

lemma cancel_order_known:
  assumes e: "engine_inv e" and x: "om_find_order (me_orders e) k = Some x"
  obtains e' i where "cancel_order k e = (Inr True, e')" "engine_inv e'" "synced e'"
    "i < length (om_orders (me_orders e))" "om_orders (me_orders e) ! i = x"
    "om_orders (me_orders e') = swap_remove i (om_orders (me_orders e))"
    "me_ids e' = me_ids e" "me_next_sequence e' = me_next_sequence e" "me_trades e' = me_trades e"
    "om_max_size (me_orders e') = om_max_size (me_orders e)"
proof -
  have wf: "om_wf (me_orders e)" using e by (simp add: engine_inv_def orders_ok_def)
  have mem: "x \<in> set (om_orders (me_orders e))" using x om_find_order_Some_iff [OF wf] by simp
  then have s: "synced e" using e by (auto simp: engine_inv_def)
  obtain i om' where c: "om_cancel_order k (me_orders e) = (Inr True, om')" "om_wf om'"
    "i < length (om_orders (me_orders e))" "om_orders (me_orders e) ! i = x"
    "om_orders om' = swap_remove i (om_orders (me_orders e))" "om_max_size om' = om_max_size (me_orders e)"
    using om_cancel_order_ok [OF wf x] by metis
  have xo: "order_ok x" using syncedD(2) [OF s mem] .
  have i64: "i64 (- lo_remaining_quantity x)" and p: "0 \<le> lo_price_ticks x"
    using order_okD(1-3) [OF xo] by (simp_all add: i64_def INT64_MIN_eq)
  have bound: "resting_in (om_orders (me_orders e)) (lo_side x) (lo_price_ticks x) + - lo_remaining_quantity x \<le> INT64_MAX"
    using book_qty_range [OF syncedD(3) [OF s], of "lo_side x" "lo_price_ticks x"] syncedD(4) [OF s] order_okD(2) [OF xo] by simp
  have rest: "resting_in (om_orders om') = (resting_in (om_orders (me_orders e)))
      (lo_side x := (resting_in (om_orders (me_orders e)) (lo_side x))
        (lo_price_ticks x := resting_in (om_orders (me_orders e)) (lo_side x) (lo_price_ticks x) + - lo_remaining_quantity x))"
    unfolding c(5) resting_in_remove [OF c(3,4)] by simp
  have ok: "orders_ok om'" using orders_ok_remove [OF _ c(3,2,5)] s by (simp add: synced_def)
  obtain b where b: "adjust_order_book (lo_side x) (lo_price_ticks x) (- lo_remaining_quantity x) (e\<lparr>me_orders := om'\<rparr>)
      = (Inr (), e\<lparr>me_orders := om', me_book := b\<rparr>)" "synced (e\<lparr>me_orders := om', me_book := b, me_orders := om'\<rparr>)"
    by (rule synced_adjust [OF s ok p i64 rest bound, of "e\<lparr>me_orders := om'\<rparr>"]) (simp, blast)
  have b2: "synced (e\<lparr>me_orders := om', me_book := b\<rparr>)"
    using b(2) by (simp add: synced_def)
  let ?e' = "e\<lparr>me_orders := om', me_book := b\<rparr>"
  have sub: "set (om_orders om') \<subseteq> set (om_orders (me_orders e))"
    using set_swap_remove [OF c(3) om_wf_distinct [OF wf]] c(5) by auto
  have "engine_inv ?e'"
    using e b2 sub by (auto simp: engine_inv_def synced_def uncrossed_def)
  moreover have "cancel_order k e = (Inr True, ?e')"
    using x c(1) b(1) by (simp add: cancel_order_def on_orders_def)
  ultimately show ?thesis using that [of ?e' i] b2 c by simp
qed

lemma cancel_order_unknown: "om_find_order (me_orders e) k = None \<Longrightarrow> cancel_order k e = (Inr False, e)"
  by (simp add: cancel_order_def)

lemma place_limit_order_synced:
  assumes "engine_inv e" "i64 p" "i64 q" "place_limit_order side p q e = (Inr i, e')"
  shows "synced e'"
proof -
  note pl = place_limit_order_placed [OF assms]
  let ?inc = "\<lparr>lo_order_id = i, lo_side = side, lo_price_ticks = p, lo_original_quantity = q,
      lo_remaining_quantity = q, lo_sequence_number = me_next_sequence e\<rparr>"
  let ?c = "(place_start e)\<lparr>me_ids := \<lparr>next_order_id = i + 1\<rparr>, me_next_sequence := me_next_sequence e + 1\<rparr>"
  have c: "synced ?c" using place_start_synced [OF assms(1)] by simp
  have inc: "limit_order_ok ?inc" using pl(3,4) assms(2,3) by (simp add: limit_order_ok_def i64_def)
  have placed: "placed ?inc ?c e'" using pl(1,5) by simp
  show ?thesis using placed_result [OF c inc placed] by metis
qed

subsection \<open>Witness states\<close>

text \<open>An engine with one ask of 5 at 101; with room for no trade its store is full.\<close>

definition engine_one_ask :: "nat \<Rightarrow> matching_engine" where
  "engine_one_ask max_trades = snd (place_limit_order Sell 101 5 (new_engine 10 max_trades empty_book))"

lemma i64_small: "\<bar>x\<bar> \<le> 1000 \<Longrightarrow> i64 x"
  by (auto simp: i64_def INT64_MIN_def INT64_MAX_def)

lemma one_ask_inv: "engine_inv (engine_one_ask m)"
  unfolding engine_one_ask_def by (intro place_keeps_inv engine_inv_new i64_small) simp_all

lemma one_ask_synced: "synced (engine_one_ask 10)"
proof -
  have "fst (place_limit_order Sell 101 5 (new_engine 10 10 empty_book)) = Inr 1" by code_simp
  then have "place_limit_order Sell 101 5 (new_engine 10 10 empty_book) = (Inr 1, engine_one_ask 10)"
    by (simp add: engine_one_ask_def prod_eq_iff)
  from place_limit_order_synced [OF _ _ _ this] show ?thesis by (simp add: engine_inv_new i64_small)
qed

end
