(* ===== verification/Market_Orders.thy ===== *)
theory Market_Orders
  imports Placement
begin

text \<open>
  Market orders. With active orders the engine eats the opposite queue as \<open>fill_queue\<close> does without a
  price limit; with none it eats the levels of the external book. The result adds up, and the
  average price lies between the best and the worst price traded, for every rounding that meets the
  contract \<open>rounding\<close>.
\<close>

subsection \<open>Against active orders\<close>

definition weighted_total :: "rounding_mode \<Rightarrow> (limit_order \<times> int) list \<Rightarrow> rat" where
  "weighted_total ld fills = foldl (\<lambda>w f. add_notional ld (lo_price_ticks (fst f)) (snd f) w) 0 fills"

lemma weighted_total_snoc:
  "weighted_total ld (fills @ [(x, q)]) = add_notional ld (lo_price_ticks x) q (weighted_total ld fills)"
  by (simp add: weighted_total_def)

lemma market_order_step_stop:
  assumes "synced e" "queue (opposite side) (me_orders e) = []"
  shows "market_order_step ld side res w ms e = (Inr False, res, w, ms, e)"
  using assms(2) om_best_order_queue [OF syncedD(1) [OF assms(1)]]
  by (cases side) (simp_all add: market_order_step_def best_sell_order_def best_buy_order_def)

lemma market_order_step_fill:
  assumes e: "synced e" and n: "0 < er_remaining_quantity res" and qu: "queue (opposite side) (me_orders e) = x # xs"
  defines "q \<equiv> min (er_remaining_quantity res) (lo_remaining_quantity x)"
  defines "ids \<equiv> aggressor_ids side None (lo_order_id x)"
  shows "store_full e \<Longrightarrow> market_order_step ld side res w ms e = (Inl Length_error, res, w, ms @ [new_mutation q x], e)"
    and "\<not> store_full e \<Longrightarrow> \<exists>t ts m e'.
      record_trade side (lo_price_ticks x) q (fst ids) (snd ids) (me_trades e) = (Inr t, ts)
      \<and> fill_of e x q m e' \<and> me_trades e' = ts
      \<and> market_order_step ld side res w ms e =
          (Inr True, fill_result t q res, add_notional ld (lo_price_ticks x) q w, ms @ [m], e')"
proof -
  have x: "order_ok x" "lo_side x = opposite side" "x \<in> set (om_orders (me_orders e))"
    using queue_head_ok [OF e qu] by simp_all
  have pos: "0 < lo_price_ticks x" "0 < q" "q \<le> lo_remaining_quantity x"
    using order_okD(1,2) [OF x(1)] n by (simp_all add: q_def)
  have best: "(if side = Buy then best_sell_order (me_orders e) else best_buy_order (me_orders e)) = Some x"
    using om_best_order_queue [OF syncedD(1) [OF e], of "opposite side"] qu
    by (cases side) (simp_all add: best_sell_order_def best_buy_order_def)
  have find: "om_find_order (me_orders e) (lo_order_id x) = Some x"
    using om_find_order_mem [OF syncedD(1) [OF e] x(3)] .
  have ids: "(if side = Buy then None else Some (lo_order_id x)) = fst ids"
    "(if side = Sell then None else Some (lo_order_id x)) = snd ids"
    by (cases side; simp add: ids_def aggressor_ids_def)+
  have step: "market_order_step ld side res w ms e =
      (case on_trades (record_trade side (lo_price_ticks x) q (fst ids) (snd ids)) e of
         (Inl err, e1) \<Rightarrow> (Inl err, res, w, ms @ [new_mutation q x], e1)
       | (Inr t, e1) \<Rightarrow>
           (case adjust_order_book (lo_side x) (lo_price_ticks x) (- q) e1 of
              (Inl err, e2) \<Rightarrow> (Inl err, fill_result t q res, add_notional ld (lo_price_ticks x) q w, ms @ [new_mutation q x], e2)
            | (Inr _, e2) \<Rightarrow>
                (case remove_if_filled (lo_order_id x) (lo_order_id x) (new_mutation q x)
                        (e2\<lparr>me_orders := om_write_order (lo_order_id x)
                           (\<lambda>o1. o1\<lparr>lo_remaining_quantity := lo_remaining_quantity o1 - q\<rparr>) (me_orders e2)\<rparr>) of
                   (Inl err, m, e3) \<Rightarrow>
                     (Inl err, fill_result t q res, add_notional ld (lo_price_ticks x) q w, ms @ [m], e3)
                 | (Inr _, m, e3) \<Rightarrow>
                     (Inr True, fill_result t q res, add_notional ld (lo_price_ticks x) q w, ms @ [m], e3))))"
    unfolding market_order_step_def best Let_def option.case find ids q_def [symmetric] ..
  show "market_order_step ld side res w ms e = (Inl Length_error, res, w, ms @ [new_mutation q x], e)" if "store_full e"
    using record_full [OF that pos(1,2)] by (simp add: step on_trades_def)
  show "\<exists>t ts m e'.
      record_trade side (lo_price_ticks x) q (fst ids) (snd ids) (me_trades e) = (Inr t, ts)
      \<and> fill_of e x q m e' \<and> me_trades e' = ts
      \<and> market_order_step ld side res w ms e =
          (Inr True, fill_result t q res, add_notional ld (lo_price_ticks x) q w, ms @ [m], e')" if "\<not> store_full e"
  proof -
    obtain t ts where rec: "record_trade side (lo_price_ticks x) q (fst ids) (snd ids) (me_trades e) = (Inr t, ts)"
      using record_room [OF \<open>\<not> store_full e\<close> pos(1,2)] by blast
    obtain e2 m e3 where f: "adjust_order_book (lo_side x) (lo_price_ticks x) (- q) (e\<lparr>me_trades := ts\<rparr>) = (Inr (), e2)"
      "remove_if_filled (lo_order_id x) (lo_order_id x) (new_mutation q x)
       (e2\<lparr>me_orders := om_write_order (lo_order_id x)
             (\<lambda>o1. o1\<lparr>lo_remaining_quantity := lo_remaining_quantity o1 - q\<rparr>) (me_orders e2)\<rparr>) = (Inr (), m, e3)"
      "fill_of e x q m e3" "me_trades e3 = me_trades (e\<lparr>me_trades := ts\<rparr>)"
      by (rule fill_resting [OF e qu pos(2,3), of "e\<lparr>me_trades := ts\<rparr>"]) (simp, simp, simp, simp, blast)
    then show ?thesis using rec by (simp add: step on_trades_def)
  qed
qed

text \<open>The result under construction keeps pace with the run.\<close>

definition tracks ::
  "rounding_mode \<Rightarrow> order_side \<Rightarrow> int \<Rightarrow> matching_engine \<Rightarrow> (limit_order \<times> int) list
   \<Rightarrow> execution_result \<Rightarrow> rat \<Rightarrow> matching_engine \<Rightarrow> bool" where
  "tracks ld side n e fills res w e' \<longleftrightarrow>
     er_side res = side \<and> er_requested_quantity res = n \<and> er_average_price_ticks res = None
     \<and> er_executed_quantity res + er_remaining_quantity res = n
     \<and> ts_trades (me_trades e') = ts_trades (me_trades e) @ er_trades res
     \<and> w = weighted_total ld fills"

lemma market_order_loop_run:
  assumes "market_order_loop ld side res w ms e0 = (r, res', w', ms', e')"
    and "fill_run (\<lambda>_. True) side None n e fills ms (er_remaining_quantity res) e0" "synced e" "0 \<le> n"
    and "tracks ld side n e fills res w e0"
  shows "\<exists>fills' js n'. fill_run (\<lambda>_. True) side None n e fills' js n' e' \<and> er_remaining_quantity res' = n'
    \<and> tracks ld side n e fills' res' w' e'
    \<and> (r = Inr () \<longrightarrow> ms' = js \<and> (n' = 0 \<or> queue (opposite side) (me_orders e') = []))
    \<and> (\<forall>err. r = Inl err \<longrightarrow> err = Length_error \<and> 0 < n' \<and> store_full e'
         \<and> (\<exists>x xs. queue (opposite side) (me_orders e') = x # xs
              \<and> ms' = js @ [new_mutation (min n' (lo_remaining_quantity x)) x]))"
  using assms
proof (induction ld side res w ms e0 arbitrary: fills rule: market_order_loop.induct)
  case (1 ld side res w ms e0)
  have e0: "synced e0" "0 \<le> er_remaining_quantity res" using fill_run_inv [OF "1.prems"(2-4)] by simp_all
  show ?case
  proof (cases "0 < er_remaining_quantity res")
    case False
    then have "er_remaining_quantity res = 0" "r = Inr ()" "res' = res" "w' = w" "ms' = ms" "e' = e0"
      using "1.prems"(1) e0(2) by (simp_all add: market_order_loop.simps)
    then show ?thesis using "1.prems"(2,5) by (intro exI [of _ fills] exI [of _ ms] exI [of _ 0]) simp
  next
    case pos: True
    show ?thesis
    proof (cases "queue (opposite side) (me_orders e0)")
      case Nil
      then have "r = Inr ()" "res' = res" "w' = w" "ms' = ms" "e' = e0"
        using "1.prems"(1) pos market_order_step_stop [OF e0(1) Nil] by (simp_all add: market_order_loop.simps)
      then show ?thesis using "1.prems"(2,5) Nil
        by (intro exI [of _ fills] exI [of _ ms] exI [of _ "er_remaining_quantity res"]) simp
    next
      case qu: (Cons x xs)
      let ?q = "min (er_remaining_quantity res) (lo_remaining_quantity x)"
      note step = market_order_step_fill [OF e0(1) pos qu, of ld w ms]
      show ?thesis
      proof (cases "store_full e0")
        case True
        then have "r = Inl Length_error" "res' = res" "w' = w" "ms' = ms @ [new_mutation ?q x]" "e' = e0"
          using "1.prems"(1) pos step(1) by (auto simp: market_order_loop.simps)
        then show ?thesis using "1.prems"(2,5) pos qu True
          by (intro exI [of _ fills] exI [of _ ms] exI [of _ "er_remaining_quantity res"]) simp
      next
        case False
        then obtain t ts m e1 where f:
          "record_trade side (lo_price_ticks x) ?q (fst (aggressor_ids side None (lo_order_id x)))
             (snd (aggressor_ids side None (lo_order_id x))) (me_trades e0) = (Inr t, ts)"
          "fill_of e0 x ?q m e1" "me_trades e1 = ts"
          "market_order_step ld side res w ms e0 =
             (Inr True, fill_result t ?q res, add_notional ld (lo_price_ticks x) ?q w, ms @ [m], e1)"
          using step(2) by blast
        let ?res = "fill_result t ?q res" and ?w = "add_notional ld (lo_price_ticks x) ?q w"
        have run: "fill_run (\<lambda>_. True) side None n e (fills @ [(x, ?q)]) (ms @ [m]) (er_remaining_quantity ?res) e1"
          using fill_run.fill [OF "1.prems"(2) pos qu TrueI refl f(1-3)] by (simp add: fill_result_def)
        have loop: "market_order_loop ld side ?res ?w (ms @ [m]) e1 = (r, res', w', ms', e')"
          using "1.prems"(1) pos f(4) by (simp add: market_order_loop.simps)
        have "tracks ld side n e (fills @ [(x, ?q)]) ?res ?w e1"
          using "1.prems"(5) record_trade_ok(3) [OF f(1)] f(3)
          by (simp add: tracks_def fill_result_def weighted_total_snoc)
        then show ?thesis
          using "1.IH" [OF pos f(4) [symmetric] refl refl refl refl TrueI, of "fills @ [(x, ?q)]"] loop run "1.prems"(3,4)
          by simp
      qed
    qed
  qed
qed

text \<open>A run only removes and reduces orders, so it keeps the engine invariant.\<close>

lemma same_key_trans: "same_key x y \<Longrightarrow> same_key y z \<Longrightarrow> same_key x z"
  by (simp add: same_key_def)

lemma mem_orders_queues:
  "om_wf om \<Longrightarrow> y \<in> set (om_orders om) \<longleftrightarrow> y \<in> set (queue side om) \<or> y \<in> set (queue (opposite side) om)"
  using queue_mem [of om y] by (cases side; cases "lo_side y") auto

lemma fill_run_keys:
  assumes "fill_run acc side aggr n e fills ms n' e'" "synced e" "0 \<le> n" "y \<in> set (om_orders (me_orders e'))"
  shows "\<exists>x \<in> set (om_orders (me_orders e)). same_key x y"
  using assms
proof (induction arbitrary: y rule: fill_run.induct)
  case start
  then show ?case using same_key_refl by blast
next
  case (fill fills ms n1 e1 x xs q t ts m e2)
  have e1: "synced e1" using fill_run_inv [OF fill.hyps(1) fill.prems(1,2)] by simp
  have x: "lo_side x = opposite side" "x \<in> set (om_orders (me_orders e1))" using queue_head_ok [OF e1 fill.hyps(3)] by simp_all
  have e2: "synced e2" using fill.hyps(7) by (simp add: fill_of_def)
  have "\<exists>z \<in> set (om_orders (me_orders e1)). same_key z y"
  proof -
    have "y = reduced q x \<or> y \<in> set (queue (opposite side) (me_orders e1)) \<or> y \<in> set (queue side (me_orders e1))"
      using fill.prems(3) mem_orders_queues [OF syncedD(1) [OF e2], of y side] fill.hyps(3,7) x(1)
      by (auto simp: fill_of_def split: if_splits)
    then show ?thesis
      using x(2) mem_orders_queues [OF syncedD(1) [OF e1], of y side] same_key_refl reduced_same_key(1) by blast
  qed
  then show ?case using fill.IH [OF fill.prems(1,2)] same_key_trans by blast
qed

lemma run_keeps_inv:
  assumes e: "engine_inv e" "synced e" and run: "fill_run acc side aggr n e fills ms n' e'" and n: "0 \<le> n"
  shows "engine_inv e'"
proof -
  note inv = fill_run_inv [OF run e(2) n]
  have keys: "\<exists>x \<in> set (om_orders (me_orders e)). lo_order_id x = lo_order_id y \<and> lo_side x = lo_side y
      \<and> lo_price_ticks x = lo_price_ticks y" if "y \<in> set (om_orders (me_orders e'))" for y
    using fill_run_keys [OF run e(2) n that] by (metis same_key_def make_priority_key_simps(2))
  have "uncrossed (om_orders (me_orders e'))"
    unfolding uncrossed_def
  proof (intro ballI impI)
    fix x y assume "x \<in> set (om_orders (me_orders e'))" "y \<in> set (om_orders (me_orders e'))" "lo_side x = Buy" "lo_side y = Sell"
    then show "lo_price_ticks x < lo_price_ticks y"
      using keys [of x] keys [of y] e(1) unfolding engine_inv_def uncrossed_def by metis
  qed
  moreover have "lo_order_id y < next_order_id (me_ids e')" if "y \<in> set (om_orders (me_orders e'))" for y
    using keys [OF that] e(1) inv unfolding engine_inv_def by metis
  moreover have "ts_ok (me_trades e')" using fill_run_ts_ok [OF run] e(1) by (simp add: engine_inv_def)
  ultimately show ?thesis using e(1) inv by (auto simp: engine_inv_def synced_def)
qed

lemma market_order_loop_total:
  assumes e: "synced e" and n: "0 \<le> n" and fq: "fill_queue (\<lambda>_. True) n (queue (opposite side) (me_orders e)) = (k, rest, fills)"
    and room: "length (ts_trades (me_trades e)) + length fills \<le> ts_max_size (me_trades e)"
  obtains res w ms e' js where "market_order_loop ld side (new_result side n) 0 [] e = (Inr (), res, w, ms, e')"
    "fill_run (\<lambda>_. True) side None n e fills js k e'" "er_remaining_quantity res = k"
    "tracks ld side n e fills res w e'" "queue (opposite side) (me_orders e') = rest"
proof -
  obtain r res w ms e' where loop: "market_order_loop ld side (new_result side n) 0 [] e = (r, res, w, ms, e')"
    by (metis prod_cases5)
  have start: "fill_run (\<lambda>_. True) side None n e [] [] (er_remaining_quantity (new_result side n)) e"
    using fill_run.start by (simp add: new_result_def)
  have tr: "tracks ld side n e [] (new_result side n) 0 e"
    by (simp add: tracks_def new_result_def weighted_total_def)
  obtain fills' js n' where run: "fill_run (\<lambda>_. True) side None n e fills' js n' e'" and rem: "er_remaining_quantity res = n'"
    and track: "tracks ld side n e fills' res w e'"
    and ok: "r = Inr () \<Longrightarrow> n' = 0 \<or> queue (opposite side) (me_orders e') = []"
    and bad: "\<And>err. r = Inl err \<Longrightarrow> 0 < n' \<and> store_full e' \<and> (\<exists>x xs. queue (opposite side) (me_orders e') = x # xs)"
    using market_order_loop_run [OF loop start e n tr] by (elim exE conjE) metis
  have r: "r = Inr ()"
  proof (cases r)
    case (Inl err)
    then obtain x xs where x: "0 < n'" "store_full e'" "queue (opposite side) (me_orders e') = x # xs" using bad by blast
    obtain k1 ys fs where f: "fill_queue (\<lambda>_. True) n' (x # xs) = (k1, ys, fs)" by (metis prod_cases3)
    then have "fs \<noteq> []" using x(1) by (auto split: if_splits prod.splits)
    have "fills = fills' @ fs" using fill_run_queue [OF run e n] f x(3) fq by simp
    moreover obtain new where "ts_trades (me_trades e') = ts_trades (me_trades e) @ new" "length fills' = length new"
      using fill_run_trades [OF run] list_all2_lengthD by blast
    moreover have "ts_max_size (me_trades e') = ts_max_size (me_trades e)"
      using fill_run_inv [OF run e n] by (simp add: ts_extends_def)
    ultimately show ?thesis using x(2) \<open>fs \<noteq> []\<close> room by (cases fs) (auto simp: store_full_def)
  qed simp
  have "n' = 0 \<or> nothing_acceptable (\<lambda>_. True) (queue (opposite side) (me_orders e'))"
    using ok [OF r] by (auto simp: nothing_acceptable_def)
  then have "fill_queue (\<lambda>_. True) n (queue (opposite side) (me_orders e)) = (n', queue (opposite side) (me_orders e'), fills')"
    using fill_run_reference(1) [OF run e n] by simp
  then have "n' = k" "queue (opposite side) (me_orders e') = rest" "fills' = fills" using fq by simp_all
  then show ?thesis using that loop r run rem track by blast
qed

definition average_price :: "rounding_mode \<Rightarrow> (limit_order \<times> int) list \<Rightarrow> int option" where
  "average_price ld fills =
     (if fills = [] then None
      else Some (trunc (ld (weighted_total ld fills / ld (of_int (sum_list (map snd fills)))))))"

lemma market_order_ok:
  assumes e: "engine_inv e" and ne: "om_orders (me_orders e) \<noteq> []" and q: "0 < q" 
    and fq: "fill_queue (\<lambda>_. True) q (queue (opposite side) (me_orders e)) = (n, rest, fills)"
    and room: "length (ts_trades (me_trades e)) + length fills \<le> ts_max_size (me_trades e)"
  shows "\<exists>ts e'. execute_market_order ld side q e =
       (Inr \<lparr>er_side = side, er_requested_quantity = q, er_executed_quantity = sum_list (map snd fills),
             er_remaining_quantity = n, er_average_price_ticks = average_price ld fills, er_trades = ts\<rparr>, e')
    \<and> engine_inv e' \<and> synced e' \<and> queue (opposite side) (me_orders e') = rest
    \<and> queue side (me_orders e') = queue side (me_orders e)
    \<and> ts_trades (me_trades e') = ts_trades (me_trades e) @ ts \<and> list_all2 (trade_of side None) fills ts
    \<and> me_ids e' = me_ids e \<and> me_next_sequence e' = me_next_sequence e"
proof -
  have s: "synced e" using e ne by (simp add: engine_inv_def)
  have q0: "0 \<le> q" using q by simp
  obtain res w ms e' js where loop: "market_order_loop ld side (new_result side q) 0 [] e = (Inr (), res, w, ms, e')"
    and run: "fill_run (\<lambda>_. True) side None q e fills js n e'" and rem: "er_remaining_quantity res = n"
    and track: "tracks ld side q e fills res w e'" and rest: "queue (opposite side) (me_orders e') = rest"
    using market_order_loop_total [OF s q0 fq room] by blast
  have qok: "\<forall>x \<in> set (queue (opposite side) (me_orders e)). order_ok x"
    using syncedD(2) [OF s] queue_mem [OF syncedD(1) [OF s]] by blast
  note tot = fill_queue_total [OF qok q0 fq]
  have ex: "er_executed_quantity res = sum_list (map snd fills)" using track tot(2) rem by (simp add: tracks_def)
  have pos: "0 < sum_list (map snd fills) \<longleftrightarrow> fills \<noteq> []"
  proof (cases fills)
    case (Cons f fs)
    have "0 \<le> sum_list (map snd fs)" using tot(3) Cons by (intro sum_list_nonneg) auto
    then show ?thesis using tot(3) Cons by auto
  qed simp
  have res: "average_result ld res w = \<lparr>er_side = side, er_requested_quantity = q,
      er_executed_quantity = sum_list (map snd fills), er_remaining_quantity = n,
      er_average_price_ticks = average_price ld fills, er_trades = er_trades res\<rparr>"
    using track ex rem pos
    by (cases res) (auto simp: average_result_def average_price_def tracks_def)
  obtain new where new: "ts_trades (me_trades e') = ts_trades (me_trades e) @ new" "list_all2 (trade_of side None) fills new"
    using fill_run_trades [OF run] by blast
  have "er_trades res = new" using new(1) track by (simp add: tracks_def)
  moreover have "execute_market_order ld side q e = (Inr (average_result ld res w), e')"
    using q ne loop by (simp add: execute_market_order_def Let_def)
  ultimately show ?thesis
    using res run_keeps_inv [OF e s run q0] fill_run_inv [OF run s q0] rest new by auto
qed

subsection \<open>Against the external book\<close>

fun fill_levels :: "int \<Rightarrow> price_level list \<Rightarrow> int \<times> price_level list \<times> (int \<times> int) list" where
  "fill_levels n [] = (n, [], [])"
| "fill_levels n (l # ls) =
     (if n \<le> 0 then (n, l # ls, [])
      else if n < pl_quantity l
      then (0, l\<lparr>pl_quantity := pl_quantity l - n\<rparr> # ls, [(pl_price_ticks l, n)])
      else case fill_levels (n - pl_quantity l) ls of
             (n', ls', fills) \<Rightarrow> (n', ls', (pl_price_ticks l, pl_quantity l) # fills))"

definition level_trade :: "order_side \<Rightarrow> int \<times> int \<Rightarrow> trade \<Rightarrow> bool" where
  "level_trade side fill t \<longleftrightarrow> tr_aggressor_side t = side \<and> tr_price_ticks t = fst fill \<and> tr_quantity t = snd fill
     \<and> tr_buy_order_id t = None \<and> tr_sell_order_id t = None"

text \<open>Whatever happens in the loop, only the book and the trade store change.\<close>

lemma market_level_step_frame:
  assumes "market_level_step ld side res w e = (r, res', w', e')"
  shows "ts_extends (me_trades e) (me_trades e')" "me_orders e' = me_orders e" "me_ids e' = me_ids e"
    "me_next_sequence e' = me_next_sequence e"
  using assms
  by (auto simp: market_level_step_def on_trades_def update_side_def Let_def ts_extends_record
      split: list.splits prod.splits sum.splits if_splits)

lemma market_level_loop_frame:
  assumes "market_level_loop ld side res w e = (r, res', w', e')"
  shows "ts_extends (me_trades e) (me_trades e') \<and> me_orders e' = me_orders e \<and> me_ids e' = me_ids e
    \<and> me_next_sequence e' = me_next_sequence e"
  using assms
proof (induction ld side res w e rule: market_level_loop.induct)
  case (1 ld side res w e)
  show ?case
  proof (cases "0 < er_remaining_quantity res")
    case False
    then show ?thesis using "1.prems" by (simp add: market_level_loop.simps)
  next
    case pos: True
    obtain r1 res1 w1 e1 where step: "market_level_step ld side res w e = (r1, res1, w1, e1)" by (metis prod_cases4)
    note frame = market_level_step_frame [OF step]
    show ?thesis
    proof (cases "r1 = Inr True")
      case True
      then have "market_level_loop ld side res1 w1 e1 = (r, res', w', e')"
        using "1.prems" pos step by (simp add: market_level_loop.simps)
      from "1.IH" [OF pos step [symmetric] True refl refl TrueI this] frame show ?thesis
        using ts_extends_trans by auto
    next
      case False
      then have "e' = e1" using "1.prems" pos step by (cases r1) (auto simp: market_level_loop.simps)
      then show ?thesis using frame by simp
    qed
  qed
qed

lemma market_no_orders_fails:
  assumes "om_orders (me_orders e) = []" "execute_market_order ld side q e = (Inl err, e')"
  shows "e' = e"
proof (cases "0 < q")
  case False
  then show ?thesis using assms(2) by (cases "validate_market_order q") (auto simp: execute_market_order_def validate_Inr_iff)
next
  case True
  obtain r res w e1 where loop: "market_level_loop ld side (new_result side q) 0 e = (r, res, w, e1)" by (metis prod_cases4)
  note frame = market_level_loop_frame [OF loop]
  obtain err1 where r: "r = Inl err1"
    using assms True loop by (cases r) (auto simp: execute_market_order_def Let_def)
  have "rollback (checkpoint (me_trades e)) (me_trades e1) = (Inr (), me_trades e)"
    using rollback_checkpoint frame by blast
  then have "execute_market_order ld side q e = (Inl err1, e1\<lparr>me_book := me_book e, me_trades := me_trades e\<rparr>)"
    using assms True loop r by (simp add: execute_market_order_def Let_def on_trades_def)
  then show ?thesis using assms(2) frame by (auto intro: engine_eqI)
qed

lemma update_side_eq:
  assumes "book_ok (me_book e)" "0 \<le> p" "0 \<le> r"
  shows "update_side side p r e = (Inr (), e\<lparr>me_book := put_level (opposite side) p r (me_book e)\<rparr>)"
  using assms bid_order.update_levels_eq ask_order.update_levels_eq
  by (cases side) (simp_all add: update_side_def update_ask_def update_bid_def on_bids_def on_asks_def
      update_bid_levels_def update_ask_levels_def validate_level_def book_ok_def put_level_def)

lemma put_head:
  assumes "book_ok book" "side_levels side book = l # ls"
  shows "side_levels side (put_level side (pl_price_ticks l) r book) =
      (if r = 0 then ls else \<lparr>pl_price_ticks = pl_price_ticks l, pl_quantity = r\<rparr> # ls)"
    and "side_levels (opposite side) (put_level side (pl_price_ticks l) r book) = side_levels (opposite side) book"
  using assms bid_order.set_level_head ask_order.set_level_head
  by (cases side; simp add: side_levels_def put_level_def book_ok_def)+

lemma market_level_step_fill:
  assumes "book_ok (me_book e)" "side_levels (opposite side) (me_book e) = l # ls" "0 < er_remaining_quantity res"
    "0 < pl_price_ticks l" "\<not> store_full e"
  defines "q \<equiv> min (er_remaining_quantity res) (pl_quantity l)"
  shows "\<exists>t ts. record_trade side (pl_price_ticks l) q None None (me_trades e) = (Inr t, ts)
    \<and> market_level_step ld side res w e = (Inr True, fill_result t q res, add_notional ld (pl_price_ticks l) q w,
        e\<lparr>me_trades := ts, me_book := put_level (opposite side) (pl_price_ticks l) (pl_quantity l - q) (me_book e)\<rparr>)"
proof -
  have l: "0 < pl_quantity l"
    using assms(1,2) by (cases side) (auto simp: book_ok_def side_levels_def levels_ok_Cons)
  then have q: "0 < q" "q \<le> pl_quantity l" using assms(3) by (simp_all add: q_def)
  obtain t ts where rec: "record_trade side (pl_price_ticks l) q None None (me_trades e) = (Inr t, ts)"
    using record_room [OF assms(5,4) q(1)] by blast
  have lv: "(if side = Buy then ob_asks (me_book e) else ob_bids (me_book e)) = l # ls"
    using assms(2) by (cases side) (simp_all add: side_levels_def)
  have "update_side side (pl_price_ticks l) (pl_quantity l - q) (e\<lparr>me_trades := ts\<rparr>) =
      (Inr (), e\<lparr>me_trades := ts, me_book := put_level (opposite side) (pl_price_ticks l) (pl_quantity l - q) (me_book e)\<rparr>)"
    using update_side_eq [of "e\<lparr>me_trades := ts\<rparr>"] assms(1,4) q by simp
  then have "market_level_step ld side res w e = (Inr True, fill_result t q res, add_notional ld (pl_price_ticks l) q w,
        e\<lparr>me_trades := ts, me_book := put_level (opposite side) (pl_price_ticks l) (pl_quantity l - q) (me_book e)\<rparr>)"
    using rec unfolding market_level_step_def lv Let_def list.case q_def [symmetric] by (simp add: on_trades_def)
  then show ?thesis using rec by blast
qed

definition level_total :: "rounding_mode \<Rightarrow> rat \<Rightarrow> (int \<times> int) list \<Rightarrow> rat" where
  "level_total ld w fills = foldl (\<lambda>w f. add_notional ld (fst f) (snd f) w) w fills"

text \<open>One turn of the level loop: it books a trade against the front level and goes on from there.\<close>

lemma market_level_loop_head:
  assumes book: "book_ok (me_book e)" and ls: "side_levels (opposite side) (me_book e) = l # ls"
    and pos: "0 < er_remaining_quantity res" and price: "0 < pl_price_ticks l" and full: "\<not> store_full e"
  defines "q \<equiv> min (er_remaining_quantity res) (pl_quantity l)"
  obtains t e1 where
    "market_level_loop ld side res w e
       = market_level_loop ld side (fill_result t q res) (add_notional ld (pl_price_ticks l) q w) e1"
    "book_ok (me_book e1)"
    "side_levels (opposite side) (me_book e1) = (if pl_quantity l = q then ls else l\<lparr>pl_quantity := pl_quantity l - q\<rparr> # ls)"
    "side_levels side (me_book e1) = side_levels side (me_book e)"
    "ts_trades (me_trades e1) = ts_trades (me_trades e) @ [t]" "ts_max_size (me_trades e1) = ts_max_size (me_trades e)"
    "level_trade side (pl_price_ticks l, q) t" "ts_ok (me_trades e) \<Longrightarrow> ts_ok (me_trades e1)"
proof -
  have l: "0 < pl_quantity l" "pl_quantity l \<le> INT64_MAX"
    using book ls by (cases side; auto simp: book_ok_def side_levels_def levels_ok_Cons)+
  obtain t ts where rec: "record_trade side (pl_price_ticks l) q None None (me_trades e) = (Inr t, ts)"
    and step: "market_level_step ld side res w e = (Inr True, fill_result t q res, add_notional ld (pl_price_ticks l) q w,
      e\<lparr>me_trades := ts, me_book := put_level (opposite side) (pl_price_ticks l) (pl_quantity l - q) (me_book e)\<rparr>)"
    using market_level_step_fill [OF book ls pos price full, of ld w] unfolding q_def by blast
  let ?e = "e\<lparr>me_trades := ts, me_book := put_level (opposite side) (pl_price_ticks l) (pl_quantity l - q) (me_book e)\<rparr>"
  note heads = put_head [OF book ls, of "pl_quantity l - q"] and rok = record_trade_ok [OF rec]
  have same: "\<lparr>pl_price_ticks = pl_price_ticks l, pl_quantity = n\<rparr> = l\<lparr>pl_quantity := n\<rparr>" for n by (cases l) simp
  show thesis
  proof (rule that [of t ?e])
    show "market_level_loop ld side res w e
        = market_level_loop ld side (fill_result t q res) (add_notional ld (pl_price_ticks l) q w) ?e"
      using pos step by (subst market_level_loop.simps) simp
    show "book_ok (me_book ?e)"
      using put_level_ok(1) [OF book, of "pl_price_ticks l" "pl_quantity l - q" "opposite side"] price l pos
      by (simp add: q_def)
    show "ts_ok (me_trades e) \<Longrightarrow> ts_ok (me_trades ?e)" using ts_ok_record rec by simp
  qed (use heads rok in \<open>auto simp: same level_trade_def\<close>)
qed

lemma market_level_loop_ok:
  assumes "book_ok (me_book e)" "side_levels (opposite side) (me_book e) = ls"
    "fill_levels (er_remaining_quantity res) ls = (n, rest, fills)" "\<forall>f \<in> set fills. 0 < fst f"
    "0 \<le> er_remaining_quantity res" "length (ts_trades (me_trades e)) + length fills \<le> ts_max_size (me_trades e)"
  shows "\<exists>ts e'. market_level_loop ld side res w e =
      (Inr (), res\<lparr>er_executed_quantity := er_executed_quantity res + sum_list (map snd fills),
          er_remaining_quantity := n, er_trades := er_trades res @ ts\<rparr>, level_total ld w fills, e')
    \<and> book_ok (me_book e') \<and> side_levels (opposite side) (me_book e') = rest
    \<and> side_levels side (me_book e') = side_levels side (me_book e)
    \<and> ts_trades (me_trades e') = ts_trades (me_trades e) @ ts \<and> list_all2 (level_trade side) fills ts
    \<and> (ts_ok (me_trades e) \<longrightarrow> ts_ok (me_trades e'))"
  using assms
proof (induction ls arbitrary: res w e n rest fills)
  case Nil
  then have "market_level_step ld side res w e = (Inr False, res, w, e)"
    by (cases side) (simp_all add: market_level_step_def side_levels_def)
  then have "market_level_loop ld side res w e = (Inr (), res, w, e)" by (simp add: market_level_loop.simps)
  moreover have "res\<lparr>er_executed_quantity := er_executed_quantity res, er_remaining_quantity := er_remaining_quantity res,
      er_trades := er_trades res\<rparr> = res" by simp
  ultimately show ?case using Nil by (simp add: level_total_def)
next
  case (Cons l ls)
  show ?case
  proof (cases "er_remaining_quantity res = 0")
    case True
    moreover have "res\<lparr>er_executed_quantity := er_executed_quantity res, er_remaining_quantity := 0,
      er_trades := er_trades res\<rparr> = res" using True by simp
    ultimately show ?thesis using Cons.prems by (simp add: market_level_loop.simps level_total_def)
  next
    case False
    then have pos: "0 < er_remaining_quantity res" using Cons.prems(5) by simp
    let ?q = "min (er_remaining_quantity res) (pl_quantity l)"
    obtain fs where fills: "fills = (pl_price_ticks l, ?q) # fs"
      using Cons.prems(3) pos by (auto split: if_splits prod.splits)
    have full: "\<not> store_full e" using Cons.prems(6) fills by (simp add: store_full_def)
    have price: "0 < pl_price_ticks l" using Cons.prems(4) fills by simp
    obtain t e1 where hd: "market_level_loop ld side res w e
        = market_level_loop ld side (fill_result t ?q res) (add_notional ld (pl_price_ticks l) ?q w) e1"
      "book_ok (me_book e1)"
      "side_levels (opposite side) (me_book e1) = (if pl_quantity l = ?q then ls else l\<lparr>pl_quantity := pl_quantity l - ?q\<rparr> # ls)"
      "side_levels side (me_book e1) = side_levels side (me_book e)"
      "ts_trades (me_trades e1) = ts_trades (me_trades e) @ [t]" "ts_max_size (me_trades e1) = ts_max_size (me_trades e)"
      "level_trade side (pl_price_ticks l, ?q) t" "ts_ok (me_trades e) \<Longrightarrow> ts_ok (me_trades e1)"
      using market_level_loop_head [OF Cons.prems(1,2) pos price full, of ld w] by blast
    let ?res = "fill_result t ?q res" and ?w = "add_notional ld (pl_price_ticks l) ?q w"
    show ?thesis
    proof (cases "er_remaining_quantity res < pl_quantity l")
      case True
      then have q: "?q = er_remaining_quantity res" by simp
      have "market_level_loop ld side ?res ?w e1 = (Inr (), ?res, ?w, e1)"
        by (simp add: market_level_loop.simps fill_result_def q)
      moreover have "n = 0" "rest = l\<lparr>pl_quantity := pl_quantity l - ?q\<rparr> # ls" "fs = []"
        using Cons.prems(3) pos True fills by (simp_all add: q)
      ultimately show ?thesis
        using hd True q fills by (intro exI [of _ "[t]"] exI [of _ e1]) (simp add: level_total_def fill_result_def)
    next
      case False
      then have q: "?q = pl_quantity l" by simp
      then have lv: "side_levels (opposite side) (me_book e1) = ls" using hd(3) by simp
      have fl: "fill_levels (er_remaining_quantity ?res) ls = (n, rest, fs)"
        using Cons.prems(3) pos False fills by (auto simp: fill_result_def q split: prod.splits)
      obtain ts1 e2 where "market_level_loop ld side ?res ?w e1 =
          (Inr (), ?res\<lparr>er_executed_quantity := er_executed_quantity ?res + sum_list (map snd fs),
             er_remaining_quantity := n, er_trades := er_trades ?res @ ts1\<rparr>, level_total ld ?w fs, e2)"
        "book_ok (me_book e2)" "side_levels (opposite side) (me_book e2) = rest"
        "side_levels side (me_book e2) = side_levels side (me_book e1)"
        "ts_trades (me_trades e2) = ts_trades (me_trades e1) @ ts1" "list_all2 (level_trade side) fs ts1"
        "ts_ok (me_trades e1) \<longrightarrow> ts_ok (me_trades e2)"
        using Cons.IH [OF hd(2) lv fl, of ?w] Cons.prems(4,6) pos False hd(5,6) fills by (auto simp: fill_result_def q)
      then show ?thesis
        using hd(1,4,5,7,8) fills q by (intro exI [of _ "t # ts1"] exI [of _ e2]) (simp add: level_total_def fill_result_def)
    qed
  qed
qed

lemma fill_levels_total:
  assumes "levels_ok before ls" "0 \<le> n" "fill_levels n ls = (n', ls', fills)"
  shows "0 \<le> n' \<and> n = n' + sum_list (map snd fills) \<and> (\<forall>f \<in> set fills. 0 < snd f) \<and> (n' = 0 \<or> ls' = [])"
  using assms
proof (induction ls arbitrary: n n' ls' fills)
  case (Cons l ls)
  have l: "0 < pl_quantity l" "levels_ok before ls" using Cons.prems(1) by (simp_all add: levels_ok_Cons)
  consider "n = 0" | "0 < n" "n < pl_quantity l" | "0 < n" "pl_quantity l \<le> n" using Cons.prems(2) by linarith
  then show ?case
  proof cases
    case 3
    then obtain fs where fs: "fill_levels (n - pl_quantity l) ls = (n', ls', fs)" "fills = (pl_price_ticks l, pl_quantity l) # fs"
      using Cons.prems(3) by (auto split: prod.splits)
    have "0 \<le> n - pl_quantity l" using 3 by simp
    from Cons.IH [OF l(2) this fs(1)] show ?thesis using fs(2) l(1) by simp
  qed (use Cons.prems in auto)
qed simp

lemma market_levels_ok:
  assumes e: "engine_inv e" and none: "om_orders (me_orders e) = []" and q: "0 < q"
    and fl: "fill_levels q (side_levels (opposite side) (me_book e)) = (n, rest, fills)"
    and pos: "\<forall>f \<in> set fills. 0 < fst f"
    and room: "length (ts_trades (me_trades e)) + length fills \<le> ts_max_size (me_trades e)"
  shows "\<exists>ts e'. execute_market_order ld side q e =
       (Inr \<lparr>er_side = side, er_requested_quantity = q, er_executed_quantity = sum_list (map snd fills),
             er_remaining_quantity = n,
             er_average_price_ticks = (if fills = [] then None else
               Some (trunc (ld (level_total ld 0 fills / ld (of_int (sum_list (map snd fills))))))),
             er_trades = ts\<rparr>, e')
    \<and> engine_inv e' \<and> side_levels (opposite side) (me_book e') = rest
    \<and> side_levels side (me_book e') = side_levels side (me_book e)
    \<and> ts_trades (me_trades e') = ts_trades (me_trades e) @ ts \<and> list_all2 (level_trade side) fills ts"
proof -
  have b: "book_ok (me_book e)" using e by (simp add: engine_inv_def)
  let ?r = "new_result side q"
  have fl': "fill_levels (er_remaining_quantity ?r) (side_levels (opposite side) (me_book e)) = (n, rest, fills)"
    "0 \<le> er_remaining_quantity ?r" using fl q by (simp_all add: new_result_def)
  obtain ts e' where loop: "market_level_loop ld side ?r 0 e =
      (Inr (), ?r\<lparr>er_executed_quantity := er_executed_quantity ?r + sum_list (map snd fills),
          er_remaining_quantity := n, er_trades := er_trades ?r @ ts\<rparr>, level_total ld 0 fills, e')"
    and e': "book_ok (me_book e')" "side_levels (opposite side) (me_book e') = rest"
    "side_levels side (me_book e') = side_levels side (me_book e)"
    "ts_trades (me_trades e') = ts_trades (me_trades e) @ ts" "list_all2 (level_trade side) fills ts"
    "ts_ok (me_trades e) \<longrightarrow> ts_ok (me_trades e')"
    using market_level_loop_ok [OF b refl fl'(1) pos fl'(2) room, of ld 0] by blast
  note frame = market_level_loop_frame [OF loop]
  have "\<exists>before. levels_ok before (side_levels (opposite side) (me_book e))"
    using b by (cases side) (auto simp: book_ok_def side_levels_def)
  then have fpos: "\<forall>f \<in> set fills. 0 < snd f" using fill_levels_total [OF _ _ fl] q by force
  have "0 < sum_list (map snd fills) \<longleftrightarrow> fills \<noteq> []"
  proof (cases fills)
    case (Cons f fs)
    have "0 \<le> sum_list (map snd fs)" using fpos Cons by (intro sum_list_nonneg) auto
    then show ?thesis using fpos Cons by auto
  qed simp
  then have "execute_market_order ld side q e =
       (Inr \<lparr>er_side = side, er_requested_quantity = q, er_executed_quantity = sum_list (map snd fills),
             er_remaining_quantity = n,
             er_average_price_ticks = (if fills = [] then None else
               Some (trunc (ld (level_total ld 0 fills / ld (of_int (sum_list (map snd fills))))))),
             er_trades = ts\<rparr>, e')"
    using q none loop by (auto simp: execute_market_order_def new_result_def average_result_def)
  moreover have "engine_inv e'" using e e'(1,6) frame none by (auto simp: engine_inv_def)
  ultimately show ?thesis using e' by blast
qed

subsection \<open>The average price\<close>

text \<open>
  While the traded notional fits the significand, the sums are exact and the average lies between
  the extreme prices.
\<close>

lemma level_total_exact:
  assumes "rounding ld bound" "\<forall>f \<in> set fills. 0 < fst f \<and> 0 < snd f" "0 \<le> a"
    "a + sum_list (map (\<lambda>f. fst f * snd f) fills) \<le> bound"
  shows "level_total ld (of_int a) fills = of_int (a + sum_list (map (\<lambda>f. fst f * snd f) fills))"
  using assms(2-4)
proof (induction fills arbitrary: a)
  case (Cons f fills)
  let ?p = "fst f" and ?q = "snd f"
  have f: "0 < ?p" "0 < ?q" using Cons.prems(1) by simp_all
  have nn: "0 \<le> sum_list (map (\<lambda>f. fst f * snd f) fills)"
    using Cons.prems(1) by (intro sum_list_nonneg) (auto simp: less_imp_le)
  have "?p * 1 \<le> ?p * ?q" "1 * ?q \<le> ?p * ?q" using f by (intro mult_left_mono mult_right_mono; simp)+
  then have le: "?p \<le> bound" "?q \<le> bound" "?p * ?q \<le> bound" "a + ?p * ?q \<le> bound"
    using Cons.prems(2,3) nn by simp_all
  have ex: "ld (of_int k) = of_int k" if "0 \<le> k" "k \<le> bound" for k
    using rounding.rnd_exact [OF assms(1), of k] that by simp
  have pq: "0 \<le> ?p * ?q" using f by simp
  have "ld (ld (of_int ?p) * ld (of_int ?q)) = of_int (?p * ?q)"
    using ex [OF pq le(3)] ex [of ?p] ex [of ?q] f le by simp
  then have "add_notional ld ?p ?q (of_int a) = of_int (a + ?p * ?q)"
    using ex [of "a + ?p * ?q"] pq le(4) Cons.prems(2) by (simp add: add_notional_def)
  then show ?case
    using Cons.IH [of "a + ?p * ?q"] Cons.prems pq by (simp add: level_total_def add.assoc)
qed (simp add: level_total_def)

lemma average_between:
  assumes r: "rounding ld bound" and f: "\<forall>f \<in> set fills. 0 < fst f \<and> 0 < snd f" and ne: "fills \<noteq> []"
    and b: "sum_list (map (\<lambda>f. fst f * snd f) fills) \<le> bound"
    and lo: "\<forall>f \<in> set fills. lo \<le> fst f" and hi: "\<forall>f \<in> set fills. fst f \<le> hi" "hi \<le> bound" "0 < lo"
  shows "lo \<le> trunc (ld (level_total ld 0 fills / ld (of_int (sum_list (map snd fills)))))
    \<and> trunc (ld (level_total ld 0 fills / ld (of_int (sum_list (map snd fills))))) \<le> hi"
proof -
  let ?Q = "sum_list (map snd fills)" and ?W = "sum_list (map (\<lambda>f. fst f * snd f) fills)"
  have Q: "0 < ?Q"
  proof (cases fills)
    case (Cons g gs)
    have "0 \<le> sum_list (map snd gs)" using f Cons by (intro sum_list_nonneg) auto
    then show ?thesis using f Cons by simp
  qed (use ne in simp)
  have W: "lo * ?Q \<le> ?W" "?W \<le> hi * ?Q" "?Q \<le> ?W"
    using f lo hi(1) by (induction fills) (auto simp: distrib_left intro!: add_mono mult_right_mono)
  have lo_hi: "lo \<le> hi" using lo hi(1) ne by (cases fills) auto
  have "ld (of_int ?Q) = of_int ?Q" using rounding.rnd_exact [OF r, of ?Q] Q W(3) b by simp
  moreover have "level_total ld 0 fills = of_int ?W" using level_total_exact [OF r f, of 0] b by simp
  moreover have "of_int lo \<le> (of_int ?W / of_int ?Q :: rat)" "(of_int ?W / of_int ?Q :: rat) \<le> of_int hi"
    using W(1,2) Q by (simp_all add: le_divide_eq divide_le_eq flip: of_int_mult)
  ultimately show ?thesis using rounding.trunc_rnd_between [OF r, of lo _ hi] lo_hi hi(2,3) by simp
qed

lemma weighted_total_levels:
  "weighted_total ld fills = level_total ld 0 (map (\<lambda>f. (lo_price_ticks (fst f), snd f)) fills)"
  by (simp add: weighted_total_def level_total_def foldl_map)

text \<open>
  Both loops add each recorded trade to the result and its notional to the weighted total, so the average of a
  successful order is that of the trades it reports, whichever loop ran.
\<close>

abbreviation traded :: "trade \<Rightarrow> int \<times> int" where
  "traded t \<equiv> (tr_price_ticks t, tr_quantity t)"

definition accounts :: "rounding_mode \<Rightarrow> execution_result \<Rightarrow> rat \<Rightarrow> bool" where
  "accounts ld res w \<longleftrightarrow> w = level_total ld 0 (map traded (er_trades res))
     \<and> er_executed_quantity res = sum_list (map tr_quantity (er_trades res)) \<and> er_average_price_ticks res = None
     \<and> (\<forall>t \<in> set (er_trades res). 0 < tr_price_ticks t \<and> 0 < tr_quantity t)"

lemma accounts_fill:
  assumes "accounts ld res w" "record_trade side p q b sl ts = (Inr t, ts')"
  shows "accounts ld (fill_result t q res) (add_notional ld p q w)"
  using assms(1) record_trade_ok [OF assms(2)] by (auto simp: accounts_def fill_result_def level_total_def)

lemma market_level_step_accounts:
  assumes "market_level_step ld side res w e = (Inr b, res', w', e')" "accounts ld res w"
  shows "accounts ld res' w'"
  using assms accounts_fill [OF assms(2)]
  by (auto simp: market_level_step_def Let_def on_trades_def split: list.splits prod.splits sum.splits)

lemma market_order_step_accounts:
  assumes "market_order_step ld side res w ms e = (Inr b, res', w', ms', e')" "accounts ld res w"
  shows "accounts ld res' w'"
  using assms accounts_fill [OF assms(2)]
  by (auto simp: market_order_step_def Let_def on_trades_def split: option.splits prod.splits sum.splits)

lemma market_level_loop_accounts:
  "market_level_loop ld side res w e = (Inr (), res', w', e') \<Longrightarrow> accounts ld res w \<Longrightarrow> accounts ld res' w'"
proof (induction ld side res w e rule: market_level_loop.induct)
  case (1 ld side res w e)
  obtain r res1 w1 e1 where step: "market_level_step ld side res w e = (r, res1, w1, e1)" by (metis prod_cases4)
  show ?case
  proof (cases "er_remaining_quantity res > 0")
    case pos: True
    obtain b where r: "r = Inr b" using "1.prems"(1) pos step by (cases r) (auto simp: market_level_loop.simps)
    note acc = market_level_step_accounts [OF step [unfolded r] "1.prems"(2)]
    show ?thesis
    proof (cases b)
      case True
      then have "market_level_loop ld side res1 w1 e1 = (Inr (), res', w', e')"
        using "1.prems"(1) pos step r by (simp add: market_level_loop.simps [of ld side res])
      then show ?thesis using "1.IH" [OF pos step [symmetric] r refl refl True] acc by blast
    next
      case False
      then show ?thesis using "1.prems"(1) pos step r acc by (simp add: market_level_loop.simps)
    qed
  qed (use "1.prems" in \<open>simp add: market_level_loop.simps\<close>)
qed

lemma market_order_loop_accounts:
  "market_order_loop ld side res w ms e = (Inr (), res', w', ms', e') \<Longrightarrow> accounts ld res w \<Longrightarrow> accounts ld res' w'"
proof (induction ld side res w ms e rule: market_order_loop.induct)
  case (1 ld side res w ms e)
  obtain r res1 w1 ms1 e1 where step: "market_order_step ld side res w ms e = (r, res1, w1, ms1, e1)" by (metis prod_cases5)
  show ?case
  proof (cases "er_remaining_quantity res > 0")
    case pos: True
    obtain b where r: "r = Inr b" using "1.prems"(1) pos step by (cases r) (auto simp: market_order_loop.simps)
    note acc = market_order_step_accounts [OF step [unfolded r] "1.prems"(2)]
    show ?thesis
    proof (cases b)
      case True
      then have "market_order_loop ld side res1 w1 ms1 e1 = (Inr (), res', w', ms', e')"
        using "1.prems"(1) pos step r by (simp add: market_order_loop.simps [of ld side res])
      then show ?thesis using "1.IH" [OF pos step [symmetric] r refl refl refl True] acc by blast
    next
      case False
      then show ?thesis using "1.prems"(1) pos step r acc by (simp add: market_order_loop.simps)
    qed
  qed (use "1.prems" in \<open>simp add: market_order_loop.simps\<close>)
qed

lemma market_order_accounts:
  assumes "execute_market_order ld side q e = (Inr res, e')"
  obtains r w where "res = average_result ld r w" "accounts ld r w"
proof -
  have start: "accounts ld (new_result side q) 0" by (simp add: accounts_def new_result_def level_total_def)
  have "\<exists>r w. res = average_result ld r w \<and> accounts ld r w"
    using assms market_level_loop_accounts [OF _ start] market_order_loop_accounts [OF _ start]
    by (auto simp: execute_market_order_def Let_def market_rollback_def seq_eq_Inr_iff
        split: sum.splits if_splits prod.splits) blast+
  then show thesis using that by blast
qed

lemma trades_positive_sum: "\<forall>t \<in> set ts. 0 < tr_quantity t \<Longrightarrow> 0 < sum_list (map tr_quantity ts) \<longleftrightarrow> ts \<noteq> []"
proof (induction ts)
  case (Cons t ts)
  have "0 \<le> sum_list (map tr_quantity ts)" using Cons.prems by (intro sum_list_nonneg) auto
  then show ?case using Cons.prems by auto
qed simp

lemma market_average:
  assumes r: "rounding ld bound" and ex: "execute_market_order ld side q e = (Inr res, e')"
    and b: "sum_list (map (\<lambda>t. tr_price_ticks t * tr_quantity t) (er_trades res)) \<le> bound"
  shows "er_average_price_ticks res = (if er_trades res = [] then None else
      Some (trunc (ld (of_int (sum_list (map (\<lambda>t. tr_price_ticks t * tr_quantity t) (er_trades res)))
        / of_int (sum_list (map tr_quantity (er_trades res)))))))"
    and "er_average_price_ticks res = Some a \<Longrightarrow>
      Min (tr_price_ticks ` set (er_trades res)) \<le> a \<and> a \<le> Max (tr_price_ticks ` set (er_trades res))"
proof -
  obtain r0 w where acc: "res = average_result ld r0 w" "accounts ld r0 w" using market_order_accounts [OF ex] by blast
  define ts where "ts = er_trades res"
  have ts: "er_trades r0 = ts" using acc(1) by (simp add: ts_def average_result_def)
  have pos: "\<forall>t \<in> set ts. 0 < tr_price_ticks t \<and> 0 < tr_quantity t" using acc(2) ts by (simp add: accounts_def)
  let ?f = "map traded ts" and ?W = "sum_list (map (\<lambda>t. tr_price_ticks t * tr_quantity t) ts)" and ?Q = "sum_list (map tr_quantity ts)"
  have f: "\<forall>f \<in> set ?f. 0 < fst f \<and> 0 < snd f" using pos by simp
  have sums: "sum_list (map (\<lambda>f. fst f * snd f) ?f) = ?W" "map snd ?f = map tr_quantity ts" by (simp_all add: comp_def)
  have W: "?W \<le> bound" using b by (simp add: ts_def)
  have avg: "er_average_price_ticks res = (if ts = [] then None else Some (trunc (ld (level_total ld 0 ?f / ld (of_int ?Q)))))"
    using acc ts pos trades_positive_sum [of ts] by (auto simp: accounts_def average_result_def)
  have price: "tr_price_ticks t \<le> ?W" "tr_quantity t \<le> ?W" if "t \<in> set ts" for t
  proof -
    have "tr_price_ticks t * 1 \<le> tr_price_ticks t * tr_quantity t" "1 * tr_quantity t \<le> tr_price_ticks t * tr_quantity t"
      using pos that by (intro mult_left_mono mult_right_mono; force)+
    moreover have "tr_price_ticks t * tr_quantity t \<le> ?W" using pos that by (intro member_le_sum_list) auto
    ultimately show "tr_price_ticks t \<le> ?W" "tr_quantity t \<le> ?W" by simp_all
  qed
  have "?Q \<le> ?W" "0 \<le> ?Q" using pos by (induction ts) (auto intro!: add_mono simp: mult_le_cancel_right1)
  then have Q: "ld (of_int ?Q) = of_int ?Q" using rounding.rnd_exact [OF r, of ?Q] W by simp
  have "level_total ld 0 ?f = of_int ?W" using level_total_exact [OF r f, of 0] W sums(1) by simp
  then show "er_average_price_ticks res = (if er_trades res = [] then None else
      Some (trunc (ld (of_int (sum_list (map (\<lambda>t. tr_price_ticks t * tr_quantity t) (er_trades res)))
        / of_int (sum_list (map tr_quantity (er_trades res)))))))"
    using avg Q unfolding ts_def [symmetric] by simp
  assume a: "er_average_price_ticks res = Some a"
  then have ne: "ts \<noteq> []" using avg by auto
  let ?lo = "Min (tr_price_ticks ` set ts)" and ?hi = "Max (tr_price_ticks ` set ts)"
  have "?lo \<in> tr_price_ticks ` set ts" "?hi \<in> tr_price_ticks ` set ts" using ne by (auto intro!: Min_in Max_in)
  then have "0 < ?lo" "?hi \<le> bound" using pos price W by fastforce+
  then have "?lo \<le> trunc (ld (level_total ld 0 ?f / ld (of_int (sum_list (map snd ?f)))))
      \<and> trunc (ld (level_total ld 0 ?f / ld (of_int (sum_list (map snd ?f))))) \<le> ?hi"
    using ne W sums(1) by (intro average_between [OF r f]) auto
  then show "Min (tr_price_ticks ` set (er_trades res)) \<le> a \<and> a \<le> Max (tr_price_ticks ` set (er_trades res))"
    using a avg ne unfolding ts_def [symmetric] sums(2) by simp
qed

subsection \<open>The rollback against active orders\<close>

text \<open>
  The journal entry is pushed before the trade is recorded, and the rollback gives the executed
  quantity of every entry back to the book. When recording throws, the book was not reduced for
  the last entry, so the rollback adds a quantity that was never taken.
\<close>

lemma market_rollback_inflates:
  assumes e: "engine_inv e" and full: "store_full e" and q: "0 < q" "q \<le> INT64_MAX"
    and qu: "queue (opposite side) (me_orders e) = x # xs"
    and fits: "book_qty (me_book e) (opposite side) (lo_price_ticks x) + min q (lo_remaining_quantity x) \<le> INT64_MAX"
  shows "execute_market_order ld side q e = (Inl Length_error,
      e\<lparr>me_book := put_level (opposite side) (lo_price_ticks x)
           (book_qty (me_book e) (opposite side) (lo_price_ticks x) + min q (lo_remaining_quantity x)) (me_book e)\<rparr>)"
proof -
  have wf: "om_wf (me_orders e)" using e by (simp add: engine_inv_def orders_ok_def)
  have x: "x \<in> set (om_orders (me_orders e))" "lo_side x = opposite side"
    using queue_mem [OF wf, of x "opposite side"] qu by simp_all
  then have ne: "om_orders (me_orders e) \<noteq> []" by auto
  then have s: "synced e" using e by (simp add: engine_inv_def)
  have xo: "order_ok x" using syncedD(2) [OF s x(1)] .
  let ?q = "min q (lo_remaining_quantity x)" and ?m = "new_mutation (min q (lo_remaining_quantity x)) x"
  have step: "market_order_step ld side (new_result side q) 0 [] e = (Inl Length_error, new_result side q, 0, [?m], e)"
    using market_order_step_fill(1) [OF s _ qu full, of "new_result side q" ld 0 "[]"] q by (simp add: new_result_def)
  have loop: "market_order_loop ld side (new_result side q) 0 [] e = (Inl Length_error, new_result side q, 0, [?m], e)"
    using step q(1) by (subst market_order_loop.simps) (simp add: new_result_def)
  have "i64 ?q" "0 \<le> lo_price_ticks x" "0 \<le> ?q" using q order_okD(1-3) [OF xo] by (simp_all add: i64_def INT64_MIN_eq min_le_iff_disj)
  then have adj: "adjust_order_book (opposite side) (lo_price_ticks x) ?q e =
      (Inr (), e\<lparr>me_book := put_level (opposite side) (lo_price_ticks x)
           (book_qty (me_book e) (opposite side) (lo_price_ticks x) + ?q) (me_book e)\<rparr>)"
    using book_qty_range [OF syncedD(3) [OF s], of "opposite side" "lo_price_ticks x"] fits
    by (intro adjust_order_book_ok) (auto simp: syncedD(3) [OF s])
  have m: "mu_side ?m = opposite side" "mu_price_ticks ?m = lo_price_ticks x" "mu_executed_quantity ?m = ?q"
    using x(2) by (simp_all add: new_mutation_def)
  have "on_orders (undo_order ?m) e = (Inr (), e)" by (simp add: on_orders_def undo_unfilled [OF wf x(1)])
  then have "undo_executions (rev [?m]) e =
      (Inr (), e\<lparr>me_book := put_level (opposite side) (lo_price_ticks x)
           (book_qty (me_book e) (opposite side) (lo_price_ticks x) + ?q) (me_book e)\<rparr>)"
    using adj by (simp add: m)
  then show ?thesis
    using q(1) ne loop rollback_checkpoint [OF ts_extends_refl]
    by (simp add: execute_market_order_def market_rollback_def on_trades_def)
qed

lemma market_rollback_breaks_inv:
  assumes e: "engine_inv e" and full: "store_full e" and q: "0 < q" "q \<le> INT64_MAX"
    and qu: "queue (opposite side) (me_orders e) = x # xs"
    and fits: "book_qty (me_book e) (opposite side) (lo_price_ticks x) + min q (lo_remaining_quantity x) \<le> INT64_MAX"
    and ex: "execute_market_order ld side q e = (r, e')"
  shows "r = Inl Length_error" "me_orders e' = me_orders e" "\<not> engine_inv e'"
    "book_qty (me_book e') (opposite side) (lo_price_ticks x) =
       book_qty (me_book e) (opposite side) (lo_price_ticks x) + min q (lo_remaining_quantity x)"
proof -
  note res = market_rollback_inflates [OF e full q qu fits, of ld]
  have wf: "om_wf (me_orders e)" using e by (simp add: engine_inv_def orders_ok_def)
  have x: "x \<in> set (om_orders (me_orders e))" using queue_mem [OF wf, of x "opposite side"] qu by simp
  then have s: "synced e" using e by (auto simp: engine_inv_def)
  have xo: "order_ok x" using syncedD(2) [OF s x] .
  show r: "r = Inl Length_error" "me_orders e' = me_orders e" using res ex by auto
  have "0 \<le> lo_price_ticks x" "0 \<le> book_qty (me_book e) (opposite side) (lo_price_ticks x) + min q (lo_remaining_quantity x)"
    using order_okD(1,2) [OF xo] q(1) book_qty_range [OF syncedD(3) [OF s]] by (simp_all add: add_nonneg_nonneg)
  from put_level_ok(2) [OF syncedD(3) [OF s] this fits, of "opposite side"]
  show b: "book_qty (me_book e') (opposite side) (lo_price_ticks x) =
       book_qty (me_book e) (opposite side) (lo_price_ticks x) + min q (lo_remaining_quantity x)"
    using res ex by auto
  show "\<not> engine_inv e'"
  proof
    assume "engine_inv e'"
    then have "synced e'" using r(2) x by (auto simp: engine_inv_def)
    then have "book_qty (me_book e') (opposite side) (lo_price_ticks x)
        = book_qty (me_book e) (opposite side) (lo_price_ticks x)"
      using syncedD(4) s r(2) by simp
    then show False using b q(1) order_okD(2) [OF xo] by simp
  qed
qed

end
