(* ===== verification/Modify_Orders.thy ===== *)
theory Modify_Orders
  imports Market_Orders
begin

text \<open>
  Modifying an order. At the same price the order is edited in place and goes to the back of its
  level only when its quantity grows; at a new price it leaves its place and is placed anew under
  the same id. A failing modification leaves the engine as it was as long as the trade store does
  not run full in its loop.
\<close>

subsection \<open>Same price\<close>

definition resized :: "int \<Rightarrow> limit_order \<Rightarrow> limit_order" where
  "resized q x = x\<lparr>lo_original_quantity := q, lo_remaining_quantity := q\<rparr>"

definition resequenced :: "sequence_number \<Rightarrow> limit_order \<Rightarrow> limit_order" where
  "resequenced s x = x\<lparr>lo_sequence_number := s\<rparr>"

lemma uncrossed_update:
  assumes "uncrossed xs" "i < length xs" "lo_side y = lo_side (xs ! i)" "lo_price_ticks y = lo_price_ticks (xs ! i)"
  shows "uncrossed (xs[i := y])"
proof -
  have "\<exists>x \<in> set xs. lo_side x = lo_side z \<and> lo_price_ticks x = lo_price_ticks z" if "z \<in> set (xs[i := y])" for z
  proof -
    have "z = y \<or> z \<in> set xs" using that set_update_subset_insert [of xs i y] by auto
    then show ?thesis using assms(3,4) nth_mem [OF assms(2)] by metis
  qed
  then show ?thesis using assms(1) unfolding uncrossed_def by metis
qed

text \<open>
  Editing an order in place after the book has been adjusted by the difference: the manager may
  have moved the order to another priority, the vector position is the same.
\<close>

lemma resize_synced:
  assumes e: "engine_inv e" and i: "i < length (om_orders (me_orders e))" "om_orders (me_orders e) ! i = x"
    and om': "om_wf om'" "om_orders om' = (om_orders (me_orders e))[i := y]"
    and y: "order_ok y" "lo_order_id y = lo_order_id x" "lo_side y = lo_side x" "lo_price_ticks y = lo_price_ticks x"
    and d: "d = lo_remaining_quantity y - lo_remaining_quantity x"
    and fits: "book_qty (me_book e) (lo_side x) (lo_price_ticks x) + d \<le> INT64_MAX"
  shows "\<exists>b. (\<forall>c. me_book c = me_book e \<longrightarrow>
        adjust_if_nonzero (lo_side x) (lo_price_ticks x) d c = (Inr (), c\<lparr>me_book := b\<rparr>))
    \<and> (\<forall>n. engine_inv (e\<lparr>me_book := b, me_orders := om', me_next_sequence := n\<rparr>)
          \<and> synced (e\<lparr>me_book := b, me_orders := om', me_next_sequence := n\<rparr>))"
proof -
  let ?xs = "om_orders (me_orders e)" and ?s = "lo_side x" and ?p = "lo_price_ticks x"
  have mem: "x \<in> set ?xs" using i by auto
  then have s: "synced e" using e by (auto simp: engine_inv_def)
  have xo: "order_ok x" using syncedD(2) [OF s mem] .
  have i64: "i64 d" "i64 (- d)" using order_okD(2,3) [OF xo] order_okD(2,3) [OF y(1)] d by (simp_all add: i64_def INT64_MIN_eq)
  have p: "0 \<le> ?p" using order_okD(1) [OF xo] by simp
  have split: "?xs = take i ?xs @ x # drop (Suc i) ?xs" using id_take_nth_drop [OF i(1)] i(2) by simp
  have rest: "resting_in (om_orders om') = (resting_in ?xs)(?s := (resting_in ?xs ?s)(?p := resting_in ?xs ?s ?p + d))"
  proof (intro ext)
    fix s' p'
    have "resting_in ?xs s' p' = resting_in (take i ?xs @ x # drop (Suc i) ?xs) s' p'" using split by simp
    moreover have "resting_in (om_orders om') s' p' = resting_in (take i ?xs @ y # drop (Suc i) ?xs) s' p'"
      using om'(2) upd_conv_take_nth_drop [OF i(1), of y] by simp
    ultimately have "resting_in (om_orders om') s' p' = resting_in ?xs s' p' + (if s' = ?s \<and> p' = ?p then d else 0)"
      using y(3,4) d by auto
    then show "resting_in (om_orders om') s' p' = ((resting_in ?xs)(?s := (resting_in ?xs ?s)(?p := resting_in ?xs ?s ?p + d))) s' p'"
      by simp
  qed
  have ok: "orders_ok om'"
    using e om' y(1) set_update_subset_insert [of ?xs i y] by (auto simp: orders_ok_def engine_inv_def)
  have bound: "resting_in ?xs ?s ?p + d \<le> INT64_MAX" using fits syncedD(4) [OF s] by simp
  obtain b where b: "adjust_order_book ?s ?p d e = (Inr (), e\<lparr>me_book := b\<rparr>)" "synced (e\<lparr>me_book := b, me_orders := om'\<rparr>)"
    by (rule synced_adjust [OF s ok p i64(1) rest bound refl])
  have qty: "book_qty b = (book_qty (me_book e))(?s := (book_qty (me_book e) ?s)(?p := book_qty (me_book e) ?s ?p + d))"
    using b(2) s rest by (simp add: synced_def)
  have bok: "book_ok b" using b(2) by (simp add: synced_def)
  have fwd: "adjust_if_nonzero ?s ?p d c = (Inr (), c\<lparr>me_book := b\<rparr>)" if "me_book c = me_book e" for c
  proof (cases "d = 0")
    case True
    then have "b = me_book e" using qty by (intro book_ext [OF bok syncedD(3) [OF s]]) simp
    then show ?thesis using True that by (simp add: adjust_if_nonzero_def)
  next
    case False
    then show ?thesis
      using adjust_back [OF bok _ p i64(1), of c ?s] qty that syncedD(3) [OF s] by (simp add: adjust_if_nonzero_def)
  qed
  have un: "uncrossed (om_orders om')"
    using uncrossed_update [of ?xs i y] e i y(3,4) om'(2) by (simp add: engine_inv_def)
  have ids: "\<forall>z \<in> set (om_orders om'). lo_order_id z < next_order_id (me_ids e)"
    using e om'(2) y(2) mem set_update_subset_insert [of ?xs i y] by (auto simp: engine_inv_def)
  have inv: "engine_inv (e\<lparr>me_book := b, me_orders := om', me_next_sequence := n\<rparr>)" for n
    using e b(2) un ids by (simp add: engine_inv_def synced_def)
  have "synced (e\<lparr>me_book := b, me_orders := om', me_next_sequence := n\<rparr>)" for n
    using b(2) by (simp add: synced_def)
  then show ?thesis using fwd inv by blast
qed

lemma om_write_at:
  "om_wf om \<Longrightarrow> i < length (om_orders om) \<Longrightarrow> om_orders om ! i = x \<Longrightarrow>
   om_write_order (lo_order_id x) f om = om\<lparr>om_orders := (om_orders om)[i := f x]\<rparr>"
  using om_wf_nth_index [of om i] by (auto simp: om_write_order_def)

lemma resized_simps [simp]:
  "lo_order_id (resized q x) = lo_order_id x" "lo_side (resized q x) = lo_side x"
  "lo_price_ticks (resized q x) = lo_price_ticks x" "lo_sequence_number (resized q x) = lo_sequence_number x"
  "lo_remaining_quantity (resized q x) = q" "lo_original_quantity (resized q x) = q"
  "make_priority_key (resized q x) = make_priority_key x"
  "lo_order_id (resequenced n x) = lo_order_id x" "lo_side (resequenced n x) = lo_side x"
  "lo_price_ticks (resequenced n x) = lo_price_ticks x" "lo_sequence_number (resequenced n x) = n"
  "lo_remaining_quantity (resequenced n x) = lo_remaining_quantity x"
  by (simp_all add: resized_def resequenced_def make_priority_key_def)

definition modified_in_place :: "int \<Rightarrow> sequence_number \<Rightarrow> limit_order \<Rightarrow> limit_order" where
  "modified_in_place q n x = (if q > lo_remaining_quantity x then resized q (resequenced n x) else resized q x)"

text \<open>When the modification in place succeeds, and its effect.\<close>

text \<open>A reduction keeps the place in the queue; an increase renews it.\<close>

lemma modify_same_price_keeps:
  assumes e: "engine_inv e" and x: "om_find_order (me_orders e) k = Some x" and q: "0 < q" "q \<le> INT64_MAX"
    and fits: "book_qty (me_book e) (lo_side x) (lo_price_ticks x) + (q - lo_remaining_quantity x) \<le> INT64_MAX"
    and less: "\<not> q > lo_remaining_quantity x"
  shows "\<exists>i e'. modify_same_price k x q e = (Inr True, e') \<and> engine_inv e' \<and> synced e'
    \<and> i < length (om_orders (me_orders e)) \<and> om_orders (me_orders e) ! i = x
    \<and> om_orders (me_orders e') = (om_orders (me_orders e))[i := modified_in_place q (me_next_sequence e) x]
    \<and> me_trades e' = me_trades e \<and> me_ids e' = me_ids e
    \<and> me_next_sequence e' = me_next_sequence e"
proof -
  let ?om = "me_orders e" and ?d = "q - lo_remaining_quantity x"
  have wf: "om_wf ?om" using e by (simp add: engine_inv_def orders_ok_def)
  have k: "lo_order_id x = k" "x \<in> set (om_orders ?om)" using x om_find_order_Some_iff [OF wf] by simp_all
  then have xo: "order_ok x" using e by (auto simp: engine_inv_def orders_ok_def)
  obtain i where i: "i < length (om_orders ?om)" "om_orders ?om ! i = x" using k(2) by (auto simp: in_set_conv_nth)
  let ?y = "resized q x" and ?om' = "?om\<lparr>om_orders := (om_orders ?om)[i := resized q x]\<rparr>"
  have wf': "om_wf ?om'" using om_wf_write [OF wf i(1), of ?y] i(2) by (simp add: same_key_def)
  have orders': "om_orders ?om' = (om_orders ?om)[i := ?y]" by simp
  have yo: "order_ok ?y" using xo q by (auto simp: order_ok_def order_valid_def)
  obtain b where b: "\<And>c. me_book c = me_book e \<Longrightarrow>
      adjust_if_nonzero (lo_side x) (lo_price_ticks x) ?d c = (Inr (), c\<lparr>me_book := b\<rparr>)"
    and inv: "\<And>n. engine_inv (e\<lparr>me_book := b, me_orders := ?om', me_next_sequence := n\<rparr>)"
    "\<And>n. synced (e\<lparr>me_book := b, me_orders := ?om', me_next_sequence := n\<rparr>)"
    using resize_synced [OF e i wf' orders' yo, of ?d] fits unfolding resized_simps by blast
  have w: "om_write_order k (\<lambda>o1. o1\<lparr>lo_original_quantity := q, lo_remaining_quantity := q\<rparr>) ?om = ?om'"
    using om_write_at [OF wf i] k(1) by (simp add: resized_def)
  have "modify_same_price k x q e = (Inr True, e\<lparr>me_book := b, me_orders := ?om'\<rparr>)"
    using less b [OF refl] x w by (simp add: modify_same_price_def Let_def)
  moreover have "engine_inv (e\<lparr>me_book := b, me_orders := ?om'\<rparr>)" "synced (e\<lparr>me_book := b, me_orders := ?om'\<rparr>)"
    using inv(1) [of "me_next_sequence e"] inv(2) [of "me_next_sequence e"] by simp_all
  ultimately show ?thesis using i less by (intro exI [of _ i]) (simp add: modified_in_place_def)
qed

lemma modify_same_price_renews:
  assumes e: "engine_inv e" and x: "om_find_order (me_orders e) k = Some x" and q: "0 < q" "q \<le> INT64_MAX"
    and fits: "book_qty (me_book e) (lo_side x) (lo_price_ticks x) + (q - lo_remaining_quantity x) \<le> INT64_MAX"
    and more: "q > lo_remaining_quantity x" and n0: "me_next_sequence e \<noteq> 0"
  shows "\<exists>i e'. modify_same_price k x q e = (Inr True, e') \<and> engine_inv e' \<and> synced e'
    \<and> i < length (om_orders (me_orders e)) \<and> om_orders (me_orders e) ! i = x
    \<and> om_orders (me_orders e') = (om_orders (me_orders e))[i := modified_in_place q (me_next_sequence e) x]
    \<and> me_trades e' = me_trades e \<and> me_ids e' = me_ids e
    \<and> me_next_sequence e' = me_next_sequence e + 1"
proof -
  let ?om = "me_orders e" and ?d = "q - lo_remaining_quantity x"
  have wf: "om_wf ?om" using e by (simp add: engine_inv_def orders_ok_def)
  have k: "lo_order_id x = k" "x \<in> set (om_orders ?om)" using x om_find_order_Some_iff [OF wf] by simp_all
  then have xo: "order_ok x" using e by (auto simp: engine_inv_def orders_ok_def)
  let ?n = "me_next_sequence e" and ?y = "resized q (resequenced (me_next_sequence e) x)"
  obtain i om1 where u: "om_update_sequence_number k ?n ?om = (Inr True, om1)" "om_wf om1"
    "i < length (om_orders ?om)" "om_orders ?om ! i = x"
    "om_orders om1 = (om_orders ?om)[i := x\<lparr>lo_sequence_number := ?n\<rparr>]" "om_max_size om1 = om_max_size ?om"
    using om_update_sequence_ok [OF wf x n0] by metis
  have i1: "i < length (om_orders om1)" "om_orders om1 ! i = resequenced ?n x"
    using u(3,5) by (simp_all add: resequenced_def)
  let ?om' = "om1\<lparr>om_orders := (om_orders om1)[i := ?y]\<rparr>"
  have wf': "om_wf ?om'" using om_wf_write [OF u(2) i1(1), of ?y] i1(2) by (simp add: same_key_def)
  have orders': "om_orders ?om' = (om_orders ?om)[i := ?y]" using u(5) by simp
  have yo: "order_ok ?y" using xo q n0 by (auto simp: order_ok_def order_valid_def)
  obtain b where b: "\<And>c. me_book c = me_book e \<Longrightarrow>
      adjust_if_nonzero (lo_side x) (lo_price_ticks x) ?d c = (Inr (), c\<lparr>me_book := b\<rparr>)"
    and inv: "\<And>n. engine_inv (e\<lparr>me_book := b, me_orders := ?om', me_next_sequence := n\<rparr>)"
    "\<And>n. synced (e\<lparr>me_book := b, me_orders := ?om', me_next_sequence := n\<rparr>)"
    using resize_synced [OF e u(3,4) wf' orders' yo, of ?d] fits unfolding resized_simps by blast
  have find1: "om_find_order om1 k = Some (resequenced ?n x)"
    using om_find_order_mem [OF u(2), of "resequenced ?n x"] i1 k(1) nth_mem [OF i1(1)] by simp
  have w: "om_write_order k (\<lambda>o1. o1\<lparr>lo_original_quantity := q, lo_remaining_quantity := q\<rparr>) om1 = ?om'"
    using om_write_at [OF u(2) i1] k(1) by (simp add: resized_def)
  have "modify_same_price k x q e = (Inr True, e\<lparr>me_book := b, me_orders := ?om', me_next_sequence := ?n + 1\<rparr>)"
    using more b [OF refl] u(1) find1 w by (simp add: modify_same_price_def modify_renew_priority_def on_orders_def Let_def)
  then show ?thesis using inv [of "?n + 1"] u(3,4) orders' more by (intro exI [of _ i]) (simp add: modified_in_place_def)
qed

lemma modify_same_price_ok:
  assumes e: "engine_inv e" and x: "om_find_order (me_orders e) k = Some x" and q: "0 < q" "q \<le> INT64_MAX"
    and fits: "book_qty (me_book e) (lo_side x) (lo_price_ticks x) + (q - lo_remaining_quantity x) \<le> INT64_MAX"
    and sq: "q \<le> lo_remaining_quantity x \<or> me_next_sequence e \<noteq> 0"
  shows "\<exists>i e'. modify_same_price k x q e = (Inr True, e') \<and> engine_inv e' \<and> synced e'
    \<and> i < length (om_orders (me_orders e)) \<and> om_orders (me_orders e) ! i = x
    \<and> om_orders (me_orders e') = (om_orders (me_orders e))[i := modified_in_place q (me_next_sequence e) x]
    \<and> me_trades e' = me_trades e \<and> me_ids e' = me_ids e
    \<and> me_next_sequence e' = (if q > lo_remaining_quantity x then me_next_sequence e + 1 else me_next_sequence e)"
  using modify_same_price_keeps [OF e x q fits] modify_same_price_renews [OF e x q fits] sq
  by (cases "q > lo_remaining_quantity x") simp_all

lemma modify_same_price_fails:
  assumes e: "engine_inv e" and x: "om_find_order (me_orders e) k = Some x" and q: "0 < q" "q \<le> INT64_MAX"
    and fails: "modify_same_price k x q e = (Inl err, e')"
  shows "e' = e"
proof -
  let ?d = "q - lo_remaining_quantity x"
  have wf: "om_wf (me_orders e)" using e by (simp add: engine_inv_def orders_ok_def)
  have k: "lo_order_id x = k" "x \<in> set (om_orders (me_orders e))" using x om_find_order_Some_iff [OF wf] by simp_all
  then have xo: "order_ok x" and s: "synced e" using e by (auto simp: engine_inv_def orders_ok_def)
  show ?thesis
  proof (cases "book_qty (me_book e) (lo_side x) (lo_price_ticks x) + ?d \<le> INT64_MAX")
    case fits: True
    then have sq: "q > lo_remaining_quantity x" "me_next_sequence e = 0"
      using modify_same_price_ok [OF e x q fits] fails by force+
    have i64: "i64 ?d" "i64 (- ?d)" and p: "0 \<le> lo_price_ticks x"
      using order_okD(1-3) [OF xo] q by (simp_all add: i64_def INT64_MIN_eq)
    have nn: "0 \<le> book_qty (me_book e) (lo_side x) (lo_price_ticks x) + ?d"
      using sq(1) book_qty_range [OF syncedD(3) [OF s], of "lo_side x" "lo_price_ticks x"] by simp
    let ?b = "put_level (lo_side x) (lo_price_ticks x) (book_qty (me_book e) (lo_side x) (lo_price_ticks x) + ?d) (me_book e)"
    have fwd: "adjust_if_nonzero (lo_side x) (lo_price_ticks x) ?d e = (Inr (), e\<lparr>me_book := ?b\<rparr>)"
      using sq(1) adjust_order_book_ok [OF syncedD(3) [OF s] p i64(1) nn fits] by (simp add: adjust_if_nonzero_def)
    have bwd: "adjust_if_nonzero (lo_side x) (lo_price_ticks x) (- ?d) (e\<lparr>me_book := ?b\<rparr>) = (Inr (), e)"
      using sq(1) adjust_back [OF syncedD(3) [OF s] _ p i64(2), of "e\<lparr>me_book := ?b\<rparr>" "lo_side x"]
        put_level_ok [OF syncedD(3) [OF s] p nn fits, of "lo_side x"]
      by (simp add: adjust_if_nonzero_def)
    show ?thesis
      using fails sq fwd bwd
      by (simp add: modify_same_price_def modify_renew_priority_def on_orders_def om_update_sequence_number_def Let_def)
  next
    case False
    then have d: "?d \<noteq> 0" using book_qty_range [OF syncedD(3) [OF s], of "lo_side x" "lo_price_ticks x"] by auto
    have "i64 ?d" "0 \<le> lo_price_ticks x" using order_okD(1-3) [OF xo] q by (simp_all add: i64_def INT64_MIN_eq)
    then have "\<exists>err. adjust_order_book (lo_side x) (lo_price_ticks x) ?d e = (Inl err, e)"
      using False adjust_order_book_eq [OF syncedD(3) [OF s], of "lo_price_ticks x" ?d "lo_side x"] by (auto simp: Let_def)
    then show ?thesis using fails d by (auto simp: modify_same_price_def adjust_if_nonzero_def Let_def)
  qed
qed

lemma modify_same_price_needs:
  assumes e: "engine_inv e" and x: "om_find_order (me_orders e) k = Some x" and q: "0 < q" "q \<le> INT64_MAX"
    and ok: "modify_same_price k x q e = (Inr u, e')"
  shows "book_qty (me_book e) (lo_side x) (lo_price_ticks x) + (q - lo_remaining_quantity x) \<le> INT64_MAX"
    and "q \<le> lo_remaining_quantity x \<or> me_next_sequence e \<noteq> 0"
proof -
  let ?d = "q - lo_remaining_quantity x"
  have mem: "x \<in> set (om_orders (me_orders e))"
    using x e om_find_order_Some_iff [of "me_orders e"] by (simp add: engine_inv_def orders_ok_def)
  then have s: "synced e" and xo: "order_ok x" using e by (auto simp: engine_inv_def orders_ok_def)
  have i64: "i64 ?d" "0 \<le> lo_price_ticks x" using order_okD(1-3) [OF xo] q by (simp_all add: i64_def INT64_MIN_eq)
  obtain c where c: "adjust_if_nonzero (lo_side x) (lo_price_ticks x) ?d e = (Inr (), c)"
    using ok by (auto simp: modify_same_price_def Let_def seq_eq_Inr_iff)
  show "book_qty (me_book e) (lo_side x) (lo_price_ticks x) + ?d \<le> INT64_MAX"
  proof (cases "?d = 0")
    case True
    then show ?thesis using book_qty_range [OF syncedD(3) [OF s], of "lo_side x" "lo_price_ticks x"] by simp
  next
    case False
    then show ?thesis
      using c adjust_order_book_eq [OF syncedD(3) [OF s] i64(2,1), of "lo_side x"]
      by (auto simp: adjust_if_nonzero_def Let_def split: if_splits)
  qed
  have "me_next_sequence c = me_next_sequence e"
    using c by (auto simp: adjust_if_nonzero_def adjust_order_book_def split: if_splits prod.splits)
  moreover have "\<not> (\<exists>v d. modify_renew_priority k x ?d c = (Inr v, d))" if "me_next_sequence c = 0"
    using that by (auto simp: modify_renew_priority_def on_orders_def om_update_sequence_number_def seq_eq_Inr_iff)
  ultimately show "q \<le> lo_remaining_quantity x \<or> me_next_sequence e \<noteq> 0"
    using ok c by (cases "q > lo_remaining_quantity x") (auto simp: modify_same_price_def Let_def seq_eq_Inr_iff)
qed

subsection \<open>New price\<close>

text \<open>The original order leaves the manager and the book; both steps can be taken back.\<close>

definition taken_out :: "matching_engine \<Rightarrow> nat \<Rightarrow> limit_order \<Rightarrow> order_manager \<Rightarrow> order_book \<Rightarrow> bool" where
  "taken_out e i x om' b \<longleftrightarrow>
     i < length (om_orders (me_orders e)) \<and> om_orders (me_orders e) ! i = x
     \<and> om_wf om' \<and> om_orders om' = swap_remove i (om_orders (me_orders e))
     \<and> om_max_size om' = om_max_size (me_orders e)
     \<and> engine_inv (e\<lparr>me_orders := om', me_book := b\<rparr>) \<and> synced (e\<lparr>me_orders := om', me_book := b\<rparr>)
     \<and> (\<forall>c. me_book c = b \<longrightarrow> adjust_order_book (lo_side x) (lo_price_ticks x) (lo_remaining_quantity x) c
          = (Inr (), c\<lparr>me_book := me_book e\<rparr>))"

lemma take_out:
  assumes e: "engine_inv e" and x: "om_find_order (me_orders e) k = Some x"
  obtains i om' b where
    "om_cancel_order_removal k empty_removal (me_orders e) = (Inr True, om', removal_of (me_orders e) i empty_removal)"
    "adjust_order_book (lo_side x) (lo_price_ticks x) (- lo_remaining_quantity x) (e\<lparr>me_orders := om'\<rparr>)
       = (Inr (), e\<lparr>me_orders := om', me_book := b\<rparr>)"
    "taken_out e i x om' b"
proof -
  let ?s = "lo_side x" and ?p = "lo_price_ticks x" and ?r = "lo_remaining_quantity x" and ?xs = "om_orders (me_orders e)"
  have wf: "om_wf (me_orders e)" using e by (simp add: engine_inv_def orders_ok_def)
  have mem: "x \<in> set ?xs" using x om_find_order_Some_iff [OF wf] by simp
  then have s: "synced e" and xo: "order_ok x" using e by (auto simp: engine_inv_def orders_ok_def)
  obtain i om' where c: "om_cancel_order_removal k empty_removal (me_orders e) = (Inr True, om', removal_of (me_orders e) i empty_removal)"
    "om_wf om'" "i < length ?xs" "?xs ! i = x" "om_orders om' = swap_remove i ?xs" "om_max_size om' = om_max_size (me_orders e)"
    using om_cancel_order_removal_ok [OF wf x] by metis
  obtain om2 j where c2: "om_cancel_order k (me_orders e) = (Inr True, om2)" "om_wf om2" "j < length ?xs" "?xs ! j = x"
    "om_orders om2 = swap_remove j ?xs" "om_max_size om2 = om_max_size (me_orders e)"
    using om_cancel_order_ok [OF wf x] by metis
  have "j = i" using om_wf_nth_index [OF wf c2(3)] om_wf_nth_index [OF wf c(3)] c(4) c2(4) by simp
  then have "om2 = om'" using om_wf_ext [OF c2(2) c(2)] c(5,6) c2(5,6) by simp
  obtain e' where e': "cancel_order k e = (Inr True, e')" "engine_inv e'" "synced e'"
    using cancel_order_known [OF e x] by metis
  have i64: "i64 ?r" "i64 (- ?r)" and p: "0 \<le> ?p"
    using order_okD(1-3) [OF xo] by (simp_all add: i64_def INT64_MIN_eq)
  have nn: "0 \<le> book_qty (me_book e) ?s ?p + - ?r" "book_qty (me_book e) ?s ?p + - ?r \<le> INT64_MAX"
    using resting_bounds [OF s mem] book_qty_range [OF syncedD(3) [OF s], of ?s ?p] order_okD(2) [OF xo] by simp_all
  define b where "b = put_level ?s ?p (book_qty (me_book e) ?s ?p + - ?r) (me_book e)"
  have b: "book_ok b" "book_qty b = (book_qty (me_book e))(?s := (book_qty (me_book e) ?s)(?p := book_qty (me_book e) ?s ?p + - ?r))"
    unfolding b_def by (rule put_level_ok [OF syncedD(3) [OF s] p nn])+
  have adj: "adjust_order_book ?s ?p (- ?r) (e\<lparr>me_orders := om'\<rparr>) = (Inr (), e\<lparr>me_orders := om', me_book := b\<rparr>)"
    using adjust_order_book_ok [of "e\<lparr>me_orders := om'\<rparr>" ?p "- ?r" ?s] syncedD(3) [OF s] p i64(2) nn by (simp add: b_def)
  then have "e' = e\<lparr>me_orders := om', me_book := b\<rparr>"
    using e'(1) x c2(1) \<open>om2 = om'\<close> by (simp add: cancel_order_def on_orders_def)
  then have inv: "engine_inv (e\<lparr>me_orders := om', me_book := b\<rparr>)" "synced (e\<lparr>me_orders := om', me_book := b\<rparr>)"
    using e'(2,3) by simp_all
  have undo_adj: "adjust_order_book ?s ?p ?r c = (Inr (), c\<lparr>me_book := me_book e\<rparr>)" if "me_book c = b" for c
    by (rule adjust_back [OF syncedD(3) [OF s] _ p i64(1)]) (simp_all add: that b)
  have "taken_out e i x om' b"
    unfolding taken_out_def by (intro conjI allI impI c(2-6) inv undo_adj)
  then show ?thesis using that c(1) adj by blast
qed

text \<open>The \<open>catch\<close> block, once the journal's own part is undone.\<close>

lemma modify_rollback_eq:
  assumes e: "engine_inv e" and out: "taken_out e i x om' b"
    and und: "undo_executions (rev js) c = (Inr (), c\<lparr>me_orders := om', me_book := b\<rparr>)"
    and ts: "ts_extends (me_trades e) (me_trades c)" and ids: "me_ids c = me_ids e"
  shows "modify_rollback err x m (removal_of (me_orders e) i empty_removal) True True False False js
      (me_next_sequence e) (checkpoint (me_trades e)) c = (Inl err, e)"
proof -
  have wf: "om_wf (me_orders e)" using e by (simp add: engine_inv_def orders_ok_def)
  have o: "i < length (om_orders (me_orders e))" "om_orders (me_orders e) ! i = x" "om_wf om'"
    "om_orders om' = swap_remove i (om_orders (me_orders e))" "om_max_size om' = om_max_size (me_orders e)"
    and adj: "\<And>c. me_book c = b \<Longrightarrow> adjust_order_book (lo_side x) (lo_price_ticks x) (lo_remaining_quantity x) c
          = (Inr (), c\<lparr>me_book := me_book e\<rparr>)"
    using out by (simp_all add: taken_out_def)
  have "same_key (om_orders (me_orders e) ! i) x" using o(2) same_key_refl by simp
  then obtain r' where "om_restore_removal ((removal_of (me_orders e) i empty_removal)\<lparr>rm_removed_order := x\<rparr>) om'
      = (Inr (), (me_orders e)\<lparr>om_orders := (om_orders (me_orders e))[i := x]\<rparr>, r')"
    using om_restore_removal_ok [OF wf o(1,3,4,5)] by blast
  moreover have "(me_orders e)\<lparr>om_orders := (om_orders (me_orders e))[i := x]\<rparr> = me_orders e"
    unfolding o(2) [symmetric] by simp
  ultimately have restore: "om_restore_removal ((removal_of (me_orders e) i empty_removal)\<lparr>rm_removed_order := x\<rparr>) om'
      = (Inr (), me_orders e, r')" by simp
  have "c\<lparr>me_book := me_book e, me_orders := me_orders e, me_next_sequence := me_next_sequence e,
      me_trades := me_trades e\<rparr> = e"
    using ids by (intro engine_eqI) simp_all
  then show ?thesis
    using und adj [of "c\<lparr>me_orders := om', me_book := b\<rparr>"] restore rollback_checkpoint [OF ts]
    by (simp add: modify_rollback_def on_orders_def on_trades_def)
qed

lemma modify_rollback_added:
  assumes e: "engine_inv e" and out: "taken_out e i x om' b"
    and c: "om_wf om1" "om_add_order m om1 = (Inr (), me_orders c)"
    and und: "undo_executions (rev js) (c\<lparr>me_orders := om1\<rparr>) = (Inr (), c\<lparr>me_orders := om', me_book := b\<rparr>)"
    and ts: "ts_extends (me_trades e) (me_trades c)" and ids: "me_ids c = me_ids e"
  shows "modify_rollback err x m (removal_of (me_orders e) i empty_removal) True True True False js
      (me_next_sequence e) (checkpoint (me_trades e)) c = (Inl err, e)"
proof -
  let ?r = "removal_of (me_orders e) i empty_removal"
  have "modify_rollback err x m ?r True True True False js (me_next_sequence e) (checkpoint (me_trades e)) c
      = modify_rollback err x m ?r True True False False js (me_next_sequence e) (checkpoint (me_trades e)) (c\<lparr>me_orders := om1\<rparr>)"
    using cancel_after_add [OF c] by (simp add: modify_rollback_def on_orders_def)
  also have "\<dots> = (Inl err, e)" using und ts ids by (intro modify_rollback_eq [OF e out]) simp_all
  finally show ?thesis .
qed

text \<open>The order as it is placed anew: same id and side, the engine's next sequence number.\<close>

definition repriced :: "int \<Rightarrow> int \<Rightarrow> sequence_number \<Rightarrow> limit_order \<Rightarrow> limit_order" where
  "repriced p q n x = x\<lparr>lo_price_ticks := p, lo_original_quantity := q, lo_remaining_quantity := q,
     lo_sequence_number := n\<rparr>"

lemma repriced_simps [simp]:
  "lo_order_id (repriced p q n x) = lo_order_id x" "lo_side (repriced p q n x) = lo_side x"
  "lo_price_ticks (repriced p q n x) = p" "lo_remaining_quantity (repriced p q n x) = q"
  "lo_original_quantity (repriced p q n x) = q" "lo_sequence_number (repriced p q n x) = n"
  by (simp_all add: repriced_def)

lemma modify_match_result:
  assumes e: "engine_inv e" and out: "taken_out e i x om' b"
    and c: "c = e\<lparr>me_orders := om', me_book := b, me_next_sequence := me_next_sequence e + 1\<rparr>"
    and m: "limit_order_ok m" and room: "store_room m c"
    and res: "modify_match x m (removal_of (me_orders e) i empty_removal) (me_next_sequence e)
      (checkpoint (me_trades e)) c = (r, e')"
  shows "r = Inr True \<and> placed m c e' \<or> (\<exists>err. r = Inl err) \<and> e' = e"
proof -
  let ?acc = "limit_accepts (lo_side m) (lo_price_ticks m)" and ?s = "lo_side m"
  have cs: "synced c" using out c by (simp add: taken_out_def)
  have pos: "0 \<le> lo_remaining_quantity m" using m by (simp add: limit_order_ok_def)
  obtain m1 e1 fills js n where loop: "match_loop m [] c = (Inr (), m1, js, e1)"
    and run: "fill_run ?acc ?s (Some (lo_order_id m)) (lo_remaining_quantity m) c fills js n e1"
    and m1: "m1 = m\<lparr>lo_remaining_quantity := n\<rparr>"
    and stop: "n = 0 \<or> nothing_acceptable ?acc (queue (opposite ?s) (me_orders e1))"
    using match_loop_total [OF cs m room] by metis
  note inv = fill_run_inv [OF run cs pos]
  have e1: "synced e1" "om_wf (me_orders e1)" using inv syncedD(1) by blast+
  have n: "0 \<le> n" "n \<le> lo_remaining_quantity m" using inv fill_run_reference(3) [OF run cs pos stop] by simp_all
  have undone: "undo_executions (rev js) d = (Inr (), d\<lparr>me_orders := om', me_book := b\<rparr>)"
    if "me_orders d = me_orders e1" "me_book d = me_book e1" for d
    using inv that c by (simp add: undoes_def)
  have ts: "ts_extends (me_trades e) (me_trades e1)" and ids: "me_ids e1 = me_ids e" using inv c by simp_all
  show ?thesis
  proof (cases "n = 0")
    case True
    then have "r = Inr True" "e' = e1" using res loop m1 by (simp_all add: modify_match_def is_filled_def)
    then show ?thesis using placed_filled run True by simp
  next
    case False
    from e1(2) show ?thesis
    proof (cases rule: add_adjust_cases [of e1 m1])
      case (refused err)
      then have "(r, e') = modify_rollback err x m1 (removal_of (me_orders e) i empty_removal) True True False False js
          (me_next_sequence e) (checkpoint (me_trades e)) e1"
        using res loop m1 False by (simp add: modify_match_def is_filled_def on_orders_def)
      then show ?thesis using modify_rollback_eq [OF e out undone [OF refl refl] ts ids] by simp
    next
      case (overflow err om2)
      let ?e2 = "e1\<lparr>me_orders := om2\<rparr>"
      have eq: "(r, e') = modify_rollback err x m1 (removal_of (me_orders e) i empty_removal) True True True False js
          (me_next_sequence e) (checkpoint (me_trades e)) ?e2"
        using res loop m1 False overflow by (simp add: modify_match_def is_filled_def on_orders_def)
      have "undo_executions (rev js) (?e2\<lparr>me_orders := me_orders e1\<rparr>) = (Inr (), ?e2\<lparr>me_orders := om', me_book := b\<rparr>)"
        using undone [of "?e2\<lparr>me_orders := me_orders e1\<rparr>"] by simp
      then show ?thesis using eq modify_rollback_added [OF e out e1(2), of m1 ?e2 js err] overflow ts ids by simp
    next
      case (rests om2 e3)
      have fin: "r = Inr True" "e' = e3"
        using res loop m1 False rests by (simp_all add: modify_match_def is_filled_def on_orders_def)
      have "\<exists>b. e3 = e1\<lparr>me_orders := om2, me_book := b\<rparr> \<and> rested m1 e1 (e1\<lparr>me_book := b, me_orders := om2\<rparr>)"
        using add_then_adjust [OF e1(1), of m1 "()" om2 "e1\<lparr>me_orders := om2\<rparr>" "()" e3] rests m m1 n False
        by (simp add: limit_order_ok_def)
      moreover have "e1\<lparr>me_orders := om2, me_book := b\<rparr> = e1\<lparr>me_book := b, me_orders := om2\<rparr>" for b by simp
      ultimately have "rested m1 e1 e3" by auto
      then show ?thesis using placed_rests [OF run _ False] stop False m1 fin by simp
    qed
  qed
qed

subsection \<open>The operation\<close>

lemma queue_remove:
  assumes wf: "om_wf om" "om_wf om'" and i: "i < length (om_orders om)" "om_orders om ! i = x"
    and orders: "om_orders om' = swap_remove i (om_orders om)"
  shows "queue side om' = filter (\<lambda>y. y \<noteq> x) (queue side om)"
proof (rule queue_unique [OF wf(2)])
  show "sorted_wrt (before_order side) (filter (\<lambda>y. y \<noteq> x) (queue side om))"
    using queue_sorted [OF wf(1)] by (rule sorted_wrt_filter)
  have "set (om_orders om') = set (om_orders om) - {x}"
    using set_swap_remove [OF i(1) om_wf_distinct [OF wf(1)]] i orders by simp
  then show "set (filter (\<lambda>y. y \<noteq> x) (queue side om)) = {y \<in> set (om_orders om'). lo_side y = side}"
    using queue_keys(2) [OF wf(1), of side] by auto
qed

lemma placed_keeps_inv:
  assumes c: "engine_inv c" "synced c" and m: "limit_order_ok m" and pl: "placed m c e'"
    and id: "lo_order_id m < next_order_id (me_ids c)"
  shows "engine_inv e'" "synced e'"
proof -
  have s: "synced e'" "me_ids e' = me_ids c" using placed_result [OF c(2) m pl] by auto
  then show "synced e'" by simp
  have "lo_order_id y < next_order_id (me_ids c)" if "y \<in> set (om_orders (me_orders e'))" for y
    using placed_ids [OF c(2) m pl that] id c(1) unfolding engine_inv_def by metis
  then show "engine_inv e'"
    using s c(1) placed_uncrossed [OF c(2) m pl] placed_ts_ok [OF pl] by (auto simp: engine_inv_def synced_def)
qed

text \<open>
  The price change as a whole: it succeeds and has placed the order anew on the engine without it,
  or it throws and has changed nothing.
\<close>

lemma modify_price_result:
  assumes e: "engine_inv e" and x: "om_find_order (me_orders e) k = Some x"
    and b: "0 < p" "p \<le> INT64_MAX" "0 < q" "q \<le> INT64_MAX"
    and room: "store_room (repriced p q (me_next_sequence e) x) e"
    and res: "modify_price k x p q e = (r, e')"
  shows "(\<exists>c i. r = Inr True \<and> engine_inv c \<and> synced c \<and> placed (repriced p q (me_next_sequence e) x) c e'
      \<and> i < length (om_orders (me_orders e)) \<and> om_orders (me_orders e) ! i = x
      \<and> om_orders (me_orders c) = swap_remove i (om_orders (me_orders e))
      \<and> (\<forall>side. queue side (me_orders c) = filter (\<lambda>y. y \<noteq> x) (queue side (me_orders e)))
      \<and> me_ids c = me_ids e \<and> me_trades c = me_trades e \<and> me_next_sequence c = me_next_sequence e + 1
      \<and> om_max_size (me_orders c) = om_max_size (me_orders e))
    \<or> (\<exists>err. r = Inl err) \<and> e' = e"
proof -
  let ?m = "repriced p q (me_next_sequence e) x"
  have wf: "om_wf (me_orders e)" using e by (simp add: engine_inv_def orders_ok_def)
  obtain i om' bk where t:
    "om_cancel_order_removal k empty_removal (me_orders e) = (Inr True, om', removal_of (me_orders e) i empty_removal)"
    "adjust_order_book (lo_side x) (lo_price_ticks x) (- lo_remaining_quantity x) (e\<lparr>me_orders := om'\<rparr>)
       = (Inr (), e\<lparr>me_orders := om', me_book := bk\<rparr>)"
    "taken_out e i x om' bk"
    using take_out [OF e x] by metis
  let ?c = "e\<lparr>me_orders := om', me_book := bk, me_next_sequence := me_next_sequence e + 1\<rparr>"
  have o: "i < length (om_orders (me_orders e))" "om_orders (me_orders e) ! i = x" "om_wf om'"
    "om_orders om' = swap_remove i (om_orders (me_orders e))" "om_max_size om' = om_max_size (me_orders e)"
    "engine_inv (e\<lparr>me_orders := om', me_book := bk\<rparr>)" "synced (e\<lparr>me_orders := om', me_book := bk\<rparr>)"
    using t(3) by (simp_all add: taken_out_def)
  have qs: "queue side om' = filter (\<lambda>y. y \<noteq> x) (queue side (me_orders e))" for side
    by (rule queue_remove [OF wf o(3,1,2,4)])
  have "x \<notin> set (queue (opposite (lo_side x)) (me_orders e))" using queue_mem [OF wf] by auto
  then have "queue (opposite (lo_side x)) om' = queue (opposite (lo_side x)) (me_orders e)"
    unfolding qs by (auto simp: filter_id_conv)
  then have room': "store_room ?m ?c" using room by (simp add: store_room_def)
  have "modify_match x ?m (removal_of (me_orders e) i empty_removal) (me_next_sequence e)
      (checkpoint (me_trades e)) ?c = (r, e')"
    using res t(1,2) by (simp add: modify_price_def Let_def repriced_def)
  moreover have "limit_order_ok ?m" using b by (simp add: limit_order_ok_def)
  ultimately have "r = Inr True \<and> placed ?m ?c e' \<or> (\<exists>err. r = Inl err) \<and> e' = e"
    using modify_match_result [OF e t(3) refl _ room'] by blast
  moreover have "engine_inv ?c" "synced ?c" using o(6,7) by (simp_all add: engine_inv_def)
  ultimately show ?thesis using o qs by (auto intro!: exI [of _ ?c] exI [of _ i])
qed

lemma modify_order_step:
  assumes e: "engine_inv e" and b: "i64 p" "i64 q"
    and room: "\<forall>x. om_find_order (me_orders e) k = Some x \<longrightarrow> store_room (repriced p q (me_next_sequence e) x) e"
    and res: "modify_order k p q e = (r, e')"
  shows "engine_inv e'" and "(\<exists>err. r = Inl err) \<Longrightarrow> e' = e"
proof -
  have "engine_inv e' \<and> ((\<exists>err. r = Inl err) \<longrightarrow> e' = e)"
  proof (cases "0 < p \<and> 0 < q")
    case False
    then show ?thesis using res e by (cases "validate_modify_order p q") (auto simp: modify_order_def validate_Inr_iff)
  next
    case True
    then have bb: "0 < p" "p \<le> INT64_MAX" "0 < q" "q \<le> INT64_MAX" using b by (simp_all add: i64_def)
    show ?thesis
    proof (cases "om_find_order (me_orders e) k")
      case None
      then show ?thesis using res e bb by (auto simp: modify_order_def)
    next
      case (Some x)
      have id: "lo_order_id x < next_order_id (me_ids e)"
        using e Some om_find_order_Some_iff [of "me_orders e"] by (auto simp: engine_inv_def orders_ok_def)
      show ?thesis
      proof (cases "p = lo_price_ticks x")
        case True
        then have m: "modify_same_price k x q e = (r, e')" using res Some bb by (simp add: modify_order_def)
        show ?thesis
        proof (cases r)
          case (Inl err)
          then show ?thesis using modify_same_price_fails [OF e Some bb(3,4)] m e by auto
        next
          case (Inr u)
          then show ?thesis
            using modify_same_price_ok [OF e Some bb(3,4)] modify_same_price_needs [OF e Some bb(3,4)] m by auto
        qed
      next
        case False
        then have m: "modify_price k x p q e = (r, e')" using res Some bb by (simp add: modify_order_def)
        have sr: "store_room (repriced p q (me_next_sequence e) x) e" using room Some by blast
        consider c where "r = Inr True" "engine_inv c" "synced c" "placed (repriced p q (me_next_sequence e) x) c e'" "me_ids c = me_ids e"
          | err where "r = Inl err" "e' = e"
          using modify_price_result [OF e Some bb sr m] by blast
        then show ?thesis
        proof cases
          case 1
          have "limit_order_ok (repriced p q (me_next_sequence e) x)" using bb by (simp add: limit_order_ok_def)
          then show ?thesis using placed_keeps_inv(1) [OF 1(2,3) _ 1(4)] 1(1,5) id by simp
        qed (use e in simp)
      qed
    qed
  qed
  then show "engine_inv e'" "(\<exists>err. r = Inl err) \<Longrightarrow> e' = e" by blast+
qed

end
