(* ===== verification/Blocking_Queue.thy ===== *)
theory Blocking_Queue
  imports Prelude
begin

text \<open>
  The closable queue between the client threads and the worker (\<open>include/blocking_queue.hpp\<close>). Every
  method holds the mutex for its whole body, so a method is one atomic step; \<open>pop\<close> waits on the
  condition variable while the queue is open and empty, which is the outcome \<open>Waits\<close>.
\<close>

record 'a blocking_queue =
  bq_queue :: "'a list"
  bq_closed :: bool

definition new_queue :: "'a blocking_queue" where
  "new_queue = \<lparr>bq_queue = [], bq_closed = False\<rparr>"

definition bq_push :: "'a \<Rightarrow> 'a blocking_queue \<Rightarrow> bool \<times> 'a blocking_queue" where
  "bq_push value bq =
     (if bq_closed bq then (False, bq) else (True, bq\<lparr>bq_queue := bq_queue bq @ [value]\<rparr>))"

datatype 'a pop_outcome = Waits | Closed_empty | Popped 'a

definition bq_pop :: "'a blocking_queue \<Rightarrow> 'a pop_outcome \<times> 'a blocking_queue" where
  "bq_pop bq =
     (if \<not> (bq_closed bq \<or> bq_queue bq \<noteq> []) then (Waits, bq)
      else case bq_queue bq of
             [] \<Rightarrow> (Closed_empty, bq)
           | value # rest \<Rightarrow> (Popped value, bq\<lparr>bq_queue := rest\<rparr>))"

definition bq_try_pop :: "'a blocking_queue \<Rightarrow> 'a option \<times> 'a blocking_queue" where
  "bq_try_pop bq =
     (case bq_queue bq of
        [] \<Rightarrow> (None, bq)
      | value # rest \<Rightarrow> (Some value, bq\<lparr>bq_queue := rest\<rparr>))"

definition bq_close :: "'a blocking_queue \<Rightarrow> 'a blocking_queue" where
  "bq_close bq = (if bq_closed bq then bq else bq\<lparr>bq_closed := True\<rparr>)"

definition bq_is_closed :: "'a blocking_queue \<Rightarrow> bool" where
  "bq_is_closed bq = bq_closed bq"

definition bq_empty :: "'a blocking_queue \<Rightarrow> bool" where
  "bq_empty bq \<longleftrightarrow> bq_queue bq = []"

definition bq_size :: "'a blocking_queue \<Rightarrow> nat" where
  "bq_size bq = length (bq_queue bq)"

subsection \<open>The contract the engine relies on\<close>

text \<open>
  A closable channel: \<open>contents\<close> is the abstract value. What was accepted comes out in that order,
  closing loses nothing, and a closed channel accepts nothing.
\<close>

locale channel =
  fixes contents :: "'q \<Rightarrow> 'a list" and closed :: "'q \<Rightarrow> bool"
    and push :: "'a \<Rightarrow> 'q \<Rightarrow> bool \<times> 'q" and pop :: "'q \<Rightarrow> 'a pop_outcome \<times> 'q" and close :: "'q \<Rightarrow> 'q"
  assumes push_open: "\<not> closed q \<Longrightarrow> \<exists>q'. push x q = (True, q') \<and> contents q' = contents q @ [x] \<and> \<not> closed q'"
    and push_closed: "closed q \<Longrightarrow> push x q = (False, q)"
    and pop_item: "contents q = x # xs \<Longrightarrow> \<exists>q'. pop q = (Popped x, q') \<and> contents q' = xs \<and> closed q' = closed q"
    and pop_waits: "contents q = [] \<Longrightarrow> \<not> closed q \<Longrightarrow> pop q = (Waits, q)"
    and pop_closed: "contents q = [] \<Longrightarrow> closed q \<Longrightarrow> pop q = (Closed_empty, q)"
    and close_contents: "contents (close q) = contents q" "closed (close q)"
begin

fun push_all :: "'a list \<Rightarrow> 'q \<Rightarrow> 'q" where
  "push_all [] q = q"
| "push_all (x # xs) q = push_all xs (snd (push x q))"

fun pop_n :: "nat \<Rightarrow> 'q \<Rightarrow> 'a list \<times> 'q" where
  "pop_n 0 q = ([], q)"
| "pop_n (Suc n) q =
     (case pop q of (Popped x, q1) \<Rightarrow> (case pop_n n q1 of (xs, q2) \<Rightarrow> (x # xs, q2)) | (_, q1) \<Rightarrow> ([], q1))"

lemma contents_push_all: "\<not> closed q \<Longrightarrow> contents (push_all xs q) = contents q @ xs \<and> \<not> closed (push_all xs q)"
proof (induction xs arbitrary: q)
  case (Cons x xs)
  obtain q' where "push x q = (True, q')" "contents q' = contents q @ [x]" "\<not> closed q'"
    using push_open [OF Cons.prems] by blast
  then show ?case using Cons.IH [of q'] by simp
qed simp

lemma pop_n_takes: "n \<le> length (contents q) \<Longrightarrow> fst (pop_n n q) = take n (contents q)
    \<and> contents (snd (pop_n n q)) = drop n (contents q)"
proof (induction n arbitrary: q)
  case (Suc n)
  then obtain x xs where c: "contents q = x # xs" by (cases "contents q") auto
  then obtain q' where "pop q = (Popped x, q')" "contents q' = xs" using pop_item by blast
  then show ?case using Suc c by (auto split: prod.splits dest: Suc.IH [of q'])
qed simp

lemma fifo:
  "\<not> closed q \<Longrightarrow> contents q = [] \<Longrightarrow> fst (pop_n (length xs) (close (push_all xs q))) = xs"
  using contents_push_all [of q xs] pop_n_takes [of "length xs" "close (push_all xs q)"] close_contents by simp

lemma pop_cases:
  obtains (item) x q' where "pop q = (Popped x, q')" "contents q = x # contents q'" "closed q' = closed q"
  | (empty) "contents q = []" "closed q" "pop q = (Closed_empty, q)"
  | (waits) "contents q = []" "\<not> closed q" "pop q = (Waits, q)"
  using pop_item pop_waits pop_closed by (cases "contents q") (metis, metis)

end

interpretation bq: channel bq_queue bq_closed bq_push bq_pop bq_close
proof
  fix q :: "'a blocking_queue" and x :: 'a and xs
  show "\<not> bq_closed q \<Longrightarrow> \<exists>q'. bq_push x q = (True, q') \<and> bq_queue q' = bq_queue q @ [x] \<and> \<not> bq_closed q'"
    by (simp add: bq_push_def)
  show "bq_closed q \<Longrightarrow> bq_push x q = (False, q)" by (simp add: bq_push_def)
  show "bq_queue q = x # xs \<Longrightarrow> \<exists>q'. bq_pop q = (Popped x, q') \<and> bq_queue q' = xs \<and> bq_closed q' = bq_closed q"
    by (simp add: bq_pop_def)
  show "bq_queue q = [] \<Longrightarrow> \<not> bq_closed q \<Longrightarrow> bq_pop q = (Waits, q)" by (simp add: bq_pop_def)
  show "bq_queue q = [] \<Longrightarrow> bq_closed q \<Longrightarrow> bq_pop q = (Closed_empty, q)" by (simp add: bq_pop_def)
  show "bq_queue (bq_close q) = bq_queue q" "bq_closed (bq_close q)" by (simp_all add: bq_close_def)
qed

end
