(* ===== verification/Concurrent_Engine.thy ===== *)
theory Concurrent_Engine
  imports Modify_Orders Blocking_Queue
begin

text \<open>
  The concurrent engine (\<open>include/concurrent_matching_engine.hpp\<close>, \<open>src/concurrent_matching_engine.cpp\<close>,
  \<open>include/engine_command.hpp\<close>): client threads put commands into a blocking queue, one worker thread
  takes them out and runs them on a matching engine of its own. A promise is a ticket; its value,
  once set, is the entry of \<open>ce_promises\<close>. Threads interleave at the granularity of queue operations
  and of whole commands, which only the worker runs.
\<close>

subsection \<open>Commands\<close>

datatype engine_command =
    Place_limit_buy int int
  | Place_limit_sell int int
  | Execute_market_buy int
  | Execute_market_sell int
  | Cancel_order order_id
  | Modify_order order_id int int
  | Active_orders
  | Trade_history
  | Clear_trade_history

datatype engine_value =
    Order_id_value order_id
  | Execution_value execution_result
  | Bool_value bool
  | Orders_value "limit_order list"
  | Trades_value "trade list"
  | Void_value

text \<open>\<open>execute_command\<close>: the promise gets the value, or the exception that the function threw.\<close>

definition execute_command ::
  "('a \<Rightarrow> engine_value) \<Rightarrow> ('a, matching_engine) outcome \<Rightarrow> engine_value result \<times> matching_engine" where
  "execute_command wrap r = (case r of (Inl err, e) \<Rightarrow> (Inl err, e) | (Inr v, e) \<Rightarrow> (Inr (wrap v), e))"

definition process_command ::
  "rounding_mode \<Rightarrow> engine_command \<Rightarrow> matching_engine \<Rightarrow> engine_value result \<times> matching_engine" where
  "process_command ld command e =
     (case command of
        Place_limit_buy price quantity \<Rightarrow> execute_command Order_id_value (place_limit_buy price quantity e)
      | Place_limit_sell price quantity \<Rightarrow> execute_command Order_id_value (place_limit_sell price quantity e)
      | Execute_market_buy quantity \<Rightarrow> execute_command Execution_value (execute_market_buy ld quantity e)
      | Execute_market_sell quantity \<Rightarrow> execute_command Execution_value (execute_market_sell ld quantity e)
      | Cancel_order order_id \<Rightarrow> execute_command Bool_value (cancel_order order_id e)
      | Modify_order order_id price quantity \<Rightarrow> execute_command Bool_value (modify_order order_id price quantity e)
      | Active_orders \<Rightarrow> execute_command Orders_value (Inr (active_limit_orders e), e)
      | Trade_history \<Rightarrow> execute_command Trades_value (Inr (trade_history e), e)
      | Clear_trade_history \<Rightarrow> execute_command (\<lambda>_. Void_value) (Inr (), clear_trade_history e))"

subsection \<open>The engine with its threads\<close>

datatype worker_state = Idle | Busy nat engine_command | Finished

record concurrent_engine =
  ce_engine :: matching_engine
  ce_queue :: "(nat \<times> engine_command) blocking_queue"
  ce_worker :: worker_state
  ce_promises :: "nat \<rightharpoonup> engine_value result"
  ce_next_ticket :: nat

definition new_concurrent_engine :: "matching_engine \<Rightarrow> concurrent_engine" where
  "new_concurrent_engine e = \<lparr>ce_engine = e, ce_queue = new_queue, ce_worker = Idle,
     ce_promises = Map.empty, ce_next_ticket = 0\<rparr>"

text \<open>A client call: the future of a fresh promise, or the exception of an engine that is shut down.\<close>

definition submit ::
  "engine_command \<Rightarrow> concurrent_engine \<Rightarrow> (nat, concurrent_engine) outcome" where
  "submit command ce =
     (let ticket = ce_next_ticket ce; ce1 = ce\<lparr>ce_next_ticket := ticket + 1\<rparr>
      in case bq_push (ticket, command) (ce_queue ce1) of
           (accepted, bq) \<Rightarrow>
             if \<not> accepted
             then (Inl (Runtime_error ''ConcurrentMatchingEngine is shut down.''), ce1\<lparr>ce_queue := bq\<rparr>)
             else (Inr ticket, ce1\<lparr>ce_queue := bq\<rparr>))"

text \<open>The nine client methods, each a command of its own handed to the queue.\<close>

definition ce_place_limit_buy :: "int \<Rightarrow> int \<Rightarrow> concurrent_engine \<Rightarrow> (nat, concurrent_engine) outcome" where
  "ce_place_limit_buy price_ticks quantity = submit (Place_limit_buy price_ticks quantity)"

definition ce_place_limit_sell :: "int \<Rightarrow> int \<Rightarrow> concurrent_engine \<Rightarrow> (nat, concurrent_engine) outcome" where
  "ce_place_limit_sell price_ticks quantity = submit (Place_limit_sell price_ticks quantity)"

definition ce_execute_market_buy :: "int \<Rightarrow> concurrent_engine \<Rightarrow> (nat, concurrent_engine) outcome" where
  "ce_execute_market_buy quantity = submit (Execute_market_buy quantity)"

definition ce_execute_market_sell :: "int \<Rightarrow> concurrent_engine \<Rightarrow> (nat, concurrent_engine) outcome" where
  "ce_execute_market_sell quantity = submit (Execute_market_sell quantity)"

definition ce_cancel_order :: "order_id \<Rightarrow> concurrent_engine \<Rightarrow> (nat, concurrent_engine) outcome" where
  "ce_cancel_order order_id = submit (Cancel_order order_id)"

definition ce_modify_order :: "order_id \<Rightarrow> int \<Rightarrow> int \<Rightarrow> concurrent_engine \<Rightarrow> (nat, concurrent_engine) outcome" where
  "ce_modify_order order_id new_price_ticks new_quantity = submit (Modify_order order_id new_price_ticks new_quantity)"

definition ce_active_limit_orders :: "concurrent_engine \<Rightarrow> (nat, concurrent_engine) outcome" where
  "ce_active_limit_orders = submit Active_orders"

definition ce_trade_history :: "concurrent_engine \<Rightarrow> (nat, concurrent_engine) outcome" where
  "ce_trade_history = submit Trade_history"

definition ce_clear_trade_history :: "concurrent_engine \<Rightarrow> (nat, concurrent_engine) outcome" where
  "ce_clear_trade_history = submit Clear_trade_history"

text \<open>A call of a client thread, named by the command that the method makes.\<close>

definition client_call :: "engine_command \<Rightarrow> concurrent_engine \<Rightarrow> (nat, concurrent_engine) outcome" where
  "client_call command =
     (case command of
        Place_limit_buy price quantity \<Rightarrow> ce_place_limit_buy price quantity
      | Place_limit_sell price quantity \<Rightarrow> ce_place_limit_sell price quantity
      | Execute_market_buy quantity \<Rightarrow> ce_execute_market_buy quantity
      | Execute_market_sell quantity \<Rightarrow> ce_execute_market_sell quantity
      | Cancel_order order_id \<Rightarrow> ce_cancel_order order_id
      | Modify_order order_id price quantity \<Rightarrow> ce_modify_order order_id price quantity
      | Active_orders \<Rightarrow> ce_active_limit_orders
      | Trade_history \<Rightarrow> ce_trade_history
      | Clear_trade_history \<Rightarrow> ce_clear_trade_history)"

lemma client_call_submit [simp]: "client_call command = submit command"
  by (cases command) (simp_all add: client_call_def ce_place_limit_buy_def ce_place_limit_sell_def
      ce_execute_market_buy_def ce_execute_market_sell_def ce_cancel_order_def ce_modify_order_def
      ce_active_limit_orders_def ce_trade_history_def ce_clear_trade_history_def)

text \<open>The worker loop: \<open>pop\<close> (which may wait), then the command.\<close>

definition worker_pop :: "concurrent_engine \<Rightarrow> concurrent_engine option" where
  "worker_pop ce =
     (case bq_pop (ce_queue ce) of
        (Waits, _) \<Rightarrow> None
      | (Closed_empty, bq) \<Rightarrow> Some (ce\<lparr>ce_queue := bq, ce_worker := Finished\<rparr>)
      | (Popped (ticket, command), bq) \<Rightarrow> Some (ce\<lparr>ce_queue := bq, ce_worker := Busy ticket command\<rparr>))"

definition worker_process :: "rounding_mode \<Rightarrow> nat \<Rightarrow> engine_command \<Rightarrow> concurrent_engine \<Rightarrow> concurrent_engine" where
  "worker_process ld ticket command ce =
     (case process_command ld command (ce_engine ce) of
        (r, e) \<Rightarrow> ce\<lparr>ce_engine := e, ce_promises := (ce_promises ce)(ticket \<mapsto> r), ce_worker := Idle\<rparr>)"

text \<open>\<open>shutdown\<close> closes the queue and then waits for the worker to end.\<close>

definition shutdown_close :: "concurrent_engine \<Rightarrow> concurrent_engine" where
  "shutdown_close ce = ce\<lparr>ce_queue := bq_close (ce_queue ce)\<rparr>"

definition join_returns :: "concurrent_engine \<Rightarrow> bool" where
  "join_returns ce \<longleftrightarrow> ce_worker ce = Finished"

definition is_shutdown :: "concurrent_engine \<Rightarrow> bool" where
  "is_shutdown ce = bq_is_closed (ce_queue ce)"

subsection \<open>Interleavings\<close>

datatype event = Accepted nat engine_command | Rejected engine_command | Worker_step | Close

inductive step :: "rounding_mode \<Rightarrow> concurrent_engine \<Rightarrow> event \<Rightarrow> concurrent_engine \<Rightarrow> bool"
  for ld :: rounding_mode where
  accept: "client_call command ce = (Inr ticket, ce') \<Longrightarrow> step ld ce (Accepted ticket command) ce'"
| reject: "client_call command ce = (Inl err, ce') \<Longrightarrow> step ld ce (Rejected command) ce'"
| pop: "ce_worker ce = Idle \<Longrightarrow> worker_pop ce = Some ce' \<Longrightarrow> step ld ce Worker_step ce'"
| process: "ce_worker ce = Busy ticket command \<Longrightarrow> step ld ce Worker_step (worker_process ld ticket command ce)"
| shut: "step ld ce Close (shutdown_close ce)"

inductive_cases step_AcceptedE: "step ld ce (Accepted t c) ce'"
inductive_cases step_RejectedE: "step ld ce (Rejected c) ce'"
inductive_cases step_WorkerE: "step ld ce Worker_step ce'"
inductive_cases step_CloseE: "step ld ce Close ce'"

inductive runs :: "rounding_mode \<Rightarrow> concurrent_engine \<Rightarrow> event list \<Rightarrow> concurrent_engine \<Rightarrow> bool"
  for ld :: rounding_mode and start :: concurrent_engine where
  runs_start: "runs ld start [] start"
| runs_step: "runs ld start tr ce \<Longrightarrow> step ld ce ev ce' \<Longrightarrow> runs ld start (tr @ [ev]) ce'"

interpretation threads: machine "step ld" "runs ld" for ld
proof
  fix s es s' P
  assume "runs ld s es s'" "P [] s" "\<And>es s1 e s2. runs ld s es s1 \<Longrightarrow> P es s1 \<Longrightarrow> step ld s1 e s2 \<Longrightarrow> P (es @ [e]) s2"
  then show "P es s'" by (induction rule: runs.induct) blast+
qed

text \<open>An engine that is shut down stays so.\<close>

lemma shutdown_step_stays: "step ld ce ev ce' \<Longrightarrow> bq_closed (ce_queue ce) \<Longrightarrow> bq_closed (ce_queue ce')"
  by (erule step.cases) (auto simp: submit_def Let_def bq_push_def worker_pop_def bq_pop_def worker_process_def
      shutdown_close_def bq_close_def split: prod.splits list.splits if_splits)

lemma shutdown_is_final: "runs ld ce tr ce' \<Longrightarrow> is_shutdown ce \<Longrightarrow> is_shutdown ce'"
  unfolding is_shutdown_def bq_is_closed_def
  by (rule threads.keeps [of "\<lambda>ce. bq_closed (ce_queue ce)" ld]) (blast intro: shutdown_step_stays)+

definition accepted :: "event list \<Rightarrow> (nat \<times> engine_command) list" where
  "accepted tr = concat (map (\<lambda>ev. case ev of Accepted t c \<Rightarrow> [(t, c)] | _ \<Rightarrow> []) tr)"

lemma accepted_simps [simp]:
  "accepted [] = []" "accepted (tr @ [Accepted t c]) = accepted tr @ [(t, c)]"
  "accepted (tr @ [Rejected c]) = accepted tr" "accepted (tr @ [Worker_step]) = accepted tr"
  "accepted (tr @ [Close]) = accepted tr"
  by (simp_all add: accepted_def)

text \<open>The reference: the accepted commands run one after the other on one engine, no threads.\<close>

fun serve ::
  "rounding_mode \<Rightarrow> (nat \<times> engine_command) list \<Rightarrow> matching_engine \<times> (nat \<rightharpoonup> engine_value result)
   \<Rightarrow> matching_engine \<times> (nat \<rightharpoonup> engine_value result)" where
  "serve ld [] s = s"
| "serve ld ((ticket, command) # rest) (e, promises) =
     (case process_command ld command e of (r, e1) \<Rightarrow> serve ld rest (e1, promises(ticket \<mapsto> r)))"

lemma serve_append: "serve ld (xs @ ys) s = serve ld ys (serve ld xs s)"
  by (induction ld xs s rule: serve.induct) (auto split: prod.splits)

text \<open>
  Where a run stands: a prefix of the accepted commands has been served, at most one is in the
  worker's hands, the others are in the queue in order.
\<close>

definition in_hand :: "worker_state \<Rightarrow> (nat \<times> engine_command) list" where
  "in_hand w = (case w of Busy t c \<Rightarrow> [(t, c)] | _ \<Rightarrow> [])"

definition stands :: "rounding_mode \<Rightarrow> concurrent_engine \<Rightarrow> event list \<Rightarrow> concurrent_engine \<Rightarrow> bool" where
  "stands ld start tr ce \<longleftrightarrow>
     (\<exists>served. accepted tr = served @ in_hand (ce_worker ce) @ bq_queue (ce_queue ce)
        \<and> serve ld served (ce_engine start, Map.empty) = (ce_engine ce, ce_promises ce))
     \<and> (ce_worker ce = Finished \<longrightarrow> bq_queue (ce_queue ce) = [] \<and> bq_closed (ce_queue ce))"

lemma stands_step:
  assumes st: "stands ld start tr ce" and step: "step ld ce ev ce'"
  shows "stands ld start (tr @ [ev]) ce'"
proof -
  obtain served where s: "accepted tr = served @ in_hand (ce_worker ce) @ bq_queue (ce_queue ce)"
    "serve ld served (ce_engine start, Map.empty) = (ce_engine ce, ce_promises ce)"
    and fin: "ce_worker ce = Finished \<Longrightarrow> bq_queue (ce_queue ce) = [] \<and> bq_closed (ce_queue ce)"
    using st by (auto simp: stands_def)
  from step show ?thesis
  proof cases
    case (accept command ticket)
    then have "\<not> bq_closed (ce_queue ce)"
      by (auto simp: submit_def Let_def bq_push_def split: if_splits)
    then show ?thesis using accept s fin
      by (auto simp: stands_def submit_def Let_def bq_push_def)
  next
    case (reject command err)
    then have "bq_closed (ce_queue ce)" "ce' = ce\<lparr>ce_next_ticket := ce_next_ticket ce + 1\<rparr>"
      by (auto simp: submit_def Let_def bq_push_def split: if_splits)
    then show ?thesis using reject s fin by (auto simp: stands_def)
  next
    case pop
    show ?thesis
    proof (cases "ce_queue ce" rule: bq.pop_cases)
      case (item x bq)
      then show ?thesis using pop s by (cases x) (auto simp: stands_def worker_pop_def in_hand_def)
    next
      case empty
      then show ?thesis using pop s by (auto simp: stands_def worker_pop_def in_hand_def)
    next
      case waits
      then show ?thesis using pop by (simp add: worker_pop_def)
    qed
  next
    case (process ticket command)
    obtain r e where p: "process_command ld command (ce_engine ce) = (r, e)" by fastforce
    have "serve ld (served @ [(ticket, command)]) (ce_engine start, Map.empty) =
        (e, (ce_promises ce)(ticket \<mapsto> r))"
      using s(2) p by (simp add: serve_append)
    then show ?thesis
      using process s(1) p by (auto simp: stands_def worker_process_def in_hand_def)
  next
    case shut
    then show ?thesis using s fin by (auto simp: stands_def shutdown_close_def bq.close_contents)
  qed
qed

lemma runs_stands:
  assumes "runs ld start tr ce" "ce_worker start = Idle" "bq_queue (ce_queue start) = []" "ce_promises start = Map.empty"
  shows "stands ld start tr ce"
  using assms(1)
proof induction
  case runs_start
  then show ?case using assms(2-4) by (auto simp: stands_def in_hand_def intro: exI [of _ "[]"])
next
  case (runs_step tr ce ev ce')
  then show ?case using stands_step by blast
qed

subsection \<open>Promises\<close>

lemma serve_promises: "dom (snd (serve ld xs (e, m))) = fst ` set xs \<union> dom m"
proof (induction xs arbitrary: e m)
  case (Cons x xs)
  obtain t c where x: "x = (t, c)" by fastforce
  obtain r e1 where "process_command ld c e = (r, e1)" by fastforce
  then have "serve ld (x # xs) (e, m) = serve ld xs (e1, m(t \<mapsto> r))" using x by simp
  then have "dom (snd (serve ld (x # xs) (e, m))) = fst ` set xs \<union> dom (m(t \<mapsto> r))"
    using Cons.IH [of e1 "m(t \<mapsto> r)"] by (simp only:)
  also have "\<dots> = fst ` set (x # xs) \<union> dom m" using x by auto
  finally show ?case .
qed simp

lemma runs_tickets:
  assumes "runs ld start tr ce"
  shows "ce_next_ticket start \<le> ce_next_ticket ce
    \<and> (\<forall>t \<in> fst ` set (accepted tr). ce_next_ticket start \<le> t \<and> t < ce_next_ticket ce)
    \<and> distinct (map fst (accepted tr))"
  using assms
proof induction
  case (runs_step tr ce ev ce')
  from runs_step.hyps(2) show ?case
  proof cases
    case (accept command ticket)
    then have "ticket = ce_next_ticket ce" "ce_next_ticket ce' = ce_next_ticket ce + 1"
      by (auto simp: submit_def Let_def split: prod.splits if_splits)
    then show ?thesis using runs_step.IH accept(1) by (auto simp: image_iff less_Suc_eq)
  next
    case (reject command err)
    then have "ce_next_ticket ce' = ce_next_ticket ce + 1" by (auto simp: submit_def Let_def split: prod.splits if_splits)
    then show ?thesis using runs_step.IH reject(1) by (auto simp: less_Suc_eq)
  next
    case pop
    then have "ce_next_ticket ce' = ce_next_ticket ce"
      by (auto simp: worker_pop_def split: prod.splits pop_outcome.splits)
    then show ?thesis using runs_step.IH pop(1) by simp
  next
    case (process ticket command)
    then show ?thesis using runs_step.IH by (simp add: worker_process_def split: prod.splits)
  next
    case shut
    then show ?thesis using runs_step.IH by (simp add: shutdown_close_def)
  qed
qed simp

subsection \<open>Shutting down\<close>

text \<open>Once the queue is closed the worker needs no one: it drains the queue and ends.\<close>

fun worker_steps :: "rounding_mode \<Rightarrow> nat \<Rightarrow> concurrent_engine \<Rightarrow> concurrent_engine option" where
  "worker_steps ld 0 ce = Some ce"
| "worker_steps ld (Suc n) ce =
     (case ce_worker ce of
        Idle \<Rightarrow> (case worker_pop ce of None \<Rightarrow> None | Some ce1 \<Rightarrow> worker_steps ld n ce1)
      | Busy t c \<Rightarrow> worker_steps ld n (worker_process ld t c ce)
      | Finished \<Rightarrow> None)"

lemma worker_process_fields:
  "ce_queue (worker_process ld t c ce) = ce_queue ce" "ce_worker (worker_process ld t c ce) = Idle"
  by (simp_all add: worker_process_def split: prod.splits)

lemma drain_idle:
  assumes "bq_closed (ce_queue ce)" "ce_worker ce = Idle"
  shows "\<exists>ce'. worker_steps ld (2 * length (bq_queue (ce_queue ce)) + 1) ce = Some ce' \<and> ce_worker ce' = Finished"
  using assms
proof (induction "bq_queue (ce_queue ce)" arbitrary: ce)
  case Nil
  then have "worker_pop ce = Some (ce\<lparr>ce_worker := Finished\<rparr>)"
    by (simp add: worker_pop_def bq_pop_def)
  then show ?case using Nil by simp
next
  case (Cons x xs)
  obtain t c where x: "x = (t, c)" by fastforce
  let ?bq = "(ce_queue ce)\<lparr>bq_queue := xs\<rparr>"
  let ?ce1 = "ce\<lparr>ce_queue := ?bq, ce_worker := Busy t c\<rparr>"
  have "worker_pop ce = Some ?ce1" using Cons.hyps(2) [symmetric] x by (simp add: worker_pop_def bq_pop_def)
  moreover obtain ce' where "worker_steps ld (2 * length xs + 1) (worker_process ld t c ?ce1) = Some ce'" "ce_worker ce' = Finished"
    using Cons.hyps(1) [of "worker_process ld t c ?ce1"] Cons.prems by (auto simp: worker_process_fields)
  ultimately show ?case using Cons.hyps(2) [symmetric] Cons.prems by simp
qed

lemma worker_steps_runs:
  "worker_steps ld n ce = Some ce' \<Longrightarrow> runs ld start tr ce \<Longrightarrow> runs ld start (tr @ replicate n Worker_step) ce'"
proof (induction n arbitrary: ce tr)
  case (Suc n)
  have app: "tr @ replicate (Suc n) Worker_step = (tr @ [Worker_step]) @ replicate n Worker_step" by simp
  show ?case
  proof (cases "ce_worker ce")
    case Idle
    then obtain ce1 where ce1: "worker_pop ce = Some ce1" "worker_steps ld n ce1 = Some ce'"
      using Suc.prems(1) by (auto split: option.splits)
    have "runs ld start (tr @ [Worker_step]) ce1" using Suc.prems(2) step.pop [OF Idle ce1(1)] by (rule runs_step)
    from Suc.IH [OF ce1(2) this] show ?thesis unfolding app .
  next
    case (Busy t c)
    have "runs ld start (tr @ [Worker_step]) (worker_process ld t c ce)"
      using Suc.prems(2) step.process [OF Busy] by (rule runs_step)
    from Suc.IH [OF _ this] show ?thesis using Suc.prems(1) Busy unfolding app by simp
  next
    case Finished
    then show ?thesis using Suc.prems(1) by simp
  qed
qed simp

lemma drains:
  assumes "runs ld start tr ce" "bq_closed (ce_queue ce)"
  shows "\<exists>n ce'. n \<le> 2 * length (bq_queue (ce_queue ce)) + 2
    \<and> runs ld start (tr @ replicate n Worker_step) ce' \<and> ce_worker ce' = Finished"
proof (cases "ce_worker ce")
  case Idle
  obtain ce' where "worker_steps ld (2 * length (bq_queue (ce_queue ce)) + 1) ce = Some ce'" "ce_worker ce' = Finished"
    using drain_idle [OF assms(2) Idle] by blast
  then show ?thesis using worker_steps_runs [OF _ assms(1)] by (metis add_le_mono1 nat_add_left_cancel_le one_le_numeral)
next
  case (Busy t c)
  let ?ce = "worker_process ld t c ce"
  obtain ce' where d: "worker_steps ld (2 * length (bq_queue (ce_queue ?ce)) + 1) ?ce = Some ce'" "ce_worker ce' = Finished"
    using drain_idle [of ?ce ld] assms(2) worker_process_fields by metis
  then have "worker_steps ld (2 * length (bq_queue (ce_queue ce)) + 2) ce = Some ce'"
    using Busy by (simp add: worker_process_fields)
  then show ?thesis using worker_steps_runs [OF _ assms(1)] d(2) by blast
next
  case Finished
  then show ?thesis using assms(1) by (intro exI [of _ 0] exI [of _ ce]) simp
qed

subsection \<open>The engine invariant along a run\<close>

definition command_i64 :: "engine_command \<Rightarrow> bool" where
  "command_i64 command = (case command of
     Place_limit_buy p q \<Rightarrow> i64 p \<and> i64 q | Place_limit_sell p q \<Rightarrow> i64 p \<and> i64 q
   | Modify_order k p q \<Rightarrow> i64 p \<and> i64 q | _ \<Rightarrow> True)"

text \<open>Room for one trade per active order, which is what a command can make at most.\<close>

definition trade_room :: "matching_engine \<Rightarrow> bool" where
  "trade_room e \<longleftrightarrow>
     length (ts_trades (me_trades e)) + length (om_orders (me_orders e)) \<le> ts_max_size (me_trades e)"

text \<open>A round over the levels changes nothing, or records one trade and takes its quantity off the best level.\<close>

lemma market_level_step_shape:
  assumes step: "market_level_step ld side res w e = (r, res', w', e')" and b: "book_ok (me_book e)"
  shows "me_book e' = me_book e \<and> me_trades e' = me_trades e
    \<or> (\<exists>l ls q t ts. side_levels (opposite side) (me_book e) = l # ls \<and> 0 < q \<and> q \<le> pl_quantity l
         \<and> record_trade side (pl_price_ticks l) q None None (me_trades e) = (Inr t, ts) \<and> me_trades e' = ts
         \<and> me_book e' = put_level (opposite side) (pl_price_ticks l) (pl_quantity l - q) (me_book e))"
proof (cases "side_levels (opposite side) (me_book e)")
  case Nil
  then show ?thesis using step by (cases side) (simp_all add: market_level_step_def side_levels_def)
next
  case (Cons l ls)
  have lv: "(if side = Buy then ob_asks (me_book e) else ob_bids (me_book e)) = l # ls"
    using Cons by (cases side) (simp_all add: side_levels_def)
  have l: "0 \<le> pl_price_ticks l" "0 < pl_quantity l" "pl_quantity l \<le> INT64_MAX"
    using b Cons by (cases side; auto simp: book_ok_def side_levels_def levels_ok_Cons)+
  let ?q = "min (er_remaining_quantity res) (pl_quantity l)"
  obtain rt ts where rec: "record_trade side (pl_price_ticks l) ?q None None (me_trades e) = (rt, ts)" by fastforce
  show ?thesis
  proof (cases rt)
    case (Inl err)
    then show ?thesis
      using step rec record_trade_fails_unchanged unfolding market_level_step_def lv by (auto simp: on_trades_def Let_def)
  next
    case (Inr t)
    then have q: "0 < ?q" using record_trade_ok(2) rec by blast
    have "update_side side (pl_price_ticks l) (pl_quantity l - ?q) (e\<lparr>me_trades := ts\<rparr>) =
        (Inr (), e\<lparr>me_trades := ts, me_book := put_level (opposite side) (pl_price_ticks l) (pl_quantity l - ?q) (me_book e)\<rparr>)"
      using update_side_eq [of "e\<lparr>me_trades := ts\<rparr>"] b l q by simp
    then have "e' = e\<lparr>me_trades := ts, me_book := put_level (opposite side) (pl_price_ticks l) (pl_quantity l - ?q) (me_book e)\<rparr>"
      using step rec Inr unfolding market_level_step_def lv by (simp add: on_trades_def Let_def)
    then show ?thesis using Cons rec Inr q
      by (intro disjI2 exI [of _ l] exI [of _ ls] exI [of _ ?q] exI [of _ t] exI [of _ ts]) simp
  qed
qed

lemma market_level_loop_preserves:
  assumes "\<And>res w e r res' w' e'. market_level_step ld side res w e = (r, res', w', e') \<Longrightarrow> P e \<Longrightarrow> P e'"
    and "market_level_loop ld side res w e = (r, res', w', e')" "P e"
  shows "P e'"
  using assms(2,3)
proof (induction ld\<equiv>ld side\<equiv>side res w e rule: market_level_loop.induct)
  case (1 res w e)
  show ?case
  proof (cases "0 < er_remaining_quantity res")
    case False
    then show ?thesis using "1.prems" by (simp add: market_level_loop.simps)
  next
    case pos: True
    obtain r1 res1 w1 e1 where step: "market_level_step ld side res w e = (r1, res1, w1, e1)" by (metis prod_cases4)
    have ok: "P e1" using assms(1) [OF step "1.prems"(2)] .
    show ?thesis
    proof (cases "r1 = Inr True")
      case True
      then have "market_level_loop ld side res1 w1 e1 = (r, res', w', e')"
        using "1.prems" pos step by (simp add: market_level_loop.simps)
      from "1.hyps" [OF pos step [symmetric] True refl refl TrueI this ok] show ?thesis .
    next
      case False
      then have "e' = e1" using "1.prems"(1) pos step by (cases r1) (auto simp: market_level_loop.simps)
      then show ?thesis using ok by simp
    qed
  qed
qed

lemma market_level_step_cases:
  assumes "market_level_step ld side res w e = (r, res', w', e')" "book_ok (me_book e)"
  obtains (same) "me_book e' = me_book e" "me_trades e' = me_trades e"
  | (fill) l ls q t where "side_levels (opposite side) (me_book e) = l # ls" "0 < q" "q \<le> pl_quantity l"
      "record_trade side (pl_price_ticks l) q None None (me_trades e) = (Inr t, me_trades e')"
      "me_book e' = put_level (opposite side) (pl_price_ticks l) (pl_quantity l - q) (me_book e)"
  using market_level_step_shape [OF assms] by blast

lemma market_level_step_ok:
  assumes step: "market_level_step ld side res w e = (r, res', w', e')" and ok: "book_ok (me_book e) \<and> ts_ok (me_trades e)"
  shows "book_ok (me_book e') \<and> ts_ok (me_trades e')"
  using step conjunct1 [OF ok]
proof (cases rule: market_level_step_cases)
  case (fill l ls q t)
  have "0 \<le> pl_price_ticks l" "pl_quantity l \<le> INT64_MAX"
    using ok fill(1) by (cases side; auto simp: book_ok_def side_levels_def levels_ok_Cons)+
  then show ?thesis
    using fill ok put_level_ok(1) [of "me_book e" "pl_price_ticks l" "pl_quantity l - q" "opposite side"] ts_ok_record by auto
qed (use ok in auto)

lemmas market_level_loop_keeps =
  market_level_loop_preserves [where P = "\<lambda>e. book_ok (me_book e) \<and> ts_ok (me_trades e)", OF market_level_step_ok]

lemma fill_queue_length: "fill_queue acc n xs = (n', xs', fills) \<Longrightarrow> length fills \<le> length xs"
  by (induction xs arbitrary: n n' xs' fills) (fastforce split: if_splits prod.splits)+

lemma queue_length: "om_wf om \<Longrightarrow> length (queue side om) \<le> length (om_orders om)"
  using orders_by_side [of om side] by simp

lemma execute_market_order_inv:
  assumes e: "engine_inv e" and room: "trade_room e" and ex: "execute_market_order ld side q e = (r, e')"
  shows "engine_inv e'"
proof (cases "0 < q")
  case False
  then show ?thesis using ex e by (cases "validate_market_order q") (auto simp: execute_market_order_def validate_Inr_iff)
next
  case q: True
  show ?thesis
  proof (cases "om_orders (me_orders e) = []")
    case none: True
    show ?thesis
    proof (cases r)
      case (Inl err)
      then show ?thesis using market_no_orders_fails [OF none, of ld side q err e'] ex e by simp
    next
      case (Inr res)
      obtain r1 res1 w e1 where loop: "market_level_loop ld side (new_result side q) 0 e = (r1, res1, w, e1)"
        by (metis prod_cases4)
      then have "e' = e1" using ex none q Inr
        by (cases r1) (auto simp: execute_market_order_def Let_def seq_eq_Inr_iff)
      then show ?thesis
        using market_level_loop_frame [OF loop] market_level_loop_keeps [OF _ _ loop] e none by (auto simp: engine_inv_def)
    qed
  next
    case ne: False
    have wf: "om_wf (me_orders e)" using e by (simp add: engine_inv_def orders_ok_def)
    obtain n rest fills where fq: "fill_queue (\<lambda>_. True) q (queue (opposite side) (me_orders e)) = (n, rest, fills)"
      by (metis prod_cases3)
    have "length fills \<le> length (om_orders (me_orders e))"
      using fill_queue_length [OF fq] queue_length [OF wf, of "opposite side"] by simp
    then have "length (ts_trades (me_trades e)) + length fills \<le> ts_max_size (me_trades e)"
      using room by (simp add: trade_room_def)
    from market_order_ok [OF e ne q fq this, of ld] show ?thesis using ex by auto
  qed
qed

lemma execute_command_engine: "snd (execute_command wrap r) = snd r"
  by (cases r) (auto simp: execute_command_def split: sum.splits)

lemma trade_room_store:
  assumes e: "engine_inv e" and room: "trade_room e"
  shows "store_room (repriced p q s x) e"
proof -
  have wf: "om_wf (me_orders e)" using e by (simp add: engine_inv_def orders_ok_def)
  obtain n rest fills where fq: "fill_queue (limit_accepts (lo_side x) p) q (queue (opposite (lo_side x)) (me_orders e)) = (n, rest, fills)"
    by (metis prod_cases3)
  have "length fills \<le> length (om_orders (me_orders e))"
    using fill_queue_length [OF fq] queue_length [OF wf, of "opposite (lo_side x)"] by simp
  then show ?thesis using room fq by (simp add: store_room_def trade_room_def)
qed

lemma process_command_inv:
  assumes e: "engine_inv e" and room: "trade_room e" and c: "command_i64 command"
  shows "engine_inv (snd (process_command ld command e))"
proof -
  have place: "engine_inv (snd (place_limit_order side p q e))" if "i64 p" "i64 q" for side p q
    using place_keeps_inv [OF e that] .
  have market: "engine_inv (snd (execute_market_order ld side q e))" for side q
    using execute_market_order_inv [OF e room, of ld side q] by (metis prod.collapse)
  have modify: "engine_inv (snd (modify_order k p q e))" if "i64 p" "i64 q" for k p q
    using modify_order_step(1) [OF e that, of k] trade_room_store [OF e room] by (metis prod.collapse)
  have cancel: "engine_inv (snd (cancel_order k e))" for k
  proof (cases "om_find_order (me_orders e) k")
    case None
    then show ?thesis using cancel_order_unknown e by simp
  next
    case (Some x)
    obtain e' where "cancel_order k e = (Inr True, e')" "engine_inv e'" using cancel_order_known [OF e Some] by metis
    then show ?thesis by simp
  qed
  have clear: "engine_inv (clear_trade_history e)"
    using e ts_ok_clear by (auto simp: engine_inv_def clear_trade_history_def synced_def)
  show ?thesis
    using c e place market modify cancel clear
    by (cases command) (simp_all add: process_command_def execute_command_engine command_i64_def place_limit_buy_def
        place_limit_sell_def execute_market_buy_def execute_market_sell_def)
qed

subsection \<open>Invariants of the commands are invariants of the runs\<close>

lemma serve_preserves:
  assumes step: "\<And>e command. P e \<Longrightarrow> trade_room e \<Longrightarrow> command_i64 command \<Longrightarrow> P (snd (process_command ld command e))"
    and "P e" "\<forall>x \<in> set xs. command_i64 (snd x)" "\<forall>k < length xs. trade_room (fst (serve ld (take k xs) (e, m)))"
  shows "P (fst (serve ld xs (e, m)))"
  using assms(2-4)
proof (induction xs rule: rev_induct)
  case (snoc x xs)
  obtain t c where x: "x = (t, c)" by fastforce
  obtain e1 m1 where s: "serve ld xs (e, m) = (e1, m1)" by fastforce
  have room: "trade_room (fst (serve ld (take k xs) (e, m)))" if "k \<le> length xs" for k
    using snoc.prems(3) [rule_format, of k] that by simp
  then have "P e1" using snoc s by simp
  moreover have "trade_room e1" using room [of "length xs"] s by simp
  ultimately have "P (snd (process_command ld c e1))" using step snoc.prems(2) x by simp
  then show ?case using s x by (auto simp: serve_append split: prod.splits)
qed simp

lemma runs_preserve:
  assumes "runs ld (new_concurrent_engine e) tr ce"
    and "\<And>e command. P e \<Longrightarrow> trade_room e \<Longrightarrow> command_i64 command \<Longrightarrow> P (snd (process_command ld command e))" "P e"
    and "\<forall>x \<in> set (accepted tr). command_i64 (snd x)"
    and "\<forall>k < length (accepted tr). trade_room (fst (serve ld (take k (accepted tr)) (e, Map.empty)))"
  shows "P (ce_engine ce)"
proof -
  obtain served where s: "accepted tr = served @ in_hand (ce_worker ce) @ bq_queue (ce_queue ce)"
    "serve ld served (e, Map.empty) = (ce_engine ce, ce_promises ce)"
    using runs_stands [OF assms(1)] by (auto simp: new_concurrent_engine_def new_queue_def stands_def)
  have "trade_room (fst (serve ld (take k served) (e, Map.empty)))" if "k < length served" for k
    using assms(5) [rule_format, of k] s(1) that by simp
  then have "P (fst (serve ld served (e, Map.empty)))"
    using serve_preserves [of P ld e served, OF assms(2,3)] assms(4) s(1) by simp
  then show ?thesis using s(2) by simp
qed

end
