(* ===== verification/Engine_Types.thy ===== *)
theory Engine_Types
  imports Concurrent_Engine
begin

text \<open>
  The model's prices and quantities are integers; the code's are \<open>std::int64_t\<close>. \<open>stored_i64\<close> says of an
  engine that every price and quantity it stores, in orders, in levels of the book and in recorded
  trades, is one of that type, and every command keeps it: what the code stores is what the model does.
\<close>

definition order_i64 :: "limit_order \<Rightarrow> bool" where
  "order_i64 x \<longleftrightarrow> i64 (lo_price_ticks x) \<and> i64 (lo_original_quantity x) \<and> i64 (lo_remaining_quantity x)"

definition level_i64 :: "price_level \<Rightarrow> bool" where
  "level_i64 l \<longleftrightarrow> i64 (pl_price_ticks l) \<and> i64 (pl_quantity l)"

definition trade_i64 :: "trade \<Rightarrow> bool" where
  "trade_i64 t \<longleftrightarrow> i64 (tr_price_ticks t) \<and> i64 (tr_quantity t)"

definition book_i64 :: "order_book \<Rightarrow> bool" where
  "book_i64 book \<longleftrightarrow> (\<forall>l \<in> set (ob_bids book) \<union> set (ob_asks book). level_i64 l)"

definition trades_i64 :: "matching_engine \<Rightarrow> bool" where
  "trades_i64 e \<longleftrightarrow> (\<forall>t \<in> set (ts_trades (me_trades e)). trade_i64 t)"

definition stored_i64 :: "matching_engine \<Rightarrow> bool" where
  "stored_i64 e \<longleftrightarrow> (\<forall>x \<in> set (om_orders (me_orders e)). order_i64 x) \<and> book_i64 (me_book e) \<and> trades_i64 e"

subsection \<open>What the invariants give\<close>

lemma i64_nonneg: "0 \<le> z \<Longrightarrow> z \<le> INT64_MAX \<Longrightarrow> i64 z"
  by (simp add: i64_def INT64_MIN_def)

lemma order_ok_i64: "order_ok x \<Longrightarrow> order_i64 x"
  by (auto simp: order_i64_def order_ok_def order_valid_def i64_def INT64_MIN_def)

lemma level_has_order:
  assumes "synced e" "l \<in> set (side_levels side (me_book e))"
  shows "\<exists>x \<in> set (om_orders (me_orders e)). lo_side x = side \<and> lo_price_ticks x = pl_price_ticks l"
  using synced_level_iff [OF assms(1), of "pl_price_ticks l" side] assms(2) queue_mem [OF syncedD(1) [OF assms(1)]]
  by fastforce

lemma synced_book_i64:
  assumes "synced e"
  shows "book_i64 (me_book e)"
proof -
  have "level_i64 l" if l: "l \<in> set (side_levels side (me_book e))" for l side
  proof -
    obtain x where "x \<in> set (om_orders (me_orders e))" "lo_price_ticks x = pl_price_ticks l"
      using level_has_order [OF assms l] by blast
    then have "i64 (pl_price_ticks l)" using order_ok_i64 [OF syncedD(2) [OF assms]] unfolding order_i64_def by metis
    moreover have "0 < pl_quantity l \<and> pl_quantity l \<le> INT64_MAX"
      using syncedD(3) [OF assms] l by (cases side) (auto simp: book_ok_def levels_ok_def side_levels_def)
    ultimately show ?thesis by (simp add: level_i64_def i64_nonneg)
  qed
  from this [of _ Buy] this [of _ Sell] show ?thesis by (auto simp: book_i64_def side_levels_def)
qed

lemma stored_i64I: "engine_inv e \<Longrightarrow> synced e \<or> book_i64 (me_book e) \<Longrightarrow> trades_i64 e \<Longrightarrow> stored_i64 e"
  using synced_book_i64 by (auto simp: stored_i64_def engine_inv_def orders_ok_def order_ok_i64)

subsection \<open>Fills\<close>

lemma trades_i64_record:
  assumes "record_trade s p q b sl ts = (Inr t, me_trades e')" "me_trades e = ts" "trades_i64 e" "i64 p" "i64 q"
  shows "trades_i64 e'"
  using record_trade_ok(3,5,6) [OF assms(1)] assms(2-5) by (auto simp: trades_i64_def trade_i64_def)

lemma fill_run_i64:
  assumes "fill_run acc side aggr n e fills js n' e'" "synced e" "0 \<le> n" "trades_i64 e"
  shows "trades_i64 e'"
  using assms(1,4)
proof induction
  case (fill fills ms n1 e1 x xs q t ts m e2)
  have "synced e1" using fill_run_inv [OF fill.hyps(1) assms(2,3)] by simp
  then have "order_ok x" using queue_head_ok fill.hyps(3) by blast
  then have "i64 (lo_price_ticks x)" "0 < lo_remaining_quantity x" "i64 (lo_remaining_quantity x)"
    using order_ok_i64 order_okD by (auto simp: order_i64_def)
  moreover then have "i64 q" using fill.hyps(2,5) by (auto simp: i64_def min_def INT64_MIN_def)
  ultimately show ?case using trades_i64_record [of side "lo_price_ticks x" q _ _ "me_trades e1" t e2 e1] fill by simp
qed simp

lemma placed_i64:
  assumes "placed inc c e'" "synced c" "limit_order_ok inc" "trades_i64 c"
  shows "trades_i64 e'"
  using assms fill_run_i64 by (fastforce simp: placed_def limit_order_ok_def rested_def trades_i64_def split: if_splits)

subsection \<open>Commands\<close>

lemma place_i64:
  assumes e: "engine_inv e" "stored_i64 e" and b: "i64 p" "i64 q"
  shows "stored_i64 (snd (place_limit_order side p q e))"
proof (cases "place_limit_order side p q e")
  case (Pair r e')
  show ?thesis
  proof (cases r)
    case (Inl err)
    then show ?thesis using place_limit_order_fails [OF e(1) b(2)] Pair e(2) by auto
  next
    case (Inr i)
    then have ok: "place_limit_order side p q e = (Inr i, e')" using Pair by simp
    note pl = place_limit_order_placed [OF e(1) b ok]
    let ?inc = "\<lparr>lo_order_id = i, lo_side = side, lo_price_ticks = p, lo_original_quantity = q,
         lo_remaining_quantity = q, lo_sequence_number = me_next_sequence e\<rparr>"
    have "limit_order_ok ?inc" using pl(3,4) b by (simp add: limit_order_ok_def i64_def)
    from placed_i64 [OF pl(5) _ this] have "trades_i64 e'"
      using place_start_synced [OF e(1)] e(2) by (simp add: stored_i64_def trades_i64_def)
    then show ?thesis
      using Pair stored_i64I place_limit_order_inv [OF e(1) b ok] place_limit_order_synced [OF e(1) b ok] by simp
  qed
qed

lemma trades_i64_fills:
  assumes "list_all2 (trade_of side aggr) fills ts" "\<forall>f \<in> set fills. i64 (lo_price_ticks (fst f)) \<and> i64 (snd f)" "t \<in> set ts"
  shows "trade_i64 t"
  using assms by (induction rule: list_all2_induct) (auto simp: trade_of_def trade_i64_def)

lemma market_orders_i64:
  assumes e: "engine_inv e" "stored_i64 e" and room: "trade_room e" and ne: "om_orders (me_orders e) \<noteq> []" and q: "0 < q"
  shows "stored_i64 (snd (execute_market_order ld side q e))"
proof -
  have s: "synced e" using e ne by (simp add: engine_inv_def)
  obtain n rest fills where fq: "fill_queue (\<lambda>_. True) q (queue (opposite side) (me_orders e)) = (n, rest, fills)"
    by (metis prod_cases3)
  have "length (ts_trades (me_trades e)) + length fills \<le> ts_max_size (me_trades e)"
    using fill_queue_length [OF fq] queue_length [OF syncedD(1) [OF s], of "opposite side"] room by (simp add: trade_room_def)
  from market_order_ok [OF e(1) ne q fq this, of ld] obtain ts e' res where r: "execute_market_order ld side q e = (Inr res, e')"
    "engine_inv e'" "synced e'" "ts_trades (me_trades e') = ts_trades (me_trades e) @ ts" "list_all2 (trade_of side None) fills ts"
    by blast
  have ok: "\<forall>x \<in> set (queue (opposite side) (me_orders e)). order_ok x"
    using queue_mem [OF syncedD(1) [OF s]] syncedD(2) [OF s] by blast
  have "i64 (lo_price_ticks (fst f)) \<and> i64 (snd f)" if f: "f \<in> set fills" for f
  proof -
    have "order_i64 (fst f)" "0 < snd f" "snd f \<le> lo_remaining_quantity (fst f)"
      using fill_queue_total(3,5) [OF ok _ fq] q ok f order_ok_i64 by auto
    then show ?thesis by (auto simp: order_i64_def i64_def INT64_MIN_def)
  qed
  then have "trades_i64 e'" using trades_i64_fills [OF r(5)] r(4) e(2) by (auto simp: stored_i64_def trades_i64_def)
  then show ?thesis using r stored_i64I by simp
qed

lemma market_levels_i64:
  assumes e: "engine_inv e" "stored_i64 e" and none: "om_orders (me_orders e) = []" and q: "0 < q"
  shows "stored_i64 (snd (execute_market_order ld side q e))"
proof (cases "execute_market_order ld side q e")
  case (Pair r e')
  let ?P = "\<lambda>e. (book_ok (me_book e) \<and> book_i64 (me_book e)) \<and> trades_i64 e"
  have step: "?P e2" if st: "market_level_step ld side res w e1 = (r, res', w', e2)" and P: "?P e1" for res w e1 r res' w' e2
    using st conjunct1 [OF conjunct1 [OF P]]
  proof (cases rule: market_level_step_cases)
    case (fill l ls q t)
    have l: "level_i64 l" "0 \<le> pl_price_ticks l" "pl_quantity l \<le> INT64_MAX"
      using P fill(1) by (cases side; auto simp: book_ok_def side_levels_def levels_ok_Cons book_i64_def)+
    have "i64 q" using fill(2,3) l(1) by (auto simp: level_i64_def i64_def INT64_MIN_def)
    then have "trades_i64 e2" using trades_i64_record [OF fill(4) refl] P l(1) by (simp add: level_i64_def)
    moreover have "book_i64 (me_book e2)"
      using P l fill(2,3,5) by (cases side) (auto simp: book_i64_def put_level_def set_level_def level_i64_def i64_def INT64_MIN_def)
    moreover have "book_ok (me_book e2)" using put_level_ok(1) [of "me_book e1"] P l fill(2,3,5) by simp
    ultimately show ?thesis by simp
  qed (use P in \<open>simp add: trades_i64_def\<close>)
  show ?thesis
  proof (cases r)
    case (Inl err)
    then show ?thesis using market_no_orders_fails [OF none, of ld side q err e'] Pair e(2) by simp
  next
    case (Inr res)
    obtain r1 res1 w e1 where loop: "market_level_loop ld side (new_result side q) 0 e = (r1, res1, w, e1)"
      by (metis prod_cases4)
    then have "e' = e1" using Pair none q Inr
      by (cases r1) (auto simp: execute_market_order_def Let_def seq_eq_Inr_iff)
    then show ?thesis
      using market_level_loop_preserves [of ld side ?P, OF step loop] market_level_loop_frame [OF loop] e none Pair
      by (auto simp: stored_i64_def engine_inv_def)
  qed
qed

lemma modify_i64:
  assumes e: "engine_inv e" "stored_i64 e" and b: "i64 p" "i64 q"
    and room: "\<And>x. store_room (repriced p q (me_next_sequence e) x) e"
  shows "stored_i64 (snd (modify_order k p q e))"
proof (cases "modify_order k p q e")
  case (Pair r e')
  have inv: "engine_inv e'" and fails: "(\<exists>err. r = Inl err) \<Longrightarrow> e' = e"
    using modify_order_step [OF e(1) b _ Pair] room by blast+
  have "stored_i64 e'" if r: "r = Inr v" for v
  proof (cases "om_find_order (me_orders e) k")
    case None
    then show ?thesis using Pair r e(2)
      by (cases "validate_modify_order p q") (auto simp: modify_order_def)
  next
    case (Some x)
    have bb: "0 < p" "p \<le> INT64_MAX" "0 < q" "q \<le> INT64_MAX"
      using Pair r b by (cases "validate_modify_order p q"; auto simp: modify_order_def validate_Inr_iff i64_def)+
    show ?thesis
    proof (cases "p = lo_price_ticks x")
      case True
      then have m: "modify_same_price k x q e = (r, e')" using Pair Some bb by (simp add: modify_order_def)
      have "synced e' \<and> me_trades e' = me_trades e"
        using modify_same_price_ok [OF e(1) Some bb(3,4)] modify_same_price_needs [OF e(1) Some bb(3,4)] m r by auto
      then show ?thesis using stored_i64I [OF inv] e(2) by (simp add: stored_i64_def trades_i64_def)
    next
      case False
      then have m: "modify_price k x p q e = (r, e')" using Pair Some bb by (simp add: modify_order_def)
      let ?m = "repriced p q (me_next_sequence e) x"
      obtain c where c: "synced c" "placed ?m c e'" "me_trades c = me_trades e"
        using modify_price_result [OF e(1) Some bb room m] r by auto
      have ok: "limit_order_ok ?m" using bb by (simp add: limit_order_ok_def)
      have "trades_i64 e'" using placed_i64 [OF c(2,1) ok] c(3) e(2) by (simp add: stored_i64_def trades_i64_def)
      moreover have "synced e'" using placed_result [OF c(1) ok c(2)] by metis
      ultimately show ?thesis using stored_i64I [OF inv] by simp
    qed
  qed
  then show ?thesis using fails Pair e(2) by (cases r) auto
qed

lemma cancel_i64:
  assumes e: "engine_inv e" "stored_i64 e"
  shows "stored_i64 (snd (cancel_order k e))"
proof (cases "om_find_order (me_orders e) k")
  case None
  then show ?thesis using cancel_order_unknown e by simp
next
  case (Some x)
  obtain e' where "cancel_order k e = (Inr True, e')" "engine_inv e'" "synced e'" "me_trades e' = me_trades e"
    using cancel_order_known [OF e(1) Some] by metis
  then show ?thesis using stored_i64I [of e'] e(2) by (simp add: stored_i64_def trades_i64_def)
qed

lemma market_i64:
  assumes "engine_inv e" "stored_i64 e" "trade_room e"
  shows "stored_i64 (snd (execute_market_order ld side q e))"
proof (cases "0 < q")
  case False
  then show ?thesis
    using assms(2) by (cases "validate_market_order q") (auto simp: execute_market_order_def validate_Inr_iff)
next
  case True
  then show ?thesis using market_orders_i64 [OF assms _ True] market_levels_i64 [OF assms(1,2) _ True] by blast
qed

lemma process_command_i64:
  assumes e: "engine_inv e" "stored_i64 e" and room: "trade_room e" and c: "command_i64 command"
  shows "stored_i64 (snd (process_command ld command e))"
proof -
  have sr: "store_room (repriced p q s x) e" for p q s x
    by (rule trade_room_store [OF e(1) room])
  have clear: "stored_i64 (clear_trade_history e)"
    using e(2) by (simp add: stored_i64_def trades_i64_def clear_trade_history_def clear_trades_def)
  show ?thesis
    using c e place_i64 [OF e] market_i64 [OF e room] modify_i64 [OF e _ _ sr] cancel_i64 [OF e] clear
    by (cases command) (simp_all add: process_command_def execute_command_engine command_i64_def place_limit_buy_def
        place_limit_sell_def execute_market_buy_def execute_market_sell_def)
qed

end
