(* ===== verification/Direct_Matching.thy ===== *)
theory Direct_Matching
  imports Placement
begin

text \<open>
  The matching loop without a journal: \<open>process_limit_match\<close> and \<open>match_limit_order\<close> of
  \<open>matching_engine.cpp\<close>, private members that the engine declares beside the loop inlined in
  \<open>place_limit_order\<close>. They take a filled order out with the plain \<open>cancel_order\<close> and pass over
  an order that is not there, so that the loop has no bound of its own: it is a
  \<^theory_text>\<open>partial_function\<close> whose \<open>None\<close> is a loop that does not end. On a synced engine it ends, and gives
  what the journalled loop gives.
\<close>

subsection \<open>The code\<close>

definition process_limit_match ::
  "limit_order \<Rightarrow> order_id \<Rightarrow> matching_engine \<Rightarrow> (unit, limit_order \<times> matching_engine) outcome" where
  "process_limit_match incoming_order resting_order_id e =
     (case om_find_order (me_orders e) resting_order_id of
        None \<Rightarrow> (Inr (), incoming_order, e)
      | Some resting_order \<Rightarrow>
          (case execute_limit_trade incoming_order resting_order_id resting_order e of
             (Inl err, s) \<Rightarrow> (Inl err, s)
           | (Inr _, incoming1, e1) \<Rightarrow>
               if is_filled (the (om_find_order (me_orders e1) resting_order_id))
               then (case om_cancel_order resting_order_id (me_orders e1) of
                       (Inl err, om) \<Rightarrow> (Inl err, incoming1, e1\<lparr>me_orders := om\<rparr>)
                     | (Inr _, om) \<Rightarrow> (Inr (), incoming1, e1\<lparr>me_orders := om\<rparr>))
               else (Inr (), incoming1, e1)))"

partial_function (option) match_limit_order ::
  "limit_order \<Rightarrow> matching_engine \<Rightarrow> (unit, limit_order \<times> matching_engine) outcome option" where
  "match_limit_order incoming_order e =
     (if lo_remaining_quantity incoming_order > 0
      then (case find_best_match incoming_order e of
              None \<Rightarrow> Some (Inr (), incoming_order, e)
            | Some best_match_id \<Rightarrow>
                (case process_limit_match incoming_order best_match_id e of
                   (Inl err, s) \<Rightarrow> Some (Inl err, s)
                 | (Inr _, incoming1, e1) \<Rightarrow> match_limit_order incoming1 e1))
      else Some (Inr (), incoming_order, e))"

subsection \<open>The two ways of removing an order\<close>

lemma om_cancel_order_agrees:
  assumes wf: "om_wf om" and c: "om_cancel_order_removal k r om = (Inr True, om', record)"
  shows "om_cancel_order k om = (Inr True, om')"
proof -
  from c obtain i where i: "om_indices om k = Some i"
    by (auto simp: om_cancel_order_removal_def split: option.splits)
  let ?x = "om_orders om ! i"
  let ?cmp = "priority_compare (lo_side ?x)" and ?key = "make_priority_key ?x" and ?idx = "priority_index (lo_side ?x) om"
  have il: "i < length (om_orders om)" using om_wf_index [OF wf] i by auto
  have pre: "set_extract ?cmp ?key ?idx = (Some ?key, snd (set_erase ?cmp ?key ?idx))"
    "fst (set_erase ?cmp ?key ?idx) = 1"
    using prio.set_extract_present [OF om_wf_prio(1) [OF wf]] prio.set_erase_present [OF om_wf_prio(1) [OF wf]]
      removed_keys(1) [OF wf il] by metis+
  then show ?thesis using c i
    by (cases "set_erase ?cmp ?key ?idx"; cases "lo_side ?x")
      (auto simp: om_cancel_order_removal_def om_cancel_order_def Let_def split: prod.splits sum.splits)
qed

lemma om_wf_write_remaining:
  assumes "om_wf om"
  shows "om_wf (om_write_order k (\<lambda>o1. o1\<lparr>lo_remaining_quantity := f o1\<rparr>) om)"
proof (cases "om_indices om k")
  case (Some i)
  then show ?thesis
    using om_wf_write [OF assms, of i] om_wf_index [OF assms, of k i]
    by (auto simp: om_write_order_def same_key_def make_priority_key_def)
qed (simp add: om_write_order_def assms)

subsection \<open>One round\<close>

text \<open>What \<open>remove_if_filled\<close> does to the manager is what the plain removal does.\<close>

lemma remove_if_filled_plain:
  assumes "om_wf (me_orders e)" "remove_if_filled k k m e = (Inr (), m', e')"
  shows "(if is_filled (the (om_find_order (me_orders e) k))
          then (case om_cancel_order k (me_orders e) of
                  (Inl err, om) \<Rightarrow> (Inl err, inc, e\<lparr>me_orders := om\<rparr>)
                | (Inr _, om) \<Rightarrow> (Inr (), inc, e\<lparr>me_orders := om\<rparr>))
          else (Inr (), inc, e)) = (Inr (), inc, e')"
  using assms om_cancel_order_agrees [OF assms(1), of k "mu_removal m"]
  by (auto simp: remove_if_filled_def split: if_splits sum.splits prod.splits)

lemma execute_limit_trade_wf:
  assumes "om_wf (me_orders e)" "execute_limit_trade inc k x e = (r, inc', e')"
  shows "om_wf (me_orders e')"
  using assms om_wf_write_remaining [OF assms(1)]
  by (auto simp: execute_limit_trade_def Let_def adjust_order_book_def split: sum.splits prod.splits if_splits)

lemma process_limit_match_step:
  assumes wf: "om_wf (me_orders e)" and best: "find_best_match inc e = Some k"
    and found: "om_find_order (me_orders e) k = Some x"
    and step: "match_step inc ms e = (Inr b, inc', ms', e')"
  shows "process_limit_match inc k e = (Inr (), inc', e')"
proof -
  have k: "lo_order_id x = k" using found om_find_order_Some_iff [OF wf] by simp
  obtain rt inc1 e1 where ex: "execute_limit_trade inc k x e = (rt, inc1, e1)" by (metis prod_cases3)
  have rt: "rt = Inr ()" using step best found ex by (cases rt) (auto simp: match_step_def Let_def)
  obtain m e2 where rem: "remove_if_filled k k (new_mutation (min (lo_remaining_quantity inc) (lo_remaining_quantity x)) x) e1
      = (Inr (), m, e2)" "inc' = inc1" "e' = e2"
    using step best found ex rt k by (auto simp: match_step_def Let_def split: sum.splits prod.splits)
  show ?thesis
    using remove_if_filled_plain [OF execute_limit_trade_wf [OF wf ex] rem(1), of inc1] found ex rt rem(2,3)
    by (simp add: process_limit_match_def)
qed

lemma process_limit_match_full:
  assumes "om_find_order (me_orders e) k = Some x" "execute_limit_trade inc k x e = (Inl err, inc', e')"
  shows "process_limit_match inc k e = (Inl err, inc', e')"
  using assms by (simp add: process_limit_match_def)

lemma process_limit_match_fill:
  assumes e: "synced e" and inc: "0 < lo_remaining_quantity inc"
    and qu: "queue (opposite (lo_side inc)) (me_orders e) = x # xs"
    and acc: "limit_accepts (lo_side inc) (lo_price_ticks inc) (lo_price_ticks x)"
    and step: "match_step inc ms e = (r, inc', ms', e')"
  shows "find_best_match inc e = Some (lo_order_id x)"
    "process_limit_match inc (lo_order_id x) e = (case r of Inl err \<Rightarrow> Inl err | Inr _ \<Rightarrow> Inr (), inc', e')"
    "r \<noteq> Inr False" "r = Inr True \<Longrightarrow> synced e'"
proof -
  have wf: "om_wf (me_orders e)" using syncedD(1) [OF e] by simp
  have x: "order_ok x" "x \<in> set (om_orders (me_orders e))" using queue_head_ok [OF e qu] by simp_all
  show best: "find_best_match inc e = Some (lo_order_id x)"
    using find_best_match_queue [OF wf, of inc] qu acc by simp
  have found: "om_find_order (me_orders e) (lo_order_id x) = Some x" using om_find_order_mem [OF wf x(2)] .
  show "process_limit_match inc (lo_order_id x) e = (case r of Inl err \<Rightarrow> Inl err | Inr _ \<Rightarrow> Inr (), inc', e')"
  proof (cases "store_full e")
    case True
    then have "execute_limit_trade inc (lo_order_id x) x e = (Inl Length_error, inc, e)"
      using record_full [OF True] order_okD(1,2) [OF x(1)] inc by (simp add: execute_limit_trade_def Let_def)
    then show ?thesis
      using process_limit_match_full [OF found] match_step_fill(1) [OF e inc qu acc True, of ms] step by auto
  next
    case False
    then show ?thesis
      using match_step_fill(2) [OF e inc qu acc False, of ms] step process_limit_match_step [OF wf best found]
      by (auto split: sum.splits)
  qed
  show "r \<noteq> Inr False" "r = Inr True \<Longrightarrow> synced e'"
    using match_step_fill [OF e inc qu acc, of ms] step by (cases "store_full e"; auto simp: fill_of_def)+
qed

subsection \<open>The loop\<close>

lemma match_limit_order_stop:
  "find_best_match inc e = None \<Longrightarrow> match_limit_order inc e = Some (Inr (), inc, e)"
  by (simp add: match_limit_order.simps [of inc e])

text \<open>C11 The matching loop without a journal ends on every synced engine, and its outcome is the outcome of
  the journalled loop that \<open>place_limit_order\<close> runs: the same result or exception, the same
  incoming order and the same engine.\<close>
theorem match_limit_order_agrees:
  assumes "synced e" "match_loop inc ms e = (r, inc', ms', e')"
  shows "match_limit_order inc e = Some (r, inc', e')"
  using assms
proof (induction inc ms e rule: match_loop.induct)
  case (1 inc ms e)
  show ?case
  proof (cases "0 < lo_remaining_quantity inc")
    case pos: True
    obtain rs inc1 ms1 e1 where step: "match_step inc ms e = (rs, inc1, ms1, e1)" by (metis prod_cases4)
    show ?thesis
    proof (cases "nothing_acceptable (limit_accepts (lo_side inc) (lo_price_ticks inc))
        (queue (opposite (lo_side inc)) (me_orders e))")
      case True
      then have "find_best_match inc e = None"
        using find_best_match_queue [OF syncedD(1) [OF "1.prems"(1)], of inc]
        by (auto simp: nothing_acceptable_def split: list.splits)
      then show ?thesis
        using match_step_stop [OF "1.prems"(1) True, of ms] "1.prems"(2) pos match_limit_order_stop
        by (auto simp: match_loop.simps [of inc])
    next
      case False
      then obtain x xs where x: "queue (opposite (lo_side inc)) (me_orders e) = x # xs"
        "limit_accepts (lo_side inc) (lo_price_ticks inc) (lo_price_ticks x)"
        by (auto simp: nothing_acceptable_def split: list.splits)
      note pm = process_limit_match_fill [OF "1.prems"(1) pos x step]
      show ?thesis
        using pm "1.prems"(2) "1.IH" [OF pos step [symmetric]] pos step
        by (auto simp: match_loop.simps [of inc] match_limit_order.simps [of inc] split: sum.splits)
    qed
  qed (use "1.prems" in \<open>simp add: match_loop.simps match_limit_order.simps\<close>)
qed

theorem match_limit_order_agrees_witness:
  "\<exists>inc' e'. match_limit_order \<lparr>lo_order_id = 2, lo_side = Buy, lo_price_ticks = 102,
      lo_original_quantity = 8, lo_remaining_quantity = 8, lo_sequence_number = 2\<rparr> (engine_one_ask 10) = Some (Inr (), inc', e')
    \<and> lo_remaining_quantity inc' = 3 \<and> active_limit_orders e' = []"
proof -
  let ?inc = "\<lparr>lo_order_id = 2, lo_side = Buy, lo_price_ticks = 102,
      lo_original_quantity = 8, lo_remaining_quantity = 8, lo_sequence_number = 2\<rparr>"
  obtain r inc' ms' e' where m: "match_loop ?inc [] (engine_one_ask 10) = (r, inc', ms', e')" by (metis prod_cases4)
  have "(case match_loop ?inc [] (engine_one_ask 10) of (r, inc', ms', e') \<Rightarrow>
      r = Inr () \<and> lo_remaining_quantity inc' = 3 \<and> active_limit_orders e' = [])" by code_simp
  with match_limit_order_agrees [OF one_ask_synced m] m show ?thesis by auto
qed

end
