(* ===== verification/Trade_Analytics.thy ===== *)
theory Trade_Analytics
  imports Order_Types Floating
begin

text \<open>
  Analytics over executed trades: the rolling volume-weighted average price
  (\<open>include/rolling_vwap.hpp\<close>), the trade statistics (\<open>include/trade_statistics.hpp\<close>) and the handler
  that feeds both from an execution (\<open>include/analytics_execution_handler.hpp\<close>). A \<open>double\<close> argument is
  a finite number or not; stored numbers are finite. \<open>ld\<close> and \<open>dbl\<close> are the roundings of
  \<open>long double\<close> and \<open>double\<close>; widening a \<open>double\<close> is exact.
\<close>

datatype fp_value = Finite rat | Non_finite

definition finite_positive :: "fp_value \<Rightarrow> bool" where
  "finite_positive x = (case x of Finite r \<Rightarrow> r > 0 | Non_finite \<Rightarrow> False)"

definition fp_rat :: "fp_value \<Rightarrow> rat" where
  "fp_rat x = (case x of Finite r \<Rightarrow> r | Non_finite \<Rightarrow> 0)"

text \<open>The checks both \<open>add_trade\<close> methods begin with.\<close>

definition validate_fp_trade :: "string \<Rightarrow> fp_value \<Rightarrow> fp_value \<Rightarrow> unit result" where
  "validate_fp_trade symbol price quantity =
     (if symbol = [] then Inl (Invalid_argument ''Trade symbol cannot be empty'')
      else if \<not> finite_positive price then Inl (Invalid_argument ''Trade price must be finite and positive'')
      else if \<not> finite_positive quantity then Inl (Invalid_argument ''Trade quantity must be finite and positive'')
      else Inr ())"

subsection \<open>Rolling VWAP\<close>

record vwap_state =
  vs_trades :: "(rat \<times> rat) list"
  vs_total_notional :: rat
  vs_total_volume :: rat

record rolling_vwap =
  rv_window_size :: nat
  rv_symbols :: "string \<rightharpoonup> vwap_state"

definition empty_vwap_state :: vwap_state where
  "empty_vwap_state = \<lparr>vs_trades = [], vs_total_notional = 0, vs_total_volume = 0\<rparr>"

definition new_rolling_vwap :: "nat \<Rightarrow> rolling_vwap result" where
  "new_rolling_vwap window_size =
     (if window_size = 0 then Inl (Invalid_argument ''VWAP window size must be positive'')
      else Inr \<lparr>rv_window_size = window_size, rv_symbols = Map.empty\<rparr>)"

definition vwap_drop_oldest :: "rounding_mode \<Rightarrow> nat \<Rightarrow> vwap_state \<Rightarrow> vwap_state" where
  "vwap_drop_oldest ld window_size state =
     (if length (vs_trades state) = window_size
      then (let oldest = hd (vs_trades state)
            in state\<lparr>vs_total_notional := ld (vs_total_notional state - ld (fst oldest * snd oldest)),
                     vs_total_volume := ld (vs_total_volume state - snd oldest),
                     vs_trades := tl (vs_trades state)\<rparr>)
      else state)"

definition vwap_push :: "rounding_mode \<Rightarrow> rat \<Rightarrow> rat \<Rightarrow> vwap_state \<Rightarrow> vwap_state" where
  "vwap_push ld price quantity state =
     state\<lparr>vs_trades := vs_trades state @ [(price, quantity)],
           vs_total_notional := ld (vs_total_notional state + ld (price * quantity)),
           vs_total_volume := ld (vs_total_volume state + quantity)\<rparr>"

definition vwap_add_trade ::
  "rounding_mode \<Rightarrow> string \<Rightarrow> fp_value \<Rightarrow> fp_value \<Rightarrow> rolling_vwap \<Rightarrow> (unit, rolling_vwap) outcome" where
  "vwap_add_trade ld symbol price quantity rv =
     (case validate_fp_trade symbol price quantity of
        Inl err \<Rightarrow> (Inl err, rv)
      | Inr _ \<Rightarrow>
          (let state = (case rv_symbols rv symbol of None \<Rightarrow> empty_vwap_state | Some st \<Rightarrow> st);
               state1 = vwap_push ld (fp_rat price) (fp_rat quantity) (vwap_drop_oldest ld (rv_window_size rv) state)
           in (Inr (), rv\<lparr>rv_symbols := (rv_symbols rv)(symbol \<mapsto> state1)\<rparr>)))"

definition get_vwap :: "rounding_mode \<Rightarrow> rounding_mode \<Rightarrow> rolling_vwap \<Rightarrow> string \<Rightarrow> rat option" where
  "get_vwap ld dbl rv symbol =
     (case rv_symbols rv symbol of
        None \<Rightarrow> None
      | Some state \<Rightarrow>
          if vs_trades state = [] \<or> vs_total_volume state \<le> 0 then None
          else Some (dbl (ld (vs_total_notional state / vs_total_volume state))))"

definition vwap_trade_count :: "rolling_vwap \<Rightarrow> string \<Rightarrow> nat" where
  "vwap_trade_count rv symbol = (case rv_symbols rv symbol of None \<Rightarrow> 0 | Some state \<Rightarrow> length (vs_trades state))"

definition vwap_clear_symbol :: "string \<Rightarrow> rolling_vwap \<Rightarrow> rolling_vwap" where
  "vwap_clear_symbol symbol rv = rv\<lparr>rv_symbols := (rv_symbols rv)(symbol := None)\<rparr>"

definition vwap_clear :: "rolling_vwap \<Rightarrow> rolling_vwap" where
  "vwap_clear rv = rv\<lparr>rv_symbols := Map.empty\<rparr>"

subsection \<open>Trade statistics\<close>

datatype trade_aggressor_side = Aggressor_buy | Aggressor_sell | Aggressor_unknown

record statistics_state =
  ss_trade_count :: nat
  ss_total_volume :: rat
  ss_total_price :: rat
  ss_minimum_price :: rat
  ss_maximum_price :: rat
  ss_buy_volume :: rat
  ss_sell_volume :: rat
  ss_unknown_volume :: rat

definition empty_statistics_state :: statistics_state where
  "empty_statistics_state = \<lparr>ss_trade_count = 0, ss_total_volume = 0, ss_total_price = 0, ss_minimum_price = 0,
     ss_maximum_price = 0, ss_buy_volume = 0, ss_sell_volume = 0, ss_unknown_volume = 0\<rparr>"

record trade_statistics =
  st_symbols :: "string \<rightharpoonup> statistics_state"

record trade_statistics_snapshot =
  sn_trade_count :: nat
  sn_total_volume :: rat
  sn_average_trade_price :: rat
  sn_minimum_trade_price :: rat
  sn_maximum_trade_price :: rat
  sn_average_trade_size :: rat
  sn_buy_volume :: rat
  sn_sell_volume :: rat
  sn_unknown_volume :: rat

text \<open>\<open>size_t\<close> has 64 bits.\<close>

definition SIZE_MAX :: nat where
  "SIZE_MAX = 18446744073709551615"

definition statistics_count ::
  "rounding_mode \<Rightarrow> rat \<Rightarrow> rat \<Rightarrow> statistics_state \<Rightarrow> statistics_state" where
  "statistics_count ld trade_price trade_quantity state =
     (let state1 = state\<lparr>ss_trade_count := ss_trade_count state + 1,
            ss_total_volume := ld (ss_total_volume state + trade_quantity),
            ss_total_price := ld (ss_total_price state + trade_price)\<rparr>
      in if ss_trade_count state1 = 1
         then state1\<lparr>ss_minimum_price := trade_price, ss_maximum_price := trade_price\<rparr>
         else (let state2 = (if trade_price < ss_minimum_price state1
                             then state1\<lparr>ss_minimum_price := trade_price\<rparr> else state1)
               in if trade_price > ss_maximum_price state2
                  then state2\<lparr>ss_maximum_price := trade_price\<rparr> else state2))"

definition statistics_side ::
  "rounding_mode \<Rightarrow> trade_aggressor_side \<Rightarrow> rat \<Rightarrow> statistics_state \<Rightarrow> statistics_state" where
  "statistics_side ld side trade_quantity state =
     (case side of
        Aggressor_buy \<Rightarrow> state\<lparr>ss_buy_volume := ld (ss_buy_volume state + trade_quantity)\<rparr>
      | Aggressor_sell \<Rightarrow> state\<lparr>ss_sell_volume := ld (ss_sell_volume state + trade_quantity)\<rparr>
      | Aggressor_unknown \<Rightarrow> state\<lparr>ss_unknown_volume := ld (ss_unknown_volume state + trade_quantity)\<rparr>)"

definition statistics_add_trade ::
  "rounding_mode \<Rightarrow> string \<Rightarrow> fp_value \<Rightarrow> fp_value \<Rightarrow> trade_aggressor_side \<Rightarrow> trade_statistics
   \<Rightarrow> (unit, trade_statistics) outcome" where
  "statistics_add_trade ld symbol price quantity side st =
     (case validate_fp_trade symbol price quantity of
        Inl err \<Rightarrow> (Inl err, st)
      | Inr _ \<Rightarrow>
          (let state = (case st_symbols st symbol of None \<Rightarrow> empty_statistics_state | Some s \<Rightarrow> s)
           in if ss_trade_count state = SIZE_MAX
              then (Inl (Overflow_error ''Trade count overflow''), st\<lparr>st_symbols := (st_symbols st)(symbol \<mapsto> state)\<rparr>)
              else (Inr (), st\<lparr>st_symbols := (st_symbols st)(symbol \<mapsto>
                      statistics_side ld side (fp_rat quantity)
                        (statistics_count ld (fp_rat price) (fp_rat quantity) state))\<rparr>)))"

definition get_statistics :: "rounding_mode \<Rightarrow> trade_statistics \<Rightarrow> string \<Rightarrow> trade_statistics_snapshot option" where
  "get_statistics ld st symbol =
     (case st_symbols st symbol of
        None \<Rightarrow> None
      | Some state \<Rightarrow>
          if ss_trade_count state = 0 then None
          else Some \<lparr>sn_trade_count = ss_trade_count state, sn_total_volume = ss_total_volume state,
            sn_average_trade_price = ld (ss_total_price state / ld (of_nat (ss_trade_count state))),
            sn_minimum_trade_price = ss_minimum_price state, sn_maximum_trade_price = ss_maximum_price state,
            sn_average_trade_size = ld (ss_total_volume state / ld (of_nat (ss_trade_count state))),
            sn_buy_volume = ss_buy_volume state, sn_sell_volume = ss_sell_volume state,
            sn_unknown_volume = ss_unknown_volume state\<rparr>)"

definition statistics_trade_count :: "trade_statistics \<Rightarrow> string \<Rightarrow> nat" where
  "statistics_trade_count st symbol = (case st_symbols st symbol of None \<Rightarrow> 0 | Some state \<Rightarrow> ss_trade_count state)"

definition statistics_clear_symbol :: "string \<Rightarrow> trade_statistics \<Rightarrow> trade_statistics" where
  "statistics_clear_symbol symbol st = st\<lparr>st_symbols := (st_symbols st)(symbol := None)\<rparr>"

definition statistics_clear :: "trade_statistics \<Rightarrow> trade_statistics" where
  "statistics_clear st = st\<lparr>st_symbols := Map.empty\<rparr>"

subsection \<open>The handler\<close>

text \<open>
  \<open>before_apply\<close> is the optional callback: for each of its calls from now on, whether it returns or what
  it throws. An absent callback never throws.
\<close>

record analytics_handler =
  ah_vwap :: rolling_vwap
  ah_statistics :: trade_statistics
  ah_before_apply :: "nat \<Rightarrow> cpp_error option"

definition handler_apply_trade ::
  "rounding_mode \<Rightarrow> rounding_mode \<Rightarrow> string \<Rightarrow> trade \<Rightarrow> analytics_handler \<Rightarrow> (unit, analytics_handler) outcome" where
  "handler_apply_trade ld dbl symbol t ah =
     (if tr_price_ticks t \<le> 0 \<or> tr_quantity t \<le> 0
      then (Inl (Invalid_argument ''Execution trade must have positive price and quantity''), ah)
      else (let price = Finite (dbl (of_int (tr_price_ticks t)));
                quantity = Finite (dbl (of_int (tr_quantity t)));
                side = (if tr_aggressor_side t = Buy then Aggressor_buy else Aggressor_sell)
            in case vwap_add_trade ld symbol price quantity (ah_vwap ah) of
                 (Inl err, rv) \<Rightarrow> (Inl err, ah\<lparr>ah_vwap := rv\<rparr>)
               | (Inr _, rv) \<Rightarrow>
                   (case statistics_add_trade ld symbol price quantity side (ah_statistics ah) of
                      (r, st) \<Rightarrow> (r, ah\<lparr>ah_vwap := rv, ah_statistics := st\<rparr>))))"

fun handler_apply_trades ::
  "rounding_mode \<Rightarrow> rounding_mode \<Rightarrow> string \<Rightarrow> trade list \<Rightarrow> analytics_handler \<Rightarrow> (unit, analytics_handler) outcome" where
  "handler_apply_trades ld dbl symbol [] ah = (Inr (), ah)"
| "handler_apply_trades ld dbl symbol (t # ts) ah =
     seq (handler_apply_trade ld dbl symbol t ah) (\<lambda>_ ah1. handler_apply_trades ld dbl symbol ts ah1)"

definition handler_apply_execution ::
  "rounding_mode \<Rightarrow> rounding_mode \<Rightarrow> string \<Rightarrow> execution_result \<Rightarrow> analytics_handler
   \<Rightarrow> (unit, analytics_handler) outcome" where
  "handler_apply_execution ld dbl symbol res ah =
     (if symbol = [] then (Inl (Invalid_argument ''Execution symbol must not be empty''), ah)
      else let ah1 = ah\<lparr>ah_before_apply := (\<lambda>n. ah_before_apply ah (n + 1))\<rparr>
           in case ah_before_apply ah 0 of
                Some err \<Rightarrow> (Inl err, ah1)
              | None \<Rightarrow> handler_apply_trades ld dbl symbol (er_trades res) ah1)"

subsection \<open>The window of the rolling average\<close>

definition last_n :: "nat \<Rightarrow> 'a list \<Rightarrow> 'a list" where
  "last_n w xs = drop (length xs - w) xs"

lemma last_n_simps:
  "length (last_n w xs) = min w (length xs)"
  "length xs < w \<Longrightarrow> last_n w (xs @ [x]) = last_n w xs @ [x]"
  "0 < w \<Longrightarrow> w \<le> length xs \<Longrightarrow> last_n w (xs @ [x]) = tl (last_n w xs) @ [x]"
  by (auto simp: last_n_def Suc_diff_le drop_Suc tl_drop)

lemma last_n_subset: "set (last_n w xs) \<subseteq> set xs"
  by (simp add: last_n_def set_drop_subset)

definition notional :: "'a::comm_ring_1 \<times> 'a \<Rightarrow> 'a" where
  "notional t = fst t * snd t"

definition sum_notionals :: "('a::comm_ring_1 \<times> 'a) list \<Rightarrow> 'a" where
  "sum_notionals ts = sum_list (map notional ts)"

definition sum_volumes :: "('a::comm_ring_1 \<times> 'a) list \<Rightarrow> 'a" where
  "sum_volumes ts = sum_list (map snd ts)"

text \<open>
  Doubles are integers times powers of two; the prices of a finite list of trades are integers times a
  common power \<open>2 powi e\<close>, the quantities times a common \<open>2 powi f\<close>.
\<close>

definition scaled :: "int \<Rightarrow> int \<Rightarrow> int \<times> int \<Rightarrow> rat \<times> rat" where
  "scaled e f t = (of_int (fst t) * 2 powi e, of_int (snd t) * 2 powi f)"

lemma scaled_simps [simp]:
  "fst (scaled e f t) = of_int (fst t) * 2 powi e" "snd (scaled e f t) = of_int (snd t) * 2 powi f"
  "notional (scaled e f t) = of_int (notional t) * 2 powi (e + f)"
  by (simp_all add: scaled_def notional_def power_int_add)

lemma of_int_scale_add: "of_int a * (g::rat) + of_int b * g = of_int (a + b) * g" "of_int a * (g::rat) - of_int b * g = of_int (a - b) * g"
  by (simp_all add: algebra_simps)

lemma sums_scaled:
  "sum_notionals (map (scaled e f) ts) = of_int (sum_notionals ts) * 2 powi (e + f)"
  "sum_volumes (map (scaled e f) ts) = of_int (sum_volumes ts) * 2 powi f"
  by (induction ts) (simp_all add: sum_notionals_def sum_volumes_def algebra_simps)

lemma last_n_map: "last_n w (map g xs) = map g (last_n w xs)"
  by (simp add: last_n_def drop_map)

text \<open>The state of a symbol after the trades \<open>xs\<close> (price and quantity): the window and its exact sums.\<close>

definition vwap_shows :: "nat \<Rightarrow> (rat \<times> rat) list \<Rightarrow> vwap_state \<Rightarrow> bool" where
  "vwap_shows w xs state \<longleftrightarrow> vs_trades state = last_n w xs
     \<and> vs_total_notional state = sum_notionals (last_n w xs) \<and> vs_total_volume state = sum_volumes (last_n w xs)"

text \<open>Trades small enough that the sums of a window stay exact.\<close>

definition window_exact :: "int \<Rightarrow> nat \<Rightarrow> int \<times> int \<Rightarrow> bool" where
  "window_exact bound w t \<longleftrightarrow> 0 < fst t \<and> 0 < snd t \<and> int w * notional t \<le> bound"

lemma notional_ge: "window_exact bound w t \<Longrightarrow> 0 < notional t \<and> fst t \<le> notional t \<and> snd t \<le> notional t"
  by (auto simp: window_exact_def notional_def mult_le_cancel_left1 mult_le_cancel_right1)

lemma window_sum_le:
  assumes "\<forall>x \<in> set ys. int w * f x \<le> B" "length ys \<le> w" "0 < w" "0 \<le> B"
  shows "sum_list (map f ys) \<le> B"
proof -
  have "int w * sum_list (map f ys) \<le> int (length ys) * B"
    using assms(1) by (induction ys) (auto simp: algebra_simps)
  also have "\<dots> \<le> int w * B" using assms(2,4) by (intro mult_right_mono) simp_all
  finally show ?thesis using assms(3) by simp
qed

lemma window_sums:
  assumes "\<forall>t \<in> set ys. window_exact B w t" "length ys \<le> w" "0 < w" "0 \<le> B"
  shows "0 \<le> sum_notionals ys" "sum_notionals ys \<le> B" "0 \<le> sum_volumes ys" "sum_volumes ys \<le> B"
proof -
  have le: "\<forall>t \<in> set ys. int w * notional t \<le> B" "\<forall>t \<in> set ys. int w * snd t \<le> B"
    using assms(1) notional_ge by (auto simp: window_exact_def) (metis mult_left_mono of_nat_0_le_iff order_trans assms(1) fst_conv
      notional_ge snd_conv)
  show "sum_notionals ys \<le> B" "sum_volumes ys \<le> B"
    unfolding sum_notionals_def sum_volumes_def by (rule window_sum_le; use le assms in simp)+
  show "0 \<le> sum_notionals ys" "0 \<le> sum_volumes ys"
    unfolding sum_notionals_def sum_volumes_def
    using assms(1) notional_ge by (intro sum_list_nonneg; fastforce simp: window_exact_def)+
qed

lemma window_notional_le:
  assumes "window_exact B w t" "0 < w"
  shows "\<bar>notional t\<bar> \<le> B"
proof -
  have nn: "0 \<le> notional t" using notional_ge [OF assms(1)] by simp
  then have "1 * notional t \<le> int w * notional t" using assms(2) by (intro mult_right_mono) simp_all
  then show ?thesis using nn assms(1) by (simp add: window_exact_def)
qed

text \<open>The window before a trade is added: the oldest one left when it was full.\<close>

definition window_rest :: "nat \<Rightarrow> 'a list \<Rightarrow> 'a list" where
  "window_rest w xs = (if length xs < w then last_n w xs else tl (last_n w xs))"

lemma window_rest_snoc: "0 < w \<Longrightarrow> last_n w (xs @ [t]) = window_rest w xs @ [t]"
  by (simp add: window_rest_def last_n_simps(2,3) not_less)

lemma window_rest_length: "0 < w \<Longrightarrow> length (window_rest w xs @ [t]) \<le> w"
  using last_n_simps(1) [of w xs] by (auto simp: window_rest_def)

lemma window_rest_subset: "set (window_rest w xs) \<subseteq> set xs"
proof -
  have "set (tl (last_n w xs)) \<subseteq> set (last_n w xs)" by (cases "last_n w xs") auto
  then show ?thesis using last_n_subset [of w xs] by (auto simp: window_rest_def)
qed

lemma window_rest_map: "window_rest w (map g xs) = map g (window_rest w xs)"
  by (simp add: window_rest_def last_n_map map_tl)

context binary_format
begin

text \<open>While the integers fit the significand, no operation on the totals rounds.\<close>

lemma notional_exact:
  assumes "window_exact (2 ^ p) w t" "0 < w" "{e, f, e + f} \<subseteq> {emin..emax}"
  shows "rnd (of_int (fst t) * 2 powi e * (of_int (snd t) * 2 powi f)) = of_int (notional t) * 2 powi (e + f)"
proof -
  have "rnd (of_int (notional t) * 2 powi (e + f)) = of_int (notional t) * 2 powi (e + f)"
    using window_notional_le [OF assms(1,2)] assms(3) by (intro fmt_exact) simp_all
  moreover have "of_int (fst t) * 2 powi e * (of_int (snd t) * 2 powi f) = (of_int (notional t) * 2 powi (e + f) :: rat)"
    by (simp add: notional_def power_int_add)
  ultimately show ?thesis by simp
qed

lemma vwap_drop_exact:
  assumes "vwap_shows w (map (scaled e f) xs) st" "0 < w" "\<forall>t \<in> set xs. window_exact (2 ^ p) w t"
    and ef: "{e, f, e + f} \<subseteq> {emin..emax}"
  shows "vs_trades (vwap_drop_oldest rnd w st) = map (scaled e f) (window_rest w xs)"
    and "vs_total_notional (vwap_drop_oldest rnd w st) = of_int (sum_notionals (window_rest w xs)) * 2 powi (e + f)"
    and "vs_total_volume (vwap_drop_oldest rnd w st) = of_int (sum_volumes (window_rest w xs)) * 2 powi f"
proof -
  let ?l = "last_n w xs"
  have st: "vs_trades st = map (scaled e f) ?l" "vs_total_notional st = of_int (sum_notionals ?l) * 2 powi (e + f)"
    "vs_total_volume st = of_int (sum_volumes ?l) * 2 powi f"
    using assms(1) by (simp_all add: vwap_shows_def last_n_map sums_scaled)
  have "vs_trades (vwap_drop_oldest rnd w st) = map (scaled e f) (window_rest w xs)
    \<and> vs_total_notional (vwap_drop_oldest rnd w st) = of_int (sum_notionals (window_rest w xs)) * 2 powi (e + f)
    \<and> vs_total_volume (vwap_drop_oldest rnd w st) = of_int (sum_volumes (window_rest w xs)) * 2 powi f"
  proof (cases "length xs < w")
    case True
    then show ?thesis using st last_n_simps(1) [of w xs] by (simp add: vwap_drop_oldest_def window_rest_def)
  next
    case False
    then obtain u ys where l: "?l = u # ys" using assms(2) last_n_simps(1) [of w xs] by (cases ?l) auto
    have ys: "window_rest w xs = ys" using False l by (simp add: window_rest_def)
    have ex: "window_exact (2 ^ p) w u" "\<forall>t \<in> set ys. window_exact (2 ^ p) w t" "length ys \<le> w"
      using assms(3) last_n_subset [of w xs] l last_n_simps(1) [of w xs] by auto
    note s = window_sums [OF ex(2,3) assms(2)]
    note nt = notional_exact [OF ex(1) assms(2) ef]
    have "rnd (of_int (sum_notionals ys) * 2 powi (e + f)) = of_int (sum_notionals ys) * 2 powi (e + f)"
      "rnd (of_int (sum_volumes ys) * 2 powi f) = of_int (sum_volumes ys) * 2 powi f"
      using s ef by (intro fmt_exact; simp)+
    moreover have "length (vs_trades st) = w" using st(1) False last_n_simps(1) [of w xs] by simp
    moreover have "sum_notionals ?l - notional u = sum_notionals ys" "sum_volumes ?l - snd u = sum_volumes ys"
      by (simp_all add: l sum_notionals_def sum_volumes_def)
    ultimately show ?thesis
      using st nt unfolding ys by (simp add: vwap_drop_oldest_def Let_def l of_int_scale_add del: of_int_diff)
  qed
  then show "vs_trades (vwap_drop_oldest rnd w st) = map (scaled e f) (window_rest w xs)"
    "vs_total_notional (vwap_drop_oldest rnd w st) = of_int (sum_notionals (window_rest w xs)) * 2 powi (e + f)"
    "vs_total_volume (vwap_drop_oldest rnd w st) = of_int (sum_volumes (window_rest w xs)) * 2 powi f"
    by blast+
qed

lemma vwap_window_step:
  assumes "vwap_shows w (map (scaled e f) xs) st" "0 < w" "\<forall>t \<in> set (xs @ [t]). window_exact (2 ^ p) w t"
    and ef: "{e, f, e + f} \<subseteq> {emin..emax}"
  shows "vwap_shows w (map (scaled e f) (xs @ [t]))
    (vwap_push rnd (fst (scaled e f t)) (snd (scaled e f t)) (vwap_drop_oldest rnd w st))"
proof -
  let ?ys = "window_rest w xs"
  have ex: "\<forall>t \<in> set xs. window_exact (2 ^ p) w t" "window_exact (2 ^ p) w t" using assms(3) by simp_all
  have ys: "\<forall>t \<in> set (?ys @ [t]). window_exact (2 ^ p) w t" "length (?ys @ [t]) \<le> w"
    using ex window_rest_subset [of w xs] window_rest_length [OF assms(2)] by auto
  note s = window_sums [OF ys assms(2)] and drop = vwap_drop_exact [OF assms(1,2) ex(1) ef]
  have sums: "sum_notionals (?ys @ [t]) = sum_notionals ?ys + notional t" "sum_volumes (?ys @ [t]) = sum_volumes ?ys + snd t"
    by (simp_all add: sum_notionals_def sum_volumes_def)
  note notional_exact [OF ex(2) assms(2) ef]
  moreover have "rnd (of_int (sum_notionals ?ys + notional t) * 2 powi (e + f)) = of_int (sum_notionals ?ys + notional t) * 2 powi (e + f)"
    "rnd (of_int (sum_volumes ?ys + snd t) * 2 powi f) = of_int (sum_volumes ?ys + snd t) * 2 powi f"
    using s ef unfolding sums by (intro fmt_exact; simp)+
  moreover have "scaled e f t = (of_int (fst t) * 2 powi e, of_int (snd t) * 2 powi f)" by (simp add: scaled_def)
  ultimately show ?thesis
    unfolding vwap_shows_def last_n_map window_rest_snoc [OF assms(2)] sums_scaled sums
    using drop by (simp add: vwap_push_def of_int_scale_add del: of_int_add)
qed

end

text \<open>A sequence of trades of one symbol, as price and quantity.\<close>

fun vwap_add_trades :: "rounding_mode \<Rightarrow> string \<Rightarrow> (rat \<times> rat) list \<Rightarrow> rolling_vwap \<Rightarrow> rolling_vwap" where
  "vwap_add_trades ld symbol [] rv = rv"
| "vwap_add_trades ld symbol (t # ts) rv =
     vwap_add_trades ld symbol ts (snd (vwap_add_trade ld symbol (Finite (fst t)) (Finite (snd t)) rv))"

lemma vwap_add_trades_snoc:
  "vwap_add_trades ld symbol (xs @ [t]) rv =
     snd (vwap_add_trade ld symbol (Finite (fst t)) (Finite (snd t)) (vwap_add_trades ld symbol xs rv))"
  by (induction xs arbitrary: rv) simp_all

lemma vwap_adds_window:
  assumes "binary_format ld p emin emax" "0 < w" "symbol \<noteq> []" "\<forall>t \<in> set ms. window_exact (2 ^ p) w t"
    and ef: "{e, f, e + f} \<subseteq> {emin..emax}"
  shows "rv_window_size (vwap_add_trades ld symbol (map (scaled e f) ms) \<lparr>rv_window_size = w, rv_symbols = Map.empty\<rparr>) = w
    \<and> vwap_shows w (map (scaled e f) ms)
        (case rv_symbols (vwap_add_trades ld symbol (map (scaled e f) ms) \<lparr>rv_window_size = w, rv_symbols = Map.empty\<rparr>) symbol of
          None \<Rightarrow> empty_vwap_state | Some st \<Rightarrow> st)
    \<and> (ms \<noteq> [] \<longrightarrow> rv_symbols (vwap_add_trades ld symbol (map (scaled e f) ms) \<lparr>rv_window_size = w, rv_symbols = Map.empty\<rparr>) symbol \<noteq> None)"
  using assms(4)
proof (induction ms rule: rev_induct)
  case Nil
  then show ?case by (simp add: vwap_shows_def last_n_def sum_notionals_def sum_volumes_def empty_vwap_state_def)
next
  case (snoc t ms)
  let ?rv = "vwap_add_trades ld symbol (map (scaled e f) ms) \<lparr>rv_window_size = w, rv_symbols = Map.empty\<rparr>"
  have IH: "rv_window_size ?rv = w" "vwap_shows w (map (scaled e f) ms) (case rv_symbols ?rv symbol of None \<Rightarrow> empty_vwap_state | Some st \<Rightarrow> st)"
    using snoc by simp_all
  have "0 < fst t" "0 < snd t" using snoc.prems by (simp_all add: window_exact_def)
  then have "validate_fp_trade symbol (Finite (fst (scaled e f t))) (Finite (snd (scaled e f t))) = Inr ()"
    using assms(3) by (simp add: validate_fp_trade_def finite_positive_def)
  then show ?case
    using binary_format.vwap_window_step [OF assms(1) IH(2) assms(2) snoc.prems ef] IH(1)
    by (simp add: vwap_add_trades_snoc vwap_add_trade_def fp_rat_def)
qed

lemma volume_pos: "\<forall>t \<in> set ys. 0 < (snd t :: rat) \<Longrightarrow> ys \<noteq> [] \<Longrightarrow> 0 < sum_volumes ys"
proof (induction ys)
  case (Cons t ys)
  then show ?case by (cases "ys = []") (auto simp: sum_volumes_def intro: add_pos_pos)
qed simp

lemma notionals_between:
  assumes "\<forall>t \<in> set ys. 0 < (snd t :: rat) \<and> lo \<le> fst t \<and> fst t \<le> hi"
  shows "lo * sum_volumes ys \<le> sum_notionals ys" "sum_notionals ys \<le> hi * sum_volumes ys"
  using assms
  by (induction ys) (auto simp: sum_volumes_def sum_notionals_def notional_def distrib_left
      intro!: add_mono mult_right_mono)

subsection \<open>What the statistics show\<close>

type_synonym 'a sided_trade = "'a \<times> 'a \<times> trade_aggressor_side"

abbreviation st_price :: "'a sided_trade \<Rightarrow> 'a" where "st_price t \<equiv> fst t"
abbreviation st_volume :: "'a sided_trade \<Rightarrow> 'a" where "st_volume t \<equiv> fst (snd t)"
abbreviation st_side :: "'a sided_trade \<Rightarrow> trade_aggressor_side" where "st_side t \<equiv> snd (snd t)"

definition side_volume :: "trade_aggressor_side \<Rightarrow> 'a::comm_monoid_add sided_trade list \<Rightarrow> 'a" where
  "side_volume side ts = sum_list (map st_volume (filter (\<lambda>t. st_side t = side) ts))"

fun statistics_add_trades :: "rounding_mode \<Rightarrow> string \<Rightarrow> rat sided_trade list \<Rightarrow> trade_statistics \<Rightarrow> trade_statistics" where
  "statistics_add_trades ld symbol [] st = st"
| "statistics_add_trades ld symbol (t # ts) st =
     statistics_add_trades ld symbol ts (snd (statistics_add_trade ld symbol (Finite (st_price t))
       (Finite (st_volume t)) (st_side t) st))"

lemma statistics_add_trades_snoc:
  "statistics_add_trades ld symbol (xs @ [t]) st =
     snd (statistics_add_trade ld symbol (Finite (st_price t)) (Finite (st_volume t)) (st_side t)
       (statistics_add_trades ld symbol xs st))"
  by (induction xs arbitrary: st) simp_all

text \<open>The count and the extreme prices, for any rounding; the sums, when they are exact.\<close>

definition statistics_seen :: "rat sided_trade list \<Rightarrow> statistics_state \<Rightarrow> bool" where
  "statistics_seen ts s \<longleftrightarrow> ss_trade_count s = length ts
     \<and> (ts \<noteq> [] \<longrightarrow> ss_minimum_price s = Min (st_price ` set ts) \<and> ss_maximum_price s = Max (st_price ` set ts))"

definition statistics_sums :: "rat sided_trade list \<Rightarrow> statistics_state \<Rightarrow> bool" where
  "statistics_sums ts s \<longleftrightarrow> ss_total_volume s = sum_list (map st_volume ts) \<and> ss_total_price s = sum_list (map st_price ts)
     \<and> ss_buy_volume s = side_volume Aggressor_buy ts \<and> ss_sell_volume s = side_volume Aggressor_sell ts
     \<and> ss_unknown_volume s = side_volume Aggressor_unknown ts"

lemma side_volume_snoc:
  "side_volume side (ts @ [t]) = side_volume side ts + (if st_side t = side then st_volume t else 0)"
  by (simp add: side_volume_def)

lemma side_volume_le:
  assumes "\<forall>t \<in> set ts. 0 < (st_volume t :: int)"
  shows "0 \<le> side_volume side ts" "side_volume side ts \<le> sum_list (map st_volume ts)"
  using assms by (induction ts) (auto simp: side_volume_def)

lemma side_volumes_total:
  "side_volume Aggressor_buy ts + side_volume Aggressor_sell ts + side_volume Aggressor_unknown ts
    = (sum_list (map st_volume ts) :: 'a::comm_monoid_add)"
proof (induction ts)
  case (Cons t ts)
  then show ?case by (cases "st_side t") (simp_all add: side_volume_def ac_simps)
qed (simp add: side_volume_def)

definition scaled_trade :: "int \<Rightarrow> int \<Rightarrow> int sided_trade \<Rightarrow> rat sided_trade" where
  "scaled_trade e f t = (of_int (st_price t) * 2 powi e, of_int (st_volume t) * 2 powi f, st_side t)"

lemma scaled_trade_simps [simp]:
  "st_price (scaled_trade e f t) = of_int (st_price t) * 2 powi e"
  "st_volume (scaled_trade e f t) = of_int (st_volume t) * 2 powi f" "st_side (scaled_trade e f t) = st_side t"
  by (simp_all add: scaled_trade_def)

lemma scaled_trade_sums:
  "sum_list (map st_volume (map (scaled_trade e f) ms)) = of_int (sum_list (map st_volume ms)) * 2 powi f"
  "sum_list (map st_price (map (scaled_trade e f) ms)) = of_int (sum_list (map st_price ms)) * 2 powi e"
  "side_volume side (map (scaled_trade e f) ms) = of_int (side_volume side ms) * 2 powi f"
  by (induction ms) (simp_all add: side_volume_def algebra_simps)

definition statistics_exact :: "int \<Rightarrow> int sided_trade list \<Rightarrow> bool" where
  "statistics_exact bound ts \<longleftrightarrow> (\<forall>t \<in> set ts. 0 < st_price t \<and> 0 < st_volume t)
     \<and> sum_list (map st_price ts) \<le> bound \<and> sum_list (map st_volume ts) \<le> bound"

lemma statistics_exactD:
  assumes "statistics_exact bound (ts @ [t])"
  shows "statistics_exact bound ts" "0 < st_price t" "0 < st_volume t"
  using assms by (auto simp: statistics_exact_def)

lemma statistics_seen_step:
  assumes "statistics_seen ts s"
  shows "statistics_seen (ts @ [t]) (statistics_side ld side v (statistics_count ld (st_price t) q s))"
proof -
  let ?c = "statistics_count ld (st_price t) q s"
  have side: "ss_trade_count (statistics_side ld side v c) = ss_trade_count c"
    "ss_minimum_price (statistics_side ld side v c) = ss_minimum_price c"
    "ss_maximum_price (statistics_side ld side v c) = ss_maximum_price c" for c
    by (cases side; simp add: statistics_side_def)+
  have "ss_minimum_price ?c = Min (st_price ` set (ts @ [t])) \<and> ss_maximum_price ?c = Max (st_price ` set (ts @ [t]))"
  proof (cases "ts = []")
    case True
    then show ?thesis using assms by (simp add: statistics_seen_def statistics_count_def)
  next
    case False
    define lo hi where lh: "lo = Min (st_price ` set ts)" "hi = Max (st_price ` set ts)"
    have new: "Min (st_price ` set (ts @ [t])) = min (st_price t) lo" "Max (st_price ` set (ts @ [t])) = max (st_price t) hi"
      using False unfolding lh by simp_all
    have old: "ss_trade_count s = length ts" "ss_minimum_price s = lo" "ss_maximum_price s = hi"
      using assms False by (simp_all add: statistics_seen_def lh)
    show ?thesis unfolding new using False old by (simp add: statistics_count_def Let_def min_def max_def)
  qed
  moreover have "ss_trade_count ?c = length (ts @ [t])"
    using assms by (simp add: statistics_seen_def statistics_count_def Let_def)
  ultimately show ?thesis by (simp add: statistics_seen_def side)
qed

context binary_format
begin

lemma statistics_sums_step:
  assumes "statistics_sums (map (scaled_trade e f) ms) s" "statistics_exact (2 ^ p) (ms @ [m])" "{e, f} \<subseteq> {emin..emax}"
  shows "statistics_sums (map (scaled_trade e f) (ms @ [m])) (statistics_side rnd (st_side m) (of_int (st_volume m) * 2 powi f)
    (statistics_count rnd (of_int (st_price m) * 2 powi e) (of_int (st_volume m) * 2 powi f) s))"
proof -
  note ex = statistics_exactD [OF assms(2)]
  let ?V = "sum_list (map st_volume ms)" and ?P = "sum_list (map st_price ms)"
  have pos: "\<forall>x \<in> set ms. 0 < st_volume x" using ex(1) by (simp add: statistics_exact_def)
  have nn: "0 \<le> ?V" "0 \<le> ?P" using ex(1) by (induction ms) (auto simp: statistics_exact_def)
  have old: "ss_total_volume s = of_int ?V * 2 powi f" "ss_total_price s = of_int ?P * 2 powi e"
    "ss_buy_volume s = of_int (side_volume Aggressor_buy ms) * 2 powi f"
    "ss_sell_volume s = of_int (side_volume Aggressor_sell ms) * 2 powi f"
    "ss_unknown_volume s = of_int (side_volume Aggressor_unknown ms) * 2 powi f"
    using assms(1) unfolding statistics_sums_def scaled_trade_sums by blast+
  have r: "rnd (of_int (?V + st_volume m) * 2 powi f) = of_int (?V + st_volume m) * 2 powi f"
    "rnd (of_int (?P + st_price m) * 2 powi e) = of_int (?P + st_price m) * 2 powi e"
    using assms(2,3) ex(2,3) nn by (intro fmt_exact; simp add: statistics_exact_def)+
  have sv: "rnd (of_int (side_volume side ms + st_volume m) * 2 powi f) = of_int (side_volume side ms + st_volume m) * 2 powi f" for side
    using side_volume_le [OF pos, of side] assms(2,3) ex(3) by (intro fmt_exact) (simp_all add: statistics_exact_def)
  let ?c = "statistics_count rnd (of_int (st_price m) * 2 powi e) (of_int (st_volume m) * 2 powi f) s"
  have c: "ss_total_volume ?c = of_int (?V + st_volume m) * 2 powi f" "ss_total_price ?c = of_int (?P + st_price m) * 2 powi e"
    "ss_buy_volume ?c = ss_buy_volume s" "ss_sell_volume ?c = ss_sell_volume s" "ss_unknown_volume ?c = ss_unknown_volume s"
    using old(1,2) r by (simp_all add: statistics_count_def Let_def of_int_scale_add del: of_int_add)
  show ?thesis
    unfolding statistics_sums_def scaled_trade_sums
    using c old(3-5) sv by (cases "st_side m")
      (simp_all add: statistics_side_def side_volume_snoc of_int_scale_add del: of_int_add)
qed

end

lemma statistics_adds_show:
  fixes ld :: rounding_mode
  assumes "symbol \<noteq> []" "\<forall>t \<in> set ts. 0 < st_price t \<and> 0 < st_volume t" "length ts \<le> SIZE_MAX"
  defines "state \<equiv> (\<lambda>ts. case st_symbols (statistics_add_trades ld symbol ts \<lparr>st_symbols = Map.empty\<rparr>) symbol of
        None \<Rightarrow> empty_statistics_state | Some s \<Rightarrow> s)"
  shows "statistics_seen ts (state ts)
    \<and> (ts \<noteq> [] \<longrightarrow> st_symbols (statistics_add_trades ld symbol ts \<lparr>st_symbols = Map.empty\<rparr>) symbol \<noteq> None)
    \<and> (\<forall>ms. binary_format ld p emin emax \<longrightarrow> {e, f} \<subseteq> {emin..emax} \<longrightarrow> ts = map (scaled_trade e f) ms
         \<longrightarrow> statistics_exact (2 ^ p) ms \<longrightarrow> statistics_sums ts (state ts))"
  using assms(2,3)
proof (induction ts rule: rev_induct)
  case Nil
  then show ?case
    by (simp add: state_def statistics_seen_def statistics_sums_def side_volume_def empty_statistics_state_def)
next
  case (snoc t ts)
  let ?st = "statistics_add_trades ld symbol ts \<lparr>st_symbols = Map.empty\<rparr>"
  have IH: "statistics_seen ts (state ts)"
    "\<And>ms. binary_format ld p emin emax \<Longrightarrow> {e, f} \<subseteq> {emin..emax} \<Longrightarrow> ts = map (scaled_trade e f) ms
       \<Longrightarrow> statistics_exact (2 ^ p) ms \<Longrightarrow> statistics_sums ts (state ts)"
    using snoc by auto
  then have "ss_trade_count (state ts) \<noteq> SIZE_MAX" using snoc.prems(2) by (auto simp: statistics_seen_def)
  moreover have "validate_fp_trade symbol (Finite (st_price t)) (Finite (st_volume t)) = Inr ()"
    using assms(1) snoc.prems(1) by (simp add: validate_fp_trade_def finite_positive_def)
  ultimately have new: "state (ts @ [t]) = statistics_side ld (st_side t) (st_volume t) (statistics_count ld (st_price t) (st_volume t) (state ts))"
    "st_symbols (statistics_add_trades ld symbol (ts @ [t]) \<lparr>st_symbols = Map.empty\<rparr>) symbol \<noteq> None"
    by (simp_all add: state_def statistics_add_trades_snoc statistics_add_trade_def fp_rat_def Let_def)
  have "statistics_sums (ts @ [t]) (state (ts @ [t]))"
    if f: "binary_format ld p emin emax" "{e, f} \<subseteq> {emin..emax}" and eq: "ts @ [t] = map (scaled_trade e f) ns"
      and ex: "statistics_exact (2 ^ p) ns" for ns
  proof -
    obtain ms m where ns: "ns = ms @ [m]" "ts = map (scaled_trade e f) ms" "t = scaled_trade e f m"
      using eq by (cases ns rule: rev_cases) auto
    note ex' = ex [unfolded ns(1)]
    from binary_format.statistics_sums_step [OF f(1) _ ex' f(2)] IH(2) [OF f ns(2) statistics_exactD(1) [OF ex']]
    show ?thesis unfolding new(1) by (simp add: ns(2,3))
  qed
  then show ?case using statistics_seen_step [OF IH(1)] new by auto
qed

lemma mean_between:
  assumes "(ts :: rat sided_trade list) \<noteq> []"
  shows "Min (st_price ` set ts) \<le> sum_list (map st_price ts) / of_nat (length ts)"
    "sum_list (map st_price ts) / of_nat (length ts) \<le> Max (st_price ` set ts)"
proof -
  have "c * of_nat (length ys) \<le> sum_list (map st_price ys)" if "\<forall>t \<in> set ys. c \<le> st_price t" for c and ys :: "rat sided_trade list"
    using that by (induction ys) (auto simp: algebra_simps)
  moreover have "sum_list (map st_price ys) \<le> c * of_nat (length ys)" if "\<forall>t \<in> set ys. st_price t \<le> c" for c and ys :: "rat sided_trade list"
    using that by (induction ys) (auto simp: algebra_simps)
  ultimately show "Min (st_price ` set ts) \<le> sum_list (map st_price ts) / of_nat (length ts)"
    "sum_list (map st_price ts) / of_nat (length ts) \<le> Max (st_price ` set ts)"
    using assms by (simp_all add: pos_le_divide_eq pos_divide_le_eq)
qed

text \<open>The number of trades and the extreme prices are exact, so the average lies between the latter.\<close>

lemma statistics_average:
  assumes f: "binary_format ld p emin emax" "{e, f} \<subseteq> {emin..emax}" and ts: "ts = map (scaled_trade e f) ms"
    and ex: "statistics_exact (2 ^ p) ms" and ne: "ts \<noteq> []"
  shows "ld (of_nat (length ts)) = of_nat (length ts)
    \<and> Min (st_price ` set ts) \<le> ld (sum_list (map st_price ts) / of_nat (length ts))
    \<and> ld (sum_list (map st_price ts) / of_nat (length ts)) \<le> Max (st_price ` set ts)"
proof -
  have pos: "\<forall>t \<in> set ms. 0 < st_price t" using ex by (simp add: statistics_exact_def)
  have "int (length ms) \<le> sum_list (map st_price ms)" using pos by (induction ms) auto
  also have "\<dots> \<le> 2 ^ p" using ex by (simp add: statistics_exact_def)
  finally have "\<bar>int (length ms)\<bar> \<le> 2 ^ p" by simp
  from rounding.rnd_exact [OF format_rounding [OF f(1)] this]
  have n: "ld (of_nat (length ts)) = of_nat (length ts)" using ts by simp
  have price: "ld x = x" if "x \<in> st_price ` set ts" for x
  proof -
    obtain m where m: "m \<in> set ms" "x = of_int (st_price m) * 2 powi e" using \<open>x \<in> st_price ` set ts\<close> ts by auto
    have "st_price m \<le> sum_list (map st_price ms)" using m(1) pos by (intro member_le_sum_list) auto
    then show ?thesis
      unfolding m(2) using ex m(1) pos f(2) by (intro binary_format.fmt_exact [OF f(1)]) (auto simp: statistics_exact_def)
  qed
  have "Min (st_price ` set ts) \<in> st_price ` set ts" "Max (st_price ` set ts) \<in> st_price ` set ts"
    using ne by (auto intro!: Min_in Max_in)
  with mean_between [OF ne, THEN binary_format.fmt_mono [OF f(1)]] price n show ?thesis by auto
qed

subsection \<open>Properties\<close>

text \<open>C29 After any number of trades of a symbol at positive prices and quantities the window holds the last
  \<open>w\<close> of them, and the rolling VWAP is the quotient of exactly their notional and their volume, rounded
  once to \<open>long double\<close> and once to \<open>double\<close>; it lies between the smallest and the largest price of the
  window. The trades are doubles: the prices are integers times a common power of two, the
  quantities integers times another one. It is assumed that the integers are so small that \<open>w\<close> times the
  notional of each trade fits the significand of \<open>long double\<close>, of any binary format with a monotone
  rounding; without that the running totals do lose trades (\<open>vwap_loses_trades\<close>).\<close>
theorem vwap_is_window_average:
  assumes "binary_format ld p emin emax" "mono dbl" "0 < w" "symbol \<noteq> []" "xs \<noteq> []"
    and "xs = map (scaled e f) ms" "\<forall>t \<in> set ms. window_exact (2 ^ p) w t" "{e, f, e + f} \<subseteq> {emin..emax}"
    and "\<forall>t \<in> set xs. dbl (fst t) = fst t"
    and "rv = vwap_add_trades ld symbol xs \<lparr>rv_window_size = w, rv_symbols = Map.empty\<rparr>"
    and "v = dbl (ld (sum_notionals (last_n w xs) / sum_volumes (last_n w xs)))"
  shows "get_vwap ld dbl rv symbol = Some v \<and> vwap_trade_count rv symbol = min w (length xs)
    \<and> Min (fst ` set (last_n w xs)) \<le> v \<and> v \<le> Max (fst ` set (last_n w xs))"
proof -
  let ?ys = "last_n w xs"
  have ms: "ms \<noteq> []" using assms(5,6) by simp
  from vwap_adds_window [OF assms(1,3,4,7,8), folded assms(6,10)] ms obtain st where
    st: "rv_symbols rv symbol = Some st" "vwap_shows w xs st" by auto
  have len: "length ?ys = min w (length xs)" by (simp add: last_n_simps(1))
  then have ne: "?ys \<noteq> []" using assms(3,5) by (metis length_greater_0_conv min_less_iff_conj)
  have "\<forall>t \<in> set xs. 0 < snd t" unfolding assms(6) using assms(7) by (simp add: window_exact_def)
  then have pos: "\<forall>t \<in> set ?ys. 0 < snd t" using last_n_subset [of w xs] by blast
  have vol: "0 < sum_volumes ?ys" by (rule volume_pos [OF pos ne])
  have g: "get_vwap ld dbl rv symbol = Some v" "vwap_trade_count rv symbol = min w (length xs)"
    using st ne vol len by (simp_all add: get_vwap_def vwap_trade_count_def vwap_shows_def assms(11))
  have ex: "ld x = x \<and> dbl x = x" if "x \<in> fst ` set ?ys" for x
  proof -
    have x: "x \<in> fst ` set xs" using \<open>x \<in> fst ` set ?ys\<close> last_n_subset [of w xs] by blast
    then obtain t where t: "t \<in> set ms" "x = of_int (fst t) * 2 powi e" unfolding assms(6) by auto
    have "window_exact (2 ^ p) w t" using t(1) assms(7) by blast
    note this window_notional_le [OF this assms(3)] notional_ge [OF this]
    then have "ld x = x" unfolding t(2) using assms(8) by (intro binary_format.fmt_exact [OF assms(1)]) (auto simp: window_exact_def)
    then show ?thesis using x assms(9) by blast
  qed
  let ?lo = "Min (fst ` set ?ys)" and ?hi = "Max (fst ` set ?ys)"
  have in_set: "?lo \<in> fst ` set ?ys" "?hi \<in> fst ` set ?ys" using ne by (auto intro!: Min_in Max_in)
  have "?lo * sum_volumes ?ys \<le> sum_notionals ?ys" "sum_notionals ?ys \<le> ?hi * sum_volumes ?ys"
    using notionals_between [of ?ys ?lo ?hi] pos by auto
  then have "?lo \<le> sum_notionals ?ys / sum_volumes ?ys" "sum_notionals ?ys / sum_volumes ?ys \<le> ?hi"
    using vol by (simp_all add: pos_le_divide_eq pos_divide_le_eq)
  note this [THEN binary_format.fmt_mono [OF assms(1)]] 
  from this [THEN monoD [OF assms(2)]] ex [OF in_set(1)] ex [OF in_set(2)] g show ?thesis by (simp add: assms(11))
qed

theorem vwap_is_window_average_witness:
  "get_vwap (nearest 64) (nearest 53) (vwap_add_trades (nearest 64) ''S'' (map (scaled (- 1) (- 2)) [(180, 4), (200, 4), (208, 12)])
      \<lparr>rv_window_size = 2, rv_symbols = Map.empty\<rparr>) ''S'' = Some (nearest 53 (nearest 64 103))"
proof -
  let ?ms = "[(180, 4), (200, 4), (208, 12)] :: (int \<times> int) list"
  have d: "\<forall>t \<in> set (map (scaled (- 1) (- 2)) ?ms). nearest 53 (fst t) = fst t"
    using double_format.fmt_exact [of 90 0] double_format.fmt_exact [of 100 0] double_format.fmt_exact [of 104 0] by simp
  have m: "mono (nearest 53)" by (rule monoI) (rule double_format.fmt_mono)
  have q: "sum_notionals (last_n 2 (map (scaled (- 1) (- 2)) ?ms)) / sum_volumes (last_n 2 (map (scaled (- 1) (- 2)) ?ms)) = 103"
    by (simp add: last_n_def sum_notionals_def sum_volumes_def notional_def scaled_def)
  have "\<forall>t \<in> set ?ms. window_exact (2 ^ 64) 2 t" by (simp add: window_exact_def notional_def)
  from vwap_is_window_average [OF x87_format.binary_format_axioms m _ _ _ refl this _ d refl refl, of "''S''"]
  show ?thesis unfolding q by simp
qed

text \<open>
  The totals are updated, not summed afresh, so a trade that is lost beside a much larger one stays
  lost when the larger one has left the window: the average of 3 and 5 is then reported as 5.
\<close>

lemma nearest_absorbs:
  assumes "0 \<le> n" "n < 4"
  shows "nearest 64 (2 ^ 66 + of_int n) = 2 ^ 66"
proof -
  let ?x = "2 ^ 66 + of_int n :: rat"
  have n: "(0::rat) \<le> of_int n" "of_int n < (4::rat)" using assms by simp_all
  have b: "binade ?x = 66" by (rule binade_eqI) (use n in simp_all)
  have "\<lfloor>?x / 8\<rfloor> = 2 ^ 63" using n by (intro floor_unique) simp_all
  then have "round_half_even (?x / 8) = 2 ^ 63" using n by (simp add: round_half_even_def)
  moreover have "nearest_pos 64 ?x = of_int (round_half_even (?x / 8)) * 8"
    unfolding nearest_pos_def b by simp
  moreover have "0 < ?x" using n by simp
  ultimately show ?thesis by (simp add: nearest_def)
qed

lemma vwap_loses_trades:
  "get_vwap (nearest 64) (nearest 53) (vwap_add_trades (nearest 64) ''S'' [(1, 2 ^ 66), (3, 1), (5, 1)]
     \<lparr>rv_window_size = 2, rv_symbols = Map.empty\<rparr>) ''S'' = Some 5"
proof -
  have a: "nearest 64 (2 ^ 66) = 2 ^ 66" "nearest 64 (2 ^ 66 + 3) = 2 ^ 66" "nearest 64 (2 ^ 66 + 1) = 2 ^ 66"
    using nearest_absorbs [of 0] nearest_absorbs [of 3] nearest_absorbs [of 1] by simp_all
  have e: "nearest 64 0 = 0" "nearest 64 1 = 1" "nearest 64 3 = 3" "nearest 64 5 = 5" "nearest 53 5 = 5"
    using nearest_exact [of 0 64] nearest_exact [of 1 64] nearest_exact [of 3 64] nearest_exact [of 5 64]
      nearest_exact [of 5 53] by simp_all
  show ?thesis
    using a e by (simp add: get_vwap_def vwap_add_trade_def validate_fp_trade_def finite_positive_def fp_rat_def
        empty_vwap_state_def vwap_push_def vwap_drop_oldest_def Let_def)
qed

text \<open>C30 The statistics of a symbol count its trades and report the smallest and the largest price, for any
  doubles and any rounding of \<open>long double\<close>. When the prices are integers times a common power of two and
  the volumes integers times another one, and the sums of these integers fit the significand of
  \<open>long double\<close>, of any binary format, the total volume and its split by aggressor side are exact,
  nothing is lost in the split, and the averages are the exact quotients rounded once; the average price
  then lies between the smallest and the largest one. The number of trades must fit 64 bits.\<close>
theorem statistics_describe_trades:
  assumes "symbol \<noteq> []" "ts \<noteq> []" "\<forall>t \<in> set ts. 0 < st_price t \<and> 0 < st_volume t" "length ts \<le> SIZE_MAX"
  shows "\<exists>s. get_statistics ld (statistics_add_trades ld symbol ts \<lparr>st_symbols = Map.empty\<rparr>) symbol = Some s
    \<and> sn_trade_count s = length ts
    \<and> sn_minimum_trade_price s = Min (st_price ` set ts) \<and> sn_maximum_trade_price s = Max (st_price ` set ts)
    \<and> (\<forall>p emin emax e f ms. binary_format ld p emin emax \<longrightarrow> {e, f} \<subseteq> {emin..emax}
         \<longrightarrow> ts = map (scaled_trade e f) ms \<longrightarrow> statistics_exact (2 ^ p) ms \<longrightarrow>
         sn_total_volume s = sum_list (map st_volume ts)
         \<and> sn_buy_volume s + sn_sell_volume s + sn_unknown_volume s = sn_total_volume s
         \<and> sn_buy_volume s = side_volume Aggressor_buy ts \<and> sn_sell_volume s = side_volume Aggressor_sell ts
         \<and> sn_average_trade_price s = ld (sum_list (map st_price ts) / of_nat (length ts))
         \<and> sn_average_trade_size s = ld (sum_list (map st_volume ts) / of_nat (length ts))
         \<and> sn_minimum_trade_price s \<le> sn_average_trade_price s \<and> sn_average_trade_price s \<le> sn_maximum_trade_price s)"
proof -
  let ?st = "statistics_add_trades ld symbol ts \<lparr>st_symbols = Map.empty\<rparr>"
  let ?lo = "Min (st_price ` set ts)" and ?hi = "Max (st_price ` set ts)"
  obtain s where s: "st_symbols ?st symbol = Some s" "statistics_seen ts s"
  proof -
    have "statistics_seen ts (case st_symbols ?st symbol of None \<Rightarrow> empty_statistics_state | Some s \<Rightarrow> s)"
      "st_symbols ?st symbol \<noteq> None"
      using statistics_adds_show [OF assms(1,3,4), of ld 0 0 0 0 0] assms(2) by blast+
    then show thesis using that by auto
  qed
  have sums: "statistics_sums ts s" if "binary_format ld p emin emax" "{e, f} \<subseteq> {emin..emax}"
      "ts = map (scaled_trade e f) ms" "statistics_exact (2 ^ p) ms" for p emin emax e f ms
  proof -
    have "statistics_sums ts (case st_symbols ?st symbol of None \<Rightarrow> empty_statistics_state | Some s \<Rightarrow> s)"
      using statistics_adds_show [OF assms(1,3,4), of ld p emin emax e f] that by blast
    then show ?thesis by (simp add: s(1))
  qed
  have exact: "ld (of_nat (length ts)) = of_nat (length ts) \<and> ?lo \<le> ld (sum_list (map st_price ts) / of_nat (length ts))
      \<and> ld (sum_list (map st_price ts) / of_nat (length ts)) \<le> ?hi"
    if f: "binary_format ld p emin emax" "{e, f} \<subseteq> {emin..emax}" and ts: "ts = map (scaled_trade e f) ms"
      and ex: "statistics_exact (2 ^ p) ms" for p emin emax e f ms
    using statistics_average [OF f ts ex assms(2)] .
  show ?thesis
    using s assms(2) sums exact
    by (simp add: get_statistics_def statistics_seen_def statistics_sums_def side_volumes_total)
qed

theorem statistics_describe_trades_witness:
  "\<exists>s. get_statistics (nearest 64) (statistics_add_trades (nearest 64) ''S''
      (map (scaled_trade (- 1) (- 1)) [(200, 4, Aggressor_buy), (181, 7, Aggressor_sell)]) \<lparr>st_symbols = Map.empty\<rparr>) ''S'' = Some s
    \<and> sn_trade_count s = 2 \<and> sn_total_volume s = 11 / 2 \<and> sn_buy_volume s = 2 \<and> sn_minimum_trade_price s = 181 / 2"
proof -
  let ?ms = "[(200, 4, Aggressor_buy), (181, 7, Aggressor_sell)] :: int sided_trade list"
  let ?ts = "map (scaled_trade (- 1) (- 1)) ?ms"
  have ex: "statistics_exact (2 ^ 64) ?ms" by (simp add: statistics_exact_def)
  have pos: "\<forall>t \<in> set ?ts. 0 < st_price t \<and> 0 < st_volume t" "length ?ts \<le> SIZE_MAX" by (simp_all add: SIZE_MAX_def)
  have ne: "''S'' \<noteq> []" "?ts \<noteq> []" by simp_all
  have vals: "sum_list (map st_volume ?ts) = 11 / 2" "side_volume Aggressor_buy ?ts = 2" "Min (st_price ` set ?ts) = 181 / 2"
    by (simp_all add: side_volume_def scaled_trade_def)
  from statistics_describe_trades [OF ne pos, of "nearest 64"] show ?thesis
  proof (elim exE conjE, goal_cases)
    case (1 s)
    have "{- 1, - 1} \<subseteq> {- 16445..16319 :: int}" by simp
    from 1(5) [rule_format, OF x87_format.binary_format_axioms this refl ex] 1(1,2,3) vals
    show ?case by (intro exI [of _ s]) simp
  qed
qed

end
