(* ===== verification/Order_Flow.thy ===== *)
theory Order_Flow
  imports Matching_Engine Trade_Analytics
begin

text \<open>
  Order flow imbalance: the indicator itself (\<open>include/order_flow_imbalance.hpp\<close>), the handler that feeds
  it from a book (\<open>include/ofi_order_book_handler.hpp\<close>), the book that notifies the handler
  (\<open>include/ofi_observable_order_book.hpp\<close>) and the matching engine that does
  (\<open>include/ofi_matching_engine_adapter.hpp\<close>).
\<close>

subsection \<open>The indicator\<close>

record ofi_level =
  ol_price_ticks :: int
  ol_quantity :: int

record ofi_snapshot =
  os_best_bid :: "ofi_level option"
  os_best_ask :: "ofi_level option"

record ofi_state =
  of_initialized :: bool
  of_previous :: ofi_snapshot
  of_events :: "rat list"
  of_rolling_total :: rat
  of_latest_event :: rat

record order_flow_imbalance =
  fi_window_size :: nat
  fi_symbols :: "string \<rightharpoonup> ofi_state"

definition new_order_flow_imbalance :: "nat \<Rightarrow> order_flow_imbalance result" where
  "new_order_flow_imbalance window_size =
     (if window_size = 0 then Inl (Invalid_argument ''OFI window size must be positive'')
      else Inr \<lparr>fi_window_size = window_size, fi_symbols = Map.empty\<rparr>)"

definition empty_ofi_state :: ofi_state where
  "empty_ofi_state = \<lparr>of_initialized = False, of_previous = \<lparr>os_best_bid = None, os_best_ask = None\<rparr>, of_events = [],
     of_rolling_total = 0, of_latest_event = 0\<rparr>"

definition ofi_validate_level :: "ofi_level option \<Rightarrow> unit result" where
  "ofi_validate_level level =
     (case level of
        None \<Rightarrow> Inr ()
      | Some l \<Rightarrow> if ol_price_ticks l \<le> 0 \<or> ol_quantity l \<le> 0
                  then Inl (Invalid_argument ''OFI price and quantity must be positive'') else Inr ())"

definition bid_contribution :: "rounding_mode \<Rightarrow> ofi_level option \<Rightarrow> ofi_level option \<Rightarrow> rat" where
  "bid_contribution ld previous current =
     (case previous of
        None \<Rightarrow> (case current of None \<Rightarrow> 0 | Some c \<Rightarrow> ld (of_int (ol_quantity c)))
      | Some p \<Rightarrow>
          (case current of
             None \<Rightarrow> - ld (of_int (ol_quantity p))
           | Some c \<Rightarrow>
               if ol_price_ticks c > ol_price_ticks p then ld (of_int (ol_quantity c))
               else if ol_price_ticks c < ol_price_ticks p then - ld (of_int (ol_quantity p))
               else ld (ld (of_int (ol_quantity c)) - ld (of_int (ol_quantity p)))))"

definition ask_contribution :: "rounding_mode \<Rightarrow> ofi_level option \<Rightarrow> ofi_level option \<Rightarrow> rat" where
  "ask_contribution ld previous current =
     (case previous of
        None \<Rightarrow> (case current of None \<Rightarrow> 0 | Some c \<Rightarrow> ld (of_int (ol_quantity c)))
      | Some p \<Rightarrow>
          (case current of
             None \<Rightarrow> - ld (of_int (ol_quantity p))
           | Some c \<Rightarrow>
               if ol_price_ticks c < ol_price_ticks p then ld (of_int (ol_quantity c))
               else if ol_price_ticks c > ol_price_ticks p then - ld (of_int (ol_quantity p))
               else ld (ld (of_int (ol_quantity c)) - ld (of_int (ol_quantity p)))))"

definition validate_snapshot :: "string \<Rightarrow> ofi_snapshot \<Rightarrow> unit result" where
  "validate_snapshot symbol snapshot =
     (if symbol = [] then Inl (Invalid_argument ''OFI symbol cannot be empty'')
      else and_then (ofi_validate_level (os_best_bid snapshot)) (\<lambda>_.
           and_then (ofi_validate_level (os_best_ask snapshot)) (\<lambda>_.
             case (os_best_bid snapshot, os_best_ask snapshot) of
               (Some b, Some a) \<Rightarrow>
                 if ol_price_ticks b \<ge> ol_price_ticks a
                 then Inl (Invalid_argument ''OFI snapshot has a crossed or locked book'') else Inr ()
             | _ \<Rightarrow> Inr ())))"

text \<open>The change of a symbol's state once it has a previous snapshot.\<close>

definition ofi_record_event :: "rounding_mode \<Rightarrow> nat \<Rightarrow> ofi_snapshot \<Rightarrow> ofi_state \<Rightarrow> ofi_state" where
  "ofi_record_event ld window_size snapshot state =
     (let bid_change = bid_contribution ld (os_best_bid (of_previous state)) (os_best_bid snapshot);
          ask_change = ask_contribution ld (os_best_ask (of_previous state)) (os_best_ask snapshot);
          event_ofi = ld (bid_change - ask_change);
          state1 = (if length (of_events state) = window_size
                    then state\<lparr>of_rolling_total := ld (of_rolling_total state - hd (of_events state)),
                               of_events := tl (of_events state)\<rparr>
                    else state)
      in state1\<lparr>of_events := of_events state1 @ [event_ofi],
                of_rolling_total := ld (of_rolling_total state1 + event_ofi),
                of_latest_event := event_ofi, of_previous := snapshot\<rparr>)"

definition ofi_update ::
  "rounding_mode \<Rightarrow> string \<Rightarrow> ofi_snapshot \<Rightarrow> order_flow_imbalance \<Rightarrow> (unit, order_flow_imbalance) outcome" where
  "ofi_update ld symbol snapshot fi =
     (case validate_snapshot symbol snapshot of
        Inl err \<Rightarrow> (Inl err, fi)
      | Inr _ \<Rightarrow>
          (let state = (case fi_symbols fi symbol of None \<Rightarrow> empty_ofi_state | Some s \<Rightarrow> s);
               state1 = (if \<not> of_initialized state then state\<lparr>of_previous := snapshot, of_initialized := True\<rparr>
                         else ofi_record_event ld (fi_window_size fi) snapshot state)
           in (Inr (), fi\<lparr>fi_symbols := (fi_symbols fi)(symbol \<mapsto> state1)\<rparr>)))"

definition latest_ofi :: "order_flow_imbalance \<Rightarrow> string \<Rightarrow> rat option" where
  "latest_ofi fi symbol =
     (case fi_symbols fi symbol of None \<Rightarrow> None
      | Some s \<Rightarrow> if of_events s = [] then None else Some (of_latest_event s))"

definition rolling_ofi :: "order_flow_imbalance \<Rightarrow> string \<Rightarrow> rat option" where
  "rolling_ofi fi symbol =
     (case fi_symbols fi symbol of None \<Rightarrow> None
      | Some s \<Rightarrow> if of_events s = [] then None else Some (of_rolling_total s))"

definition event_count :: "order_flow_imbalance \<Rightarrow> string \<Rightarrow> nat" where
  "event_count fi symbol = (case fi_symbols fi symbol of None \<Rightarrow> 0 | Some s \<Rightarrow> length (of_events s))"

definition ofi_clear_symbol :: "string \<Rightarrow> order_flow_imbalance \<Rightarrow> order_flow_imbalance" where
  "ofi_clear_symbol symbol fi = fi\<lparr>fi_symbols := (fi_symbols fi)(symbol := None)\<rparr>"

definition ofi_clear :: "order_flow_imbalance \<Rightarrow> order_flow_imbalance" where
  "ofi_clear fi = fi\<lparr>fi_symbols := Map.empty\<rparr>"

subsection \<open>The handler\<close>

text \<open>
  \<open>before_capture\<close> is the optional callback, a function that may depend on anything outside: what the
  handler sees of it is, for each of its calls from now on, whether it returns or what it throws. An
  absent callback never throws.
\<close>

record ofi_handler =
  oh_ofi :: order_flow_imbalance
  oh_before_capture :: "nat \<Rightarrow> cpp_error option"

definition book_snapshot :: "order_book \<Rightarrow> ofi_snapshot" where
  "book_snapshot book =
     \<lparr>os_best_bid = (case best_bid book of None \<Rightarrow> None
        | Some l \<Rightarrow> Some \<lparr>ol_price_ticks = pl_price_ticks l, ol_quantity = pl_quantity l\<rparr>),
      os_best_ask = (case best_ask book of None \<Rightarrow> None
        | Some l \<Rightarrow> Some \<lparr>ol_price_ticks = pl_price_ticks l, ol_quantity = pl_quantity l\<rparr>)\<rparr>"

definition ofi_capture :: "rounding_mode \<Rightarrow> string \<Rightarrow> order_book \<Rightarrow> ofi_handler \<Rightarrow> (unit, ofi_handler) outcome" where
  "ofi_capture ld symbol book oh =
     (if symbol = [] then (Inl (Invalid_argument ''OFI symbol must not be empty''), oh)
      else let oh1 = oh\<lparr>oh_before_capture := (\<lambda>n. oh_before_capture oh (n + 1))\<rparr>
           in case oh_before_capture oh 0 of
                Some err \<Rightarrow> (Inl err, oh1)
              | None \<Rightarrow> (case ofi_update ld symbol (book_snapshot book) (oh_ofi oh1) of
                           (r, fi) \<Rightarrow> (r, oh1\<lparr>oh_ofi := fi\<rparr>)))"

subsection \<open>The observable book\<close>

record observable_book =
  bo_book :: order_book
  bo_handler :: ofi_handler
  bo_symbol :: string

definition bo_capture :: "rounding_mode \<Rightarrow> observable_book \<Rightarrow> (unit, observable_book) outcome" where
  "bo_capture ld bo = (case ofi_capture ld (bo_symbol bo) (bo_book bo) (bo_handler bo) of
     (r, oh) \<Rightarrow> (r, bo\<lparr>bo_handler := oh\<rparr>))"

text \<open>A book operation and then the capture, whose exception is not caught.\<close>

definition bo_observed ::
  "rounding_mode \<Rightarrow> (order_book \<Rightarrow> (unit, order_book) outcome) \<Rightarrow> observable_book \<Rightarrow> (unit, observable_book) outcome" where
  "bo_observed ld f bo =
     seq (case f (bo_book bo) of (r, book) \<Rightarrow> (r, bo\<lparr>bo_book := book\<rparr>)) (\<lambda>_ bo1. bo_capture ld bo1)"

definition bo_update_bid :: "rounding_mode \<Rightarrow> int \<Rightarrow> int \<Rightarrow> observable_book \<Rightarrow> (unit, observable_book) outcome" where
  "bo_update_bid ld price_ticks quantity = bo_observed ld (update_bid price_ticks quantity)"

definition bo_update_ask :: "rounding_mode \<Rightarrow> int \<Rightarrow> int \<Rightarrow> observable_book \<Rightarrow> (unit, observable_book) outcome" where
  "bo_update_ask ld price_ticks quantity = bo_observed ld (update_ask price_ticks quantity)"

definition bo_adjust_bid :: "rounding_mode \<Rightarrow> int \<Rightarrow> int \<Rightarrow> observable_book \<Rightarrow> (unit, observable_book) outcome" where
  "bo_adjust_bid ld price_ticks quantity_delta = bo_observed ld (adjust_bid price_ticks quantity_delta)"

definition bo_adjust_ask :: "rounding_mode \<Rightarrow> int \<Rightarrow> int \<Rightarrow> observable_book \<Rightarrow> (unit, observable_book) outcome" where
  "bo_adjust_ask ld price_ticks quantity_delta = bo_observed ld (adjust_ask price_ticks quantity_delta)"

definition bo_replace_snapshot ::
  "rounding_mode \<Rightarrow> price_level list \<Rightarrow> price_level list \<Rightarrow> observable_book \<Rightarrow> (unit, observable_book) outcome" where
  "bo_replace_snapshot ld bids asks = bo_observed ld (replace_snapshot bids asks)"

subsection \<open>The observed matching engine\<close>

record ofi_engine =
  oe_engine :: matching_engine
  oe_handler :: ofi_handler
  oe_symbol :: string
  oe_analytics_healthy :: bool

definition oe_initialize :: "rounding_mode \<Rightarrow> ofi_engine \<Rightarrow> (unit, ofi_engine) outcome" where
  "oe_initialize ld oe = (case ofi_capture ld (oe_symbol oe) (me_book (oe_engine oe)) (oe_handler oe) of
     (r, oh) \<Rightarrow> (r, oe\<lparr>oe_handler := oh\<rparr>))"

definition capture_after_commit :: "rounding_mode \<Rightarrow> ofi_engine \<Rightarrow> ofi_engine" where
  "capture_after_commit ld oe =
     (case ofi_capture ld (oe_symbol oe) (me_book (oe_engine oe)) (oe_handler oe) of
        (Inl err, oh) \<Rightarrow> oe\<lparr>oe_handler := oh, oe_analytics_healthy := False\<rparr>
      | (Inr _, oh) \<Rightarrow> oe\<lparr>oe_handler := oh\<rparr>)"

text \<open>An engine call, and the capture when it returned a value that says the book may have changed.\<close>

definition oe_observed ::
  "rounding_mode \<Rightarrow> ('a \<Rightarrow> bool) \<Rightarrow> (matching_engine \<Rightarrow> ('a, matching_engine) outcome) \<Rightarrow> ofi_engine
   \<Rightarrow> ('a, ofi_engine) outcome" where
  "oe_observed ld committed f oe =
     (case f (oe_engine oe) of
        (Inl err, e) \<Rightarrow> (Inl err, oe\<lparr>oe_engine := e\<rparr>)
      | (Inr v, e) \<Rightarrow>
          (Inr v, if committed v then capture_after_commit ld (oe\<lparr>oe_engine := e\<rparr>) else oe\<lparr>oe_engine := e\<rparr>))"

definition oe_place_limit_buy :: "rounding_mode \<Rightarrow> int \<Rightarrow> int \<Rightarrow> ofi_engine \<Rightarrow> (order_id, ofi_engine) outcome" where
  "oe_place_limit_buy ld price_ticks quantity = oe_observed ld (\<lambda>_. True) (place_limit_buy price_ticks quantity)"

definition oe_place_limit_sell :: "rounding_mode \<Rightarrow> int \<Rightarrow> int \<Rightarrow> ofi_engine \<Rightarrow> (order_id, ofi_engine) outcome" where
  "oe_place_limit_sell ld price_ticks quantity = oe_observed ld (\<lambda>_. True) (place_limit_sell price_ticks quantity)"

definition oe_cancel_order :: "rounding_mode \<Rightarrow> order_id \<Rightarrow> ofi_engine \<Rightarrow> (bool, ofi_engine) outcome" where
  "oe_cancel_order ld order_id = oe_observed ld (\<lambda>cancelled. cancelled) (cancel_order order_id)"

definition oe_modify_order :: "rounding_mode \<Rightarrow> order_id \<Rightarrow> int \<Rightarrow> int \<Rightarrow> ofi_engine \<Rightarrow> (bool, ofi_engine) outcome" where
  "oe_modify_order ld order_id new_price_ticks new_quantity =
     oe_observed ld (\<lambda>modified. modified) (modify_order order_id new_price_ticks new_quantity)"

definition oe_execute_market_buy :: "rounding_mode \<Rightarrow> int \<Rightarrow> ofi_engine \<Rightarrow> (execution_result, ofi_engine) outcome" where
  "oe_execute_market_buy ld quantity = oe_observed ld (\<lambda>res. er_executed_quantity res > 0) (execute_market_buy ld quantity)"

definition oe_execute_market_sell :: "rounding_mode \<Rightarrow> int \<Rightarrow> ofi_engine \<Rightarrow> (execution_result, ofi_engine) outcome" where
  "oe_execute_market_sell ld quantity = oe_observed ld (\<lambda>res. er_executed_quantity res > 0) (execute_market_sell ld quantity)"

subsection \<open>The flow between snapshots, and its window\<close>

definition level_flow :: "(int \<Rightarrow> int \<Rightarrow> bool) \<Rightarrow> ofi_level option \<Rightarrow> ofi_level option \<Rightarrow> int" where
  "level_flow better previous current =
     (let gained = (case current of None \<Rightarrow> 0 | Some c \<Rightarrow> ol_quantity c);
          lost = (case previous of None \<Rightarrow> 0 | Some p \<Rightarrow> ol_quantity p)
      in case (previous, current) of
           (Some p, Some c) \<Rightarrow> if better (ol_price_ticks c) (ol_price_ticks p) then gained
                              else if better (ol_price_ticks p) (ol_price_ticks c) then - lost else gained - lost
         | _ \<Rightarrow> gained - lost)"

definition snapshot_flow :: "ofi_snapshot \<Rightarrow> ofi_snapshot \<Rightarrow> int" where
  "snapshot_flow a b = level_flow (\<lambda>x y. x > y) (os_best_bid a) (os_best_bid b)
     - level_flow (\<lambda>x y. x < y) (os_best_ask a) (os_best_ask b)"

fun flows :: "ofi_snapshot list \<Rightarrow> int list" where
  "flows (a # b # rest) = snapshot_flow a b # flows (b # rest)"
| "flows _ = []"

lemma flows_snoc: "ss \<noteq> [] \<Longrightarrow> flows (ss @ [s]) = flows ss @ [snapshot_flow (last ss) s]"
  by (induction ss rule: flows.induct) simp_all

lemma length_flows: "length (flows ss) = length ss - 1"
  by (induction ss rule: flows.induct) simp_all

definition level_small :: "int \<Rightarrow> ofi_level option \<Rightarrow> bool" where
  "level_small Q l \<longleftrightarrow> (case l of None \<Rightarrow> True | Some x \<Rightarrow> 0 < ol_price_ticks x \<and> 0 < ol_quantity x \<and> ol_quantity x \<le> Q)"

definition snapshot_small :: "int \<Rightarrow> ofi_snapshot \<Rightarrow> bool" where
  "snapshot_small Q s \<longleftrightarrow> level_small Q (os_best_bid s) \<and> level_small Q (os_best_ask s)
     \<and> (\<forall>b a. os_best_bid s = Some b \<longrightarrow> os_best_ask s = Some a \<longrightarrow> ol_price_ticks b < ol_price_ticks a)"

lemma level_flow_bound: "level_small Q p \<Longrightarrow> level_small Q c \<Longrightarrow> 0 \<le> Q \<Longrightarrow> \<bar>level_flow better p c\<bar> \<le> Q"
  by (auto simp: level_flow_def level_small_def Let_def split: option.splits)

lemma snapshot_flow_bound: "snapshot_small Q a \<Longrightarrow> snapshot_small Q b \<Longrightarrow> 0 \<le> Q \<Longrightarrow> \<bar>snapshot_flow a b\<bar> \<le> 2 * Q"
  using level_flow_bound [of Q "os_best_bid a" "os_best_bid b" "\<lambda>x y. x > y"]
    level_flow_bound [of Q "os_best_ask a" "os_best_ask b" "\<lambda>x y. x < y"]
  by (auto simp: snapshot_small_def snapshot_flow_def)

lemma flows_bound: "\<forall>s \<in> set ss. snapshot_small Q s \<Longrightarrow> 0 \<le> Q \<Longrightarrow> x \<in> set (flows ss) \<Longrightarrow> \<bar>x\<bar> \<le> 2 * Q"
  by (induction ss rule: flows.induct) (auto dest: snapshot_flow_bound)

lemma window_abs_sum: "\<forall>x \<in> set ys. \<bar>x\<bar> \<le> B \<Longrightarrow> \<bar>sum_list ys\<bar> \<le> int (length ys) * B"
  by (induction ys) (auto simp: algebra_simps)

lemma validate_small: "snapshot_small Q s \<Longrightarrow> symbol \<noteq> [] \<Longrightarrow> validate_snapshot symbol s = Inr ()"
  by (auto simp: validate_snapshot_def snapshot_small_def level_small_def ofi_validate_level_def split: option.splits)

definition ofi_shows :: "nat \<Rightarrow> ofi_snapshot list \<Rightarrow> ofi_state \<Rightarrow> bool" where
  "ofi_shows w ss st \<longleftrightarrow> of_initialized st = (ss \<noteq> []) \<and> (ss \<noteq> [] \<longrightarrow> of_previous st = last ss)
     \<and> of_events st = map of_int (last_n w (flows ss)) \<and> of_rolling_total st = of_int (sum_list (last_n w (flows ss)))
     \<and> (flows ss \<noteq> [] \<longrightarrow> of_latest_event st = of_int (last (flows ss)))"

context rounding
begin

lemma contributions_exact:
  assumes "level_small Q p" "level_small Q c" "Q \<le> bound"
  shows "bid_contribution rnd p c = of_int (level_flow (\<lambda>x y. x > y) p c)"
    "ask_contribution rnd p c = of_int (level_flow (\<lambda>x y. x < y) p c)"
proof -
  have q: "rnd (of_int (ol_quantity x)) = of_int (ol_quantity x)" if "level_small Q (Some x)" for x
    using that assms(3) by (intro rnd_exact) (simp add: level_small_def)
  have d: "rnd (of_int (ol_quantity x) - of_int (ol_quantity y)) = of_int (ol_quantity x) - of_int (ol_quantity y)"
    if "level_small Q (Some x)" "level_small Q (Some y)" for x y
  proof -
    have "rnd (of_int (ol_quantity x - ol_quantity y)) = of_int (ol_quantity x - ol_quantity y)"
      using that assms(3) by (intro rnd_exact) (auto simp: level_small_def)
    then show ?thesis by simp
  qed
  show "bid_contribution rnd p c = of_int (level_flow (\<lambda>x y. x > y) p c)"
    "ask_contribution rnd p c = of_int (level_flow (\<lambda>x y. x < y) p c)"
    using assms(1,2) q d
    by (cases p; cases c; simp add: bid_contribution_def ask_contribution_def level_flow_def)+
qed

lemma ofi_first: "ofi_shows w [] st \<Longrightarrow> ofi_shows w [s] (st\<lparr>of_previous := s, of_initialized := True\<rparr>)"
  by (simp add: ofi_shows_def)

lemma ofi_next:
  assumes "ofi_shows w ss st" "ss \<noteq> []" "0 < w" "\<forall>x \<in> set (ss @ [s]). snapshot_small Q x" "0 \<le> Q" "int w * (2 * Q) \<le> bound"
  shows "ofi_shows w (ss @ [s]) (ofi_record_event rnd w s st)"
proof -
  let ?e = "snapshot_flow (last ss) s" and ?l = "last_n w (flows ss)"
  have Q2: "2 * Q \<le> bound" using assms(3,5,6) mult_right_mono [of 1 "int w" "2 * Q"] by linarith
  have small: "snapshot_small Q (last ss)" "snapshot_small Q s" using assms(2,4) by simp_all
  note eb = snapshot_flow_bound [OF small assms(5)]
  have prev: "of_previous st = last ss" using assms(1,2) by (simp add: ofi_shows_def)
  have "rnd (of_int ?e) = of_int ?e" using eb Q2 by (intro rnd_exact) simp
  then have ev: "rnd (bid_contribution rnd (os_best_bid (of_previous st)) (os_best_bid s)
      - ask_contribution rnd (os_best_ask (of_previous st)) (os_best_ask s)) = of_int ?e"
    using small Q2 assms(5) by (simp add: prev contributions_exact [of Q] snapshot_small_def snapshot_flow_def)
  have exact: "rnd (of_int (sum_list ys)) = of_int (sum_list ys)" if "length ys \<le> w" "\<forall>x \<in> set ys. \<bar>x\<bar> \<le> 2 * Q" for ys
  proof -
    have "int (length ys) * (2 * Q) \<le> int w * (2 * Q)" using that(1) assms(5) by (intro mult_right_mono) simp_all
    then show ?thesis using window_abs_sum [OF that(2)] assms(6) by (intro rnd_exact) linarith
  qed
  have fb: "\<forall>x \<in> set ?l. \<bar>x\<bar> \<le> 2 * Q"
    using flows_bound [of ss Q] assms(4,5) last_n_subset [of w "flows ss"] by auto
  let ?ys = "if length (flows ss) < w then ?l else tl ?l"
  have new: "last_n w (flows (ss @ [s])) = ?ys @ [?e]"
    unfolding flows_snoc [OF assms(2)] using assms(3) by (simp add: last_n_simps(2,3) not_less)
  have ys: "length ?ys < w" "\<forall>x \<in> set ?ys. \<bar>x\<bar> \<le> 2 * Q"
    using fb assms(3) last_n_simps(1) [of w "flows ss"] by (auto dest: list.set_sel(2) [rotated])
  have tot: "rnd (of_int (sum_list ?ys + ?e)) = of_int (sum_list ?ys + ?e)"
    using exact [of "?ys @ [?e]"] ys eb by simp
  have drop: "(if length (of_events st) = w then rnd (of_rolling_total st - hd (of_events st)) else of_rolling_total st) = of_int (sum_list ?ys)
      \<and> (if length (of_events st) = w then tl (of_events st) else of_events st) = map of_int ?ys"
  proof (cases "length (flows ss) < w")
    case True
    then show ?thesis using assms(1) last_n_simps(1) [of w "flows ss"] by (simp add: ofi_shows_def)
  next
    case False
    then obtain u us where l: "?l = u # us" using assms(3) last_n_simps(1) [of w "flows ss"] by (cases ?l) auto
    then show ?thesis
      using assms(1) False exact [of us] ys last_n_simps(1) [of w "flows ss"] by (simp add: ofi_shows_def)
  qed
  show ?thesis
    using drop tot unfolding ofi_record_event_def ev Let_def ofi_shows_def new
    using assms(1,2) by (auto simp: ofi_shows_def flows_snoc)
qed

end

fun ofi_updates :: "rounding_mode \<Rightarrow> string \<Rightarrow> ofi_snapshot list \<Rightarrow> order_flow_imbalance \<Rightarrow> order_flow_imbalance" where
  "ofi_updates ld symbol [] fi = fi"
| "ofi_updates ld symbol (s # ss) fi = ofi_updates ld symbol ss (snd (ofi_update ld symbol s fi))"

lemma ofi_updates_snoc: "ofi_updates ld symbol (ss @ [s]) fi = snd (ofi_update ld symbol s (ofi_updates ld symbol ss fi))"
  by (induction ss arbitrary: fi) simp_all

lemma ofi_updates_show:
  assumes "rounding ld bound" "0 < w" "symbol \<noteq> []" "\<forall>s \<in> set ss. snapshot_small Q s" "0 \<le> Q" "int w * (2 * Q) \<le> bound"
  shows "fi_window_size (ofi_updates ld symbol ss \<lparr>fi_window_size = w, fi_symbols = Map.empty\<rparr>) = w
    \<and> ofi_shows w ss (case fi_symbols (ofi_updates ld symbol ss \<lparr>fi_window_size = w, fi_symbols = Map.empty\<rparr>) symbol of
        None \<Rightarrow> empty_ofi_state | Some st \<Rightarrow> st)
    \<and> (ss \<noteq> [] \<longrightarrow> fi_symbols (ofi_updates ld symbol ss \<lparr>fi_window_size = w, fi_symbols = Map.empty\<rparr>) symbol \<noteq> None)"
  using assms(4)
proof (induction ss rule: rev_induct)
  case Nil
  then show ?case by (simp add: ofi_shows_def empty_ofi_state_def last_n_def)
next
  case (snoc s ss)
  let ?fi = "ofi_updates ld symbol ss \<lparr>fi_window_size = w, fi_symbols = Map.empty\<rparr>"
  let ?st = "case fi_symbols ?fi symbol of None \<Rightarrow> empty_ofi_state | Some st \<Rightarrow> st"
  have IH: "fi_window_size ?fi = w" "ofi_shows w ss ?st" using snoc by simp_all
  have v: "validate_snapshot symbol s = Inr ()" using validate_small [of Q s symbol] assms(3) snoc.prems by simp
  show ?case
  proof (cases "ss = []")
    case True
    then show ?thesis
      using v rounding.ofi_first [OF assms(1), of w empty_ofi_state s]
      by (simp add: ofi_update_def empty_ofi_state_def ofi_shows_def last_n_def)
  next
    case False
    then show ?thesis
      using v IH rounding.ofi_next [OF assms(1) IH(2) False assms(2) snoc.prems assms(5,6)]
      by (simp add: ofi_updates_snoc ofi_update_def Let_def ofi_shows_def)
  qed
qed

subsection \<open>Properties\<close>

text \<open>C26 After a sequence of uncrossed snapshots of a symbol the rolling order flow imbalance is the exact
  sum of the flows between consecutive snapshots over the last \<open>w\<close> of them, the latest one is the
  last flow, and the window holds at most \<open>w\<close> events; before the second snapshot there is neither.
  The flow is the change of the best bid minus the change of the best ask, in quantities. Exactness
  holds for every rounding of \<open>long double\<close> that is monotone and exact on the integers up to a bound, while
  \<open>2 * w\<close> times the largest quantity stays within that bound (2 ^ 63 - 1 for x87, 2 ^ 53 where
  \<open>long double\<close> is \<open>double\<close>).\<close>
theorem ofi_is_window_sum:
  assumes "rounding ld bound" "0 < w" "symbol \<noteq> []" "\<forall>s \<in> set ss. snapshot_small Q s" "0 \<le> Q" "int w * (2 * Q) \<le> bound"
    and "fi = ofi_updates ld symbol ss \<lparr>fi_window_size = w, fi_symbols = Map.empty\<rparr>"
  shows "rolling_ofi fi symbol = (if length ss < 2 then None else Some (of_int (sum_list (last_n w (flows ss)))))
    \<and> latest_ofi fi symbol = (if length ss < 2 then None else Some (of_int (last (flows ss))))
    \<and> event_count fi symbol = min w (length ss - 1)"
proof -
  note sh = ofi_updates_show [OF assms(1-6), folded assms(7)]
  have len: "length (last_n w (flows ss)) = min w (length ss - 1)" by (simp add: last_n_simps(1) length_flows)
  have ne: "flows ss = [] \<longleftrightarrow> length ss < 2" using length_flows [of ss] by (cases "flows ss") auto
  show ?thesis
  proof (cases "fi_symbols fi symbol")
    case None
    then show ?thesis using sh by (auto simp: rolling_ofi_def latest_ofi_def event_count_def)
  next
    case (Some st)
    then have st: "of_events st = map of_int (last_n w (flows ss))" "of_rolling_total st = of_int (sum_list (last_n w (flows ss)))"
      "flows ss \<noteq> [] \<Longrightarrow> of_latest_event st = of_int (last (flows ss))" using sh by (simp_all add: ofi_shows_def)
    have "last_n w (flows ss) = [] \<longleftrightarrow> length ss < 2" using len assms(2) by (cases "last_n w (flows ss)") (auto simp: min_def split: if_splits)
    then show ?thesis using Some st ne len by (auto simp: rolling_ofi_def latest_ofi_def event_count_def)
  qed
qed

theorem ofi_is_window_sum_witness:
  "rolling_ofi (ofi_updates (nearest 64) ''S''
     [\<lparr>os_best_bid = Some \<lparr>ol_price_ticks = 10, ol_quantity = 5\<rparr>, os_best_ask = None\<rparr>,
      \<lparr>os_best_bid = Some \<lparr>ol_price_ticks = 11, ol_quantity = 4\<rparr>, os_best_ask = None\<rparr>,
      \<lparr>os_best_bid = Some \<lparr>ol_price_ticks = 11, ol_quantity = 1\<rparr>, os_best_ask = None\<rparr>]
     \<lparr>fi_window_size = 1, fi_symbols = Map.empty\<rparr>) ''S'' = Some (- 3)"
proof -
  let ?ss = "[\<lparr>os_best_bid = Some \<lparr>ol_price_ticks = 10, ol_quantity = 5\<rparr>, os_best_ask = None\<rparr>,
      \<lparr>os_best_bid = Some \<lparr>ol_price_ticks = 11, ol_quantity = 4\<rparr>, os_best_ask = None\<rparr>,
      \<lparr>os_best_bid = Some \<lparr>ol_price_ticks = 11, ol_quantity = 1\<rparr>, os_best_ask = None\<rparr>]"
  have "\<forall>s \<in> set ?ss. snapshot_small 5 s" by (simp add: snapshot_small_def level_small_def)
  from ofi_is_window_sum [OF x87.rounding_axioms _ _ this _ _ refl, of 1 "''S''"] show ?thesis
    by (simp add: INT64_MAX_def last_n_def snapshot_flow_def level_flow_def)
qed

end
