(* ===== verification/Concurrent_Order_Flow.thy ===== *)
theory Concurrent_Order_Flow
  imports Concurrent_Engine Order_Flow
begin

text \<open>
  The order flow adapter over the concurrent engine (\<open>include/ofi_concurrent_matching_adapter.hpp\<close>). Each
  method holds the adapter's mutex while it hands a command to the concurrent engine, waits for the
  future and captures the book; so a call is two steps of the model, one that submits and one that
  returns, with the worker, the other clients of the engine and \<open>shutdown\<close> interleaved between them.
  The adapter's \<open>order_book_\<close> is the book that the engine was built on. Clients that go around the
  adapter are the ones that leave that book alone: they list orders, list trades and clear the trades.
\<close>

subsection \<open>The adapter\<close>

datatype lock_state = Free | Waiting nat engine_command

record ofi_adapter =
  ca_engine :: concurrent_engine
  ca_handler :: ofi_handler
  ca_symbol :: string
  ca_analytics_healthy :: bool
  ca_lock :: lock_state

definition new_ofi_adapter :: "concurrent_engine \<Rightarrow> ofi_handler \<Rightarrow> string \<Rightarrow> ofi_adapter result" where
  "new_ofi_adapter engine handler symbol =
     (if symbol = [] then Inl (Invalid_argument ''OFI symbol must not be empty'')
      else Inr \<lparr>ca_engine = engine, ca_handler = handler, ca_symbol = symbol, ca_analytics_healthy = True,
                ca_lock = Free\<rparr>)"

definition ca_capture :: "rounding_mode \<Rightarrow> ofi_adapter \<Rightarrow> (unit, ofi_adapter) outcome" where
  "ca_capture ld a =
     (case ofi_capture ld (ca_symbol a) (me_book (ce_engine (ca_engine a))) (ca_handler a) of
        (r, oh) \<Rightarrow> (r, a\<lparr>ca_handler := oh\<rparr>))"

definition ca_initialize :: "rounding_mode \<Rightarrow> ofi_adapter \<Rightarrow> (unit, ofi_adapter) outcome" where
  "ca_initialize ld a = ca_capture ld a"

definition ca_capture_after_commit :: "rounding_mode \<Rightarrow> ofi_adapter \<Rightarrow> ofi_adapter" where
  "ca_capture_after_commit ld a =
     (case ca_capture ld a of
        (Inl err, a1) \<Rightarrow> a1\<lparr>ca_analytics_healthy := False\<rparr>
      | (Inr _, a1) \<Rightarrow> a1)"

text \<open>
  The first half of a method: the call of the engine. A refusal leaves the method with its exception
  and gives the mutex back; otherwise the method waits for the future.
\<close>

definition ca_await ::
  "engine_command \<Rightarrow> (concurrent_engine \<Rightarrow> (nat, concurrent_engine) outcome) \<Rightarrow> ofi_adapter
   \<Rightarrow> (unit, ofi_adapter) outcome" where
  "ca_await command request a =
     (case request (ca_engine a) of
        (Inl err, ce) \<Rightarrow> (Inl err, a\<lparr>ca_engine := ce\<rparr>)
      | (Inr ticket, ce) \<Rightarrow> (Inr (), a\<lparr>ca_engine := ce, ca_lock := Waiting ticket command\<rparr>))"

definition ca_place_limit_buy :: "int \<Rightarrow> int \<Rightarrow> ofi_adapter \<Rightarrow> (unit, ofi_adapter) outcome" where
  "ca_place_limit_buy price_ticks quantity =
     ca_await (Place_limit_buy price_ticks quantity) (ce_place_limit_buy price_ticks quantity)"

definition ca_place_limit_sell :: "int \<Rightarrow> int \<Rightarrow> ofi_adapter \<Rightarrow> (unit, ofi_adapter) outcome" where
  "ca_place_limit_sell price_ticks quantity =
     ca_await (Place_limit_sell price_ticks quantity) (ce_place_limit_sell price_ticks quantity)"

definition ca_cancel_order :: "order_id \<Rightarrow> ofi_adapter \<Rightarrow> (unit, ofi_adapter) outcome" where
  "ca_cancel_order order_id = ca_await (Cancel_order order_id) (ce_cancel_order order_id)"

definition ca_modify_order :: "order_id \<Rightarrow> int \<Rightarrow> int \<Rightarrow> ofi_adapter \<Rightarrow> (unit, ofi_adapter) outcome" where
  "ca_modify_order order_id new_price_ticks new_quantity =
     ca_await (Modify_order order_id new_price_ticks new_quantity)
       (ce_modify_order order_id new_price_ticks new_quantity)"

definition ca_execute_market_buy :: "int \<Rightarrow> ofi_adapter \<Rightarrow> (unit, ofi_adapter) outcome" where
  "ca_execute_market_buy quantity = ca_await (Execute_market_buy quantity) (ce_execute_market_buy quantity)"

definition ca_execute_market_sell :: "int \<Rightarrow> ofi_adapter \<Rightarrow> (unit, ofi_adapter) outcome" where
  "ca_execute_market_sell quantity = ca_await (Execute_market_sell quantity) (ce_execute_market_sell quantity)"

text \<open>The second half: whether the value that \<open>get\<close> returned asks for a capture, and the return.\<close>

definition ca_committed :: "engine_command \<Rightarrow> engine_value \<Rightarrow> bool" where
  "ca_committed command v =
     (case command of
        Place_limit_buy _ _ \<Rightarrow> True
      | Place_limit_sell _ _ \<Rightarrow> True
      | Cancel_order _ \<Rightarrow> (case v of Bool_value cancelled \<Rightarrow> cancelled | _ \<Rightarrow> False)
      | Modify_order _ _ _ \<Rightarrow> (case v of Bool_value modified \<Rightarrow> modified | _ \<Rightarrow> False)
      | Execute_market_buy _ \<Rightarrow> (case v of Execution_value res \<Rightarrow> er_executed_quantity res > 0 | _ \<Rightarrow> False)
      | Execute_market_sell _ \<Rightarrow> (case v of Execution_value res \<Rightarrow> er_executed_quantity res > 0 | _ \<Rightarrow> False)
      | _ \<Rightarrow> False)"

definition ca_return :: "rounding_mode \<Rightarrow> engine_command \<Rightarrow> engine_value result \<Rightarrow> ofi_adapter \<Rightarrow> ofi_adapter" where
  "ca_return ld command r a =
     (let a1 = (case r of
                  Inl err \<Rightarrow> a
                | Inr v \<Rightarrow> if ca_committed command v then ca_capture_after_commit ld a else a)
      in a1\<lparr>ca_lock := Free\<rparr>)"

subsection \<open>Interleavings\<close>

text \<open>A call of the adapter, named by the command that the method makes.\<close>

definition adapter_command :: "engine_command \<Rightarrow> bool" where
  "adapter_command command = (case command of
     Active_orders \<Rightarrow> False | Trade_history \<Rightarrow> False | Clear_trade_history \<Rightarrow> False | _ \<Rightarrow> True)"

definition adapter_call :: "engine_command \<Rightarrow> ofi_adapter \<Rightarrow> (unit, ofi_adapter) outcome" where
  "adapter_call command =
     (case command of
        Place_limit_buy price quantity \<Rightarrow> ca_place_limit_buy price quantity
      | Place_limit_sell price quantity \<Rightarrow> ca_place_limit_sell price quantity
      | Execute_market_buy quantity \<Rightarrow> ca_execute_market_buy quantity
      | Execute_market_sell quantity \<Rightarrow> ca_execute_market_sell quantity
      | Cancel_order order_id \<Rightarrow> ca_cancel_order order_id
      | Modify_order order_id price quantity \<Rightarrow> ca_modify_order order_id price quantity
      | _ \<Rightarrow> (\<lambda>a. (Inr (), a)))"

lemma adapter_call_await: "adapter_command command \<Longrightarrow> adapter_call command = ca_await command (submit command)"
  by (cases command) (simp_all add: adapter_command_def adapter_call_def fun_eq_iff ca_place_limit_buy_def
      ca_place_limit_sell_def ca_cancel_order_def ca_modify_order_def ca_execute_market_buy_def
      ca_execute_market_sell_def ce_place_limit_buy_def ce_place_limit_sell_def ce_cancel_order_def
      ce_modify_order_def ce_execute_market_buy_def ce_execute_market_sell_def)

datatype flow_event =
    Called nat engine_command
  | Refused engine_command
  | Returned nat "engine_value result"
  | Initialized "unit result"
  | Around engine_command
  | Popped_next
  | Served nat engine_command
  | Closed

inductive ca_step :: "rounding_mode \<Rightarrow> ofi_adapter \<Rightarrow> flow_event \<Rightarrow> ofi_adapter \<Rightarrow> bool"
  for ld :: rounding_mode where
  called: "ca_lock a = Free \<Longrightarrow> adapter_command command \<Longrightarrow> adapter_call command a = (Inr (), a') \<Longrightarrow>
    ca_lock a' = Waiting ticket command \<Longrightarrow> ca_step ld a (Called ticket command) a'"
| refused: "ca_lock a = Free \<Longrightarrow> adapter_command command \<Longrightarrow> adapter_call command a = (Inl err, a') \<Longrightarrow>
    ca_step ld a (Refused command) a'"
| returned: "ca_lock a = Waiting ticket command \<Longrightarrow> ce_promises (ca_engine a) ticket = Some r \<Longrightarrow>
    ca_step ld a (Returned ticket r) (ca_return ld command r a)"
| initialized: "ca_lock a = Free \<Longrightarrow> ca_initialize ld a = (r, a') \<Longrightarrow> ca_step ld a (Initialized r) a'"
| around: "\<not> adapter_command command \<Longrightarrow> client_call command (ca_engine a) = (r, ce) \<Longrightarrow>
    ca_step ld a (Around command) (a\<lparr>ca_engine := ce\<rparr>)"
| popped: "ce_worker (ca_engine a) = Idle \<Longrightarrow> worker_pop (ca_engine a) = Some ce \<Longrightarrow>
    ca_step ld a Popped_next (a\<lparr>ca_engine := ce\<rparr>)"
| served: "ce_worker (ca_engine a) = Busy ticket command \<Longrightarrow>
    ca_step ld a (Served ticket command) (a\<lparr>ca_engine := worker_process ld ticket command (ca_engine a)\<rparr>)"
| closed: "ca_step ld a Closed (a\<lparr>ca_engine := shutdown_close (ca_engine a)\<rparr>)"

inductive ca_runs :: "rounding_mode \<Rightarrow> ofi_adapter \<Rightarrow> flow_event list \<Rightarrow> ofi_adapter \<Rightarrow> bool"
  for ld :: rounding_mode and start :: ofi_adapter where
  ca_start: "ca_runs ld start [] start"
| ca_more: "ca_runs ld start tr a \<Longrightarrow> ca_step ld a ev a' \<Longrightarrow> ca_runs ld start (tr @ [ev]) a'"

interpretation adapter: machine "ca_step ld" "ca_runs ld" for ld
proof
  fix s es s' P
  assume "ca_runs ld s es s'" "P [] s" "\<And>es s1 e s2. ca_runs ld s es s1 \<Longrightarrow> P es s1 \<Longrightarrow> ca_step ld s1 e s2 \<Longrightarrow> P (es @ [e]) s2"
  then show "P es s'" by (induction rule: ca_runs.induct) blast+
qed

subsection \<open>The sequential adapter\<close>

text \<open>
  The specification is the adapter over a plain engine: the commands run one after the other, each
  with its capture at once, in the order in which the worker served them.
\<close>

definition wrapped :: "('a \<Rightarrow> engine_value) \<Rightarrow> ('a, ofi_engine) outcome \<Rightarrow> engine_value result \<times> ofi_engine" where
  "wrapped wrap r = (case r of (Inl err, oe) \<Rightarrow> (Inl err, oe) | (Inr v, oe) \<Rightarrow> (Inr (wrap v), oe))"

definition oe_call :: "rounding_mode \<Rightarrow> engine_command \<Rightarrow> ofi_engine \<Rightarrow> engine_value result \<times> ofi_engine" where
  "oe_call ld command oe =
     (case command of
        Place_limit_buy price quantity \<Rightarrow> wrapped Order_id_value (oe_place_limit_buy ld price quantity oe)
      | Place_limit_sell price quantity \<Rightarrow> wrapped Order_id_value (oe_place_limit_sell ld price quantity oe)
      | Execute_market_buy quantity \<Rightarrow> wrapped Execution_value (oe_execute_market_buy ld quantity oe)
      | Execute_market_sell quantity \<Rightarrow> wrapped Execution_value (oe_execute_market_sell ld quantity oe)
      | Cancel_order order_id \<Rightarrow> wrapped Bool_value (oe_cancel_order ld order_id oe)
      | Modify_order order_id price quantity \<Rightarrow> wrapped Bool_value (oe_modify_order ld order_id price quantity oe)
      | _ \<Rightarrow> (case process_command ld command (oe_engine oe) of (r, e) \<Rightarrow> (r, oe\<lparr>oe_engine := e\<rparr>)))"

record replay_state =
  rp_adapter :: ofi_engine
  rp_results :: "nat \<rightharpoonup> engine_value result"
  rp_inits :: "unit result list"

definition replay_event :: "rounding_mode \<Rightarrow> flow_event \<Rightarrow> replay_state \<Rightarrow> replay_state" where
  "replay_event ld ev s =
     (case ev of
        Served ticket command \<Rightarrow> (case oe_call ld command (rp_adapter s) of
          (r, oe) \<Rightarrow> s\<lparr>rp_adapter := oe, rp_results := (rp_results s)(ticket \<mapsto> r)\<rparr>)
      | Initialized _ \<Rightarrow> (case oe_initialize ld (rp_adapter s) of
          (r, oe) \<Rightarrow> s\<lparr>rp_adapter := oe, rp_inits := rp_inits s @ [r]\<rparr>)
      | _ \<Rightarrow> s)"

definition replay :: "rounding_mode \<Rightarrow> flow_event list \<Rightarrow> ofi_engine \<Rightarrow> replay_state" where
  "replay ld tr oe = fold (replay_event ld) tr \<lparr>rp_adapter = oe, rp_results = Map.empty, rp_inits = []\<rparr>"

definition initializations :: "flow_event list \<Rightarrow> unit result list" where
  "initializations tr = concat (map (\<lambda>ev. case ev of Initialized r \<Rightarrow> [r] | _ \<Rightarrow> []) tr)"

text \<open>The sequential adapter that a concurrent one stands for: a call whose promise is set counts as returned.\<close>

definition seq_adapter :: "ofi_adapter \<Rightarrow> ofi_engine" where
  "seq_adapter a = \<lparr>oe_engine = ce_engine (ca_engine a), oe_handler = ca_handler a, oe_symbol = ca_symbol a,
     oe_analytics_healthy = ca_analytics_healthy a\<rparr>"

definition settled :: "rounding_mode \<Rightarrow> ofi_adapter \<Rightarrow> ofi_adapter" where
  "settled ld a = (case ca_lock a of
     Free \<Rightarrow> a
   | Waiting ticket command \<Rightarrow>
       (case ce_promises (ca_engine a) ticket of None \<Rightarrow> a | Some r \<Rightarrow> ca_return ld command r a))"

subsection \<open>The invariant\<close>

definition commands_pending :: "concurrent_engine \<Rightarrow> (nat \<times> engine_command) list" where
  "commands_pending ce = in_hand (ce_worker ce) @ bq_queue (ce_queue ce)"

definition tickets_ok :: "concurrent_engine \<Rightarrow> bool" where
  "tickets_ok ce \<longleftrightarrow> distinct (map fst (commands_pending ce))
     \<and> (\<forall>x \<in> set (commands_pending ce). fst x < ce_next_ticket ce \<and> ce_promises ce (fst x) = None)
     \<and> (\<forall>t \<in> dom (ce_promises ce). t < ce_next_ticket ce)
     \<and> (ce_worker ce = Finished \<longrightarrow> bq_queue (ce_queue ce) = [] \<and> bq_closed (ce_queue ce))"

definition ca_inv :: "ofi_adapter \<Rightarrow> bool" where
  "ca_inv a \<longleftrightarrow> tickets_ok (ca_engine a)
     \<and> (\<forall>x \<in> set (commands_pending (ca_engine a)). adapter_command (snd x) \<longrightarrow> ca_lock a = Waiting (fst x) (snd x))
     \<and> (\<forall>t c. ca_lock a = Waiting t c \<longrightarrow> adapter_command c \<and> t < ce_next_ticket (ca_engine a)
          \<and> (ce_promises (ca_engine a) t = None \<longrightarrow> (t, c) \<in> set (commands_pending (ca_engine a))))"

lemma submit_eq:
  "submit c ce =
     (if bq_closed (ce_queue ce)
      then (Inl (Runtime_error ''ConcurrentMatchingEngine is shut down.''), ce\<lparr>ce_next_ticket := ce_next_ticket ce + 1\<rparr>)
      else (Inr (ce_next_ticket ce), ce\<lparr>ce_next_ticket := ce_next_ticket ce + 1,
             ce_queue := (ce_queue ce)\<lparr>bq_queue := bq_queue (ce_queue ce) @ [(ce_next_ticket ce, c)]\<rparr>\<rparr>))"
  by (simp add: submit_def bq_push_def Let_def)

lemma worker_pop_eq:
  "worker_pop ce =
     (case bq_queue (ce_queue ce) of
        [] \<Rightarrow> if bq_closed (ce_queue ce) then Some (ce\<lparr>ce_worker := Finished\<rparr>) else None
      | x # xs \<Rightarrow> Some (ce\<lparr>ce_queue := (ce_queue ce)\<lparr>bq_queue := xs\<rparr>, ce_worker := Busy (fst x) (snd x)\<rparr>))"
  by (simp add: worker_pop_def bq_pop_def split: list.splits prod.splits)

lemma tickets_ok_submit:
  assumes ok: "tickets_ok ce" and s: "submit c ce = (r, ce')"
  shows "tickets_ok ce'" "ce_promises ce' = ce_promises ce" "ce_next_ticket ce' = ce_next_ticket ce + 1"
    "ce_engine ce' = ce_engine ce"
    "commands_pending ce' = commands_pending ce @ (case r of Inl _ \<Rightarrow> [] | Inr t \<Rightarrow> [(t, c)])"
proof -
  have ce': "ce_promises ce' = ce_promises ce \<and> ce_next_ticket ce' = ce_next_ticket ce + 1 \<and> ce_engine ce' = ce_engine ce
      \<and> commands_pending ce' = commands_pending ce @ (case r of Inl _ \<Rightarrow> [] | Inr t \<Rightarrow> [(t, c)])
      \<and> (\<forall>t. r = Inr t \<longrightarrow> t = ce_next_ticket ce \<and> \<not> bq_closed (ce_queue ce)) \<and> ce_worker ce' = ce_worker ce
      \<and> (\<forall>err. r = Inl err \<longrightarrow> ce_queue ce' = ce_queue ce)"
    using s by (auto simp: submit_eq commands_pending_def split: if_splits)
  then show "ce_promises ce' = ce_promises ce" "ce_next_ticket ce' = ce_next_ticket ce + 1"
    "ce_engine ce' = ce_engine ce"
    "commands_pending ce' = commands_pending ce @ (case r of Inl _ \<Rightarrow> [] | Inr t \<Rightarrow> [(t, c)])" by simp_all
  show "tickets_ok ce'"
    using ok ce' unfolding tickets_ok_def by (cases r) (auto simp: less_Suc_eq)
qed

lemma tickets_ok_pop:
  assumes "tickets_ok ce" "ce_worker ce = Idle" "worker_pop ce = Some ce'"
  shows "tickets_ok ce'" "commands_pending ce' = commands_pending ce" "ce_engine ce' = ce_engine ce"
    "ce_promises ce' = ce_promises ce" "ce_next_ticket ce' = ce_next_ticket ce"
proof -
  have eq: "commands_pending ce' = commands_pending ce \<and> ce_engine ce' = ce_engine ce \<and> ce_promises ce' = ce_promises ce
      \<and> ce_next_ticket ce' = ce_next_ticket ce
      \<and> (ce_worker ce' = Finished \<longrightarrow> bq_queue (ce_queue ce') = [] \<and> bq_closed (ce_queue ce'))"
    using assms(2,3) by (auto simp: worker_pop_eq commands_pending_def in_hand_def split: list.splits if_splits)
  then show "commands_pending ce' = commands_pending ce" "ce_engine ce' = ce_engine ce"
    "ce_promises ce' = ce_promises ce" "ce_next_ticket ce' = ce_next_ticket ce" by simp_all
  show "tickets_ok ce'" using assms(1) eq by (simp add: tickets_ok_def)
qed

lemma tickets_ok_process:
  assumes ok: "tickets_ok ce" and w: "ce_worker ce = Busy t c"
    and p: "process_command ld c (ce_engine ce) = (r, e)"
  defines "ce' \<equiv> worker_process ld t c ce"
  shows "tickets_ok ce'" "commands_pending ce = (t, c) # commands_pending ce'" "ce_promises ce t = None"
    "t \<notin> fst ` set (commands_pending ce')" "ce_promises ce' = (ce_promises ce)(t \<mapsto> r)" "ce_engine ce' = e"
    "ce_next_ticket ce' = ce_next_ticket ce"
proof -
  have ce': "ce' = ce\<lparr>ce_engine := e, ce_promises := (ce_promises ce)(t \<mapsto> r), ce_worker := Idle\<rparr>"
    using p by (simp add: ce'_def worker_process_def)
  show pend: "commands_pending ce = (t, c) # commands_pending ce'"
    using w by (simp add: ce' commands_pending_def in_hand_def)
  show "ce_promises ce' = (ce_promises ce)(t \<mapsto> r)" "ce_engine ce' = e" "ce_next_ticket ce' = ce_next_ticket ce"
    by (simp_all add: ce')
  show "ce_promises ce t = None" and new: "t \<notin> fst ` set (commands_pending ce')"
    using ok unfolding tickets_ok_def pend by auto
  then show "tickets_ok ce'"
    using ok pend unfolding tickets_ok_def by (auto simp: ce' image_iff)
qed

text \<open>What the invariant needs to know of a step: the pending commands and the promises it leaves.\<close>

lemma ca_invI:
  assumes "tickets_ok (ca_engine a)"
    and "\<And>t c. (t, c) \<in> set (commands_pending (ca_engine a)) \<Longrightarrow> adapter_command c \<Longrightarrow> ca_lock a = Waiting t c"
    and "\<And>t c. ca_lock a = Waiting t c \<Longrightarrow> adapter_command c \<and> t < ce_next_ticket (ca_engine a)"
    and "\<And>t c. ca_lock a = Waiting t c \<Longrightarrow> ce_promises (ca_engine a) t = None \<Longrightarrow> (t, c) \<in> set (commands_pending (ca_engine a))"
  shows "ca_inv a"
  unfolding ca_inv_def using assms(1,3,4) assms(2) [of "fst x" "snd x" for x] by auto

lemma ca_invD:
  assumes "ca_inv a"
  shows "tickets_ok (ca_engine a)"
    "(t, c) \<in> set (commands_pending (ca_engine a)) \<Longrightarrow> adapter_command c \<Longrightarrow> ca_lock a = Waiting t c"
    "ca_lock a = Waiting t c \<Longrightarrow> adapter_command c" "ca_lock a = Waiting t c \<Longrightarrow> t < ce_next_ticket (ca_engine a)"
    "ca_lock a = Waiting t c \<Longrightarrow> ce_promises (ca_engine a) t = None \<Longrightarrow> (t, c) \<in> set (commands_pending (ca_engine a))"
  using assms unfolding ca_inv_def by auto

lemma ca_return_fields [simp]:
  "ca_engine (ca_return ld c r a) = ca_engine a" "ca_lock (ca_return ld c r a) = Free"
  "ca_symbol (ca_return ld c r a) = ca_symbol a"
  by (auto simp: ca_return_def ca_capture_after_commit_def ca_capture_def Let_def split: sum.splits prod.splits)

lemma adapter_call_cases:
  assumes "adapter_command c" "adapter_call c a = (r, a')"
  obtains (refused) err ce where "submit c (ca_engine a) = (Inl err, ce)" "r = Inl err" "a' = a\<lparr>ca_engine := ce\<rparr>"
  | (called) t ce where "submit c (ca_engine a) = (Inr t, ce)" "r = Inr ()" "a' = a\<lparr>ca_engine := ce, ca_lock := Waiting t c\<rparr>"
proof (cases "submit c (ca_engine a)")
  case (Pair r0 ce)
  have *: "adapter_call c a = (case r0 of Inl err \<Rightarrow> (Inl err, a\<lparr>ca_engine := ce\<rparr>)
      | Inr t \<Rightarrow> (Inr (), a\<lparr>ca_engine := ce, ca_lock := Waiting t c\<rparr>))"
    using Pair by (simp add: adapter_call_await [OF assms(1)] ca_await_def)
  show thesis
  proof (cases r0)
    case (Inl err)
    then show thesis using * assms(2) Pair refused [of err ce] by simp
  next
    case (Inr t)
    then show thesis using * assms(2) Pair called [of t ce] by simp
  qed
qed

lemma submit_ticket: "submit c ce = (Inr t, ce') \<Longrightarrow> t = ce_next_ticket ce"
  by (auto simp: submit_eq split: if_splits)

text \<open>The three kinds of steps that move commands: the clients around the adapter, the worker, a return.\<close>

lemma ca_inv_around:
  assumes inv: "ca_inv a" and c: "\<not> adapter_command command" "submit command (ca_engine a) = (r, ce)"
  shows "ca_inv (a\<lparr>ca_engine := ce\<rparr>)"
proof (rule ca_invI)
  note sub = tickets_ok_submit [OF ca_invD(1) [OF inv] c(2)]
  fix t d assume "(t, d) \<in> set (commands_pending (ca_engine (a\<lparr>ca_engine := ce\<rparr>)))" "adapter_command d"
  then show "ca_lock (a\<lparr>ca_engine := ce\<rparr>) = Waiting t d"
    using sub(5) c(1) ca_invD(2) [OF inv] by (auto split: sum.splits)
qed (use tickets_ok_submit [OF ca_invD(1) [OF inv] c(2)] ca_invD(3-5) [OF inv] in auto)

lemma ca_inv_served:
  assumes inv: "ca_inv a" and w: "ce_worker (ca_engine a) = Busy ticket command"
  shows "ca_inv (a\<lparr>ca_engine := worker_process ld ticket command (ca_engine a)\<rparr>)"
proof -
  let ?a' = "a\<lparr>ca_engine := worker_process ld ticket command (ca_engine a)\<rparr>"
  obtain r e where "process_command ld command (ce_engine (ca_engine a)) = (r, e)" by fastforce
  note sub = tickets_ok_process [OF ca_invD(1) [OF inv] w this]
  show ?thesis
  proof (rule ca_invI)
    fix t c assume l: "ca_lock ?a' = Waiting t c" and "ce_promises (ca_engine ?a') t = None"
    then have "t \<noteq> ticket" "ce_promises (ca_engine a) t = None" using sub(5) by (auto split: if_splits)
    then show "(t, c) \<in> set (commands_pending (ca_engine ?a'))"
      using ca_invD(5) [OF inv, of t c] l sub(2) by simp
  qed (use sub(1,2,7) ca_invD(2-4) [OF inv] in auto)
qed

lemma ca_inv_returned:
  assumes inv: "ca_inv a" and l: "ca_lock a = Waiting ticket command" "ce_promises (ca_engine a) ticket = Some r"
  shows "ca_inv (ca_return ld command r a)"
proof -
  have none: "ce_promises (ca_engine a) t = None" if "(t, c) \<in> set (commands_pending (ca_engine a))" for t c
    using ca_invD(1) [OF inv] that unfolding tickets_ok_def by fastforce
  have "\<not> adapter_command c" if "(t, c) \<in> set (commands_pending (ca_engine a))" for t c
    using ca_invD(2) [OF inv that] none [OF that] l by auto
  then show ?thesis using ca_invD(1) [OF inv] by (intro ca_invI) auto
qed

lemma ca_inv_step:
  assumes inv: "ca_inv a" and step: "ca_step ld a ev a'"
  shows "ca_inv a'"
  using step
proof cases
  case (called command ticket)
  from called(3,4) show ?thesis
  proof (cases rule: adapter_call_cases)
    case c: (called t ce)
    note sub = tickets_ok_submit [OF ca_invD(1) [OF inv] c(1)]
    show ?thesis
      by (rule ca_invI) (use sub called(2,3) c(3) submit_ticket [OF c(1)] ca_invD(2) [OF inv] in auto)
  qed simp
next
  case (refused command err)
  from refused(3,4) show ?thesis
  proof (cases rule: adapter_call_cases)
    case c: (refused err ce)
    note sub = tickets_ok_submit [OF ca_invD(1) [OF inv] c(1)]
    show ?thesis
      by (rule ca_invI) (use sub refused(2) c(3) ca_invD(2) [OF inv] in auto)
  qed simp
next
  case (returned ticket command r)
  then show ?thesis using ca_inv_returned [OF inv] by simp
next
  case (initialized r)
  then have "ca_engine a' = ca_engine a" "ca_lock a' = ca_lock a"
    by (auto simp: ca_initialize_def ca_capture_def split: prod.splits)
  then show ?thesis using inv by (simp add: ca_inv_def)
next
  case (around command r ce)
  then show ?thesis using ca_inv_around [OF inv] by simp
next
  case (popped ce)
  then show ?thesis using inv tickets_ok_pop [OF ca_invD(1) [OF inv] popped(3,4)] by (simp add: ca_inv_def)
next
  case (served ticket command)
  then show ?thesis using ca_inv_served [OF inv] by simp
next
  case closed
  have "commands_pending (shutdown_close ce) = commands_pending ce" "tickets_ok (shutdown_close ce) = tickets_ok ce"
    "ce_promises (shutdown_close ce) = ce_promises ce" "ce_next_ticket (shutdown_close ce) = ce_next_ticket ce" if "tickets_ok ce" for ce
    using that by (simp_all add: shutdown_close_def tickets_ok_def commands_pending_def bq.close_contents)
  then show ?thesis using closed inv by (simp add: ca_inv_def)
qed

lemma ca_runs_inv: "ca_runs ld start tr a \<Longrightarrow> ca_inv start \<Longrightarrow> ca_inv a"
  by (rule adapter.keeps [of ca_inv ld]) (blast intro: ca_inv_step)+

subsection \<open>Linearisation\<close>

text \<open>A served command of the adapter, seen from the sequential adapter.\<close>

definition observed_result ::
  "rounding_mode \<Rightarrow> engine_command \<Rightarrow> engine_value result \<Rightarrow> ofi_engine \<Rightarrow> ofi_engine" where
  "observed_result ld c r oe = (case r of Inl _ \<Rightarrow> oe | Inr v \<Rightarrow> if ca_committed c v then capture_after_commit ld oe else oe)"

lemma oe_call_adapter:
  assumes "adapter_command c" "process_command ld c (oe_engine oe) = (r, e)"
  shows "oe_call ld c oe = (r, observed_result ld c r (oe\<lparr>oe_engine := e\<rparr>))"
proof -
  have w: "wrapped wrap (oe_observed ld committed f oe) = (r, observed_result ld c r (oe\<lparr>oe_engine := e\<rparr>))"
    if "execute_command wrap (f (oe_engine oe)) = (r, e)" "\<And>v. ca_committed c (wrap v) = committed v"
    for f :: "matching_engine \<Rightarrow> ('a, matching_engine) outcome" and wrap committed
    using that by (cases "f (oe_engine oe)")
      (auto simp: wrapped_def oe_observed_def execute_command_def observed_result_def split: sum.splits)
  show ?thesis
    using assms by (cases c) (simp_all add: oe_call_def process_command_def adapter_command_def oe_place_limit_buy_def
        oe_place_limit_sell_def oe_cancel_order_def oe_modify_order_def oe_execute_market_buy_def
        oe_execute_market_sell_def w ca_committed_def)
qed

lemma oe_call_around:
  assumes "\<not> adapter_command c" "process_command ld c (oe_engine oe) = (r, e)"
  shows "oe_call ld c oe = (r, oe\<lparr>oe_engine := e\<rparr>)" "me_book e = me_book (oe_engine oe)"
  using assms by (cases c; auto simp: oe_call_def adapter_command_def process_command_def execute_command_def
      clear_trade_history_def)+

lemma seq_adapter_return: "seq_adapter (ca_return ld c r a) = observed_result ld c r (seq_adapter a)"
  by (auto simp: seq_adapter_def ca_return_def observed_result_def ca_capture_after_commit_def ca_capture_def
      capture_after_commit_def Let_def split: sum.splits prod.splits)

lemma observed_result_around:
  "me_book e = me_book (oe_engine oe) \<Longrightarrow>
   observed_result ld c r (oe\<lparr>oe_engine := e\<rparr>) = (observed_result ld c r oe)\<lparr>oe_engine := e\<rparr>"
  by (auto simp: observed_result_def capture_after_commit_def split: sum.splits prod.splits)

lemma observed_result_engine [simp]: "oe_engine (observed_result ld c r oe) = oe_engine oe"
  by (auto simp: observed_result_def capture_after_commit_def split: sum.splits prod.splits)

lemma seq_adapter_settled:
  "seq_adapter (settled ld a) = (case ca_lock a of
     Free \<Rightarrow> seq_adapter a
   | Waiting t c \<Rightarrow> (case ce_promises (ca_engine a) t of None \<Rightarrow> seq_adapter a | Some r \<Rightarrow> observed_result ld c r (seq_adapter a)))"
  by (simp add: settled_def seq_adapter_return split: lock_state.splits option.splits)

lemma seq_adapter_same [simp]:
  "ce_engine ce = ce_engine (ca_engine a) \<Longrightarrow> seq_adapter (a\<lparr>ca_engine := ce\<rparr>) = seq_adapter a"
  "ce_engine ce = ce_engine (ca_engine a) \<Longrightarrow> seq_adapter (a\<lparr>ca_engine := ce, ca_lock := l\<rparr>) = seq_adapter a"
  by (simp_all add: seq_adapter_def)

text \<open>The linearisation point of a call is the moment when the worker serves its command.\<close>

lemma seq_adapter_served:
  assumes inv: "ca_inv a" and w: "ce_worker (ca_engine a) = Busy ticket command"
    and p: "process_command ld command (ce_engine (ca_engine a)) = (r, e)"
  shows "oe_call ld command (seq_adapter (settled ld a))
    = (r, seq_adapter (settled ld (a\<lparr>ca_engine := worker_process ld ticket command (ca_engine a)\<rparr>)))"
proof -
  note sub = tickets_ok_process [OF ca_invD(1) [OF inv] w p]
  let ?a' = "a\<lparr>ca_engine := worker_process ld ticket command (ca_engine a)\<rparr>"
  have view: "seq_adapter ?a' = (seq_adapter a)\<lparr>oe_engine := e\<rparr>" "oe_engine (seq_adapter a) = ce_engine (ca_engine a)"
    using sub(6) by (simp_all add: seq_adapter_def)
  show ?thesis
  proof (cases "adapter_command command")
    case True
    then have "ca_lock a = Waiting ticket command" using ca_invD(2) [OF inv, of ticket command] sub(2) by simp
    then show ?thesis
      using oe_call_adapter [OF True, of ld "seq_adapter a" r e] p sub(3,5) view by (simp add: seq_adapter_settled)
  next
    case False
    have "t \<noteq> ticket" if "ca_lock a = Waiting t c" for t c
    proof
      assume "t = ticket"
      then have "(ticket, c) \<in> set (commands_pending (ca_engine a))" using ca_invD(5) [OF inv that] sub(3) by simp
      then have "c = command" using sub(2,4) by force
      then show False using ca_invD(3) [OF inv that] False by simp
    qed
    then show ?thesis
      using oe_call_around [OF False, of ld "seq_adapter (settled ld a)" r e] p view sub(5)
      by (auto simp: seq_adapter_settled observed_result_around split: lock_state.splits option.splits)
  qed
qed

lemma seq_adapter_step:
  assumes inv: "ca_inv a" and step: "ca_step ld a ev a'"
    and s: "rp_adapter s = seq_adapter (settled ld a)" "rp_results s = ce_promises (ca_engine a)"
  shows "rp_adapter (replay_event ld ev s) = seq_adapter (settled ld a')
    \<and> rp_results (replay_event ld ev s) = ce_promises (ca_engine a')
    \<and> rp_inits (replay_event ld ev s) = rp_inits s @ initializations [ev]"
  using step
proof cases
  case (called command ticket)
  from called(3,4) show ?thesis
  proof (cases rule: adapter_call_cases)
    case c: (called t ce)
    note sub = tickets_ok_submit [OF ca_invD(1) [OF inv] c(1)]
    have "ce_promises (ca_engine a) t = None"
      using ca_invD(1) [OF inv] submit_ticket [OF c(1)] unfolding tickets_ok_def by fastforce
    then show ?thesis
      using s called(1,2) c(3) sub by (simp add: replay_event_def initializations_def seq_adapter_settled)
  qed simp
next
  case (refused command err)
  from refused(3,4) show ?thesis
  proof (cases rule: adapter_call_cases)
    case c: (refused err ce)
    show ?thesis
      using s refused(1,2) c(3) tickets_ok_submit [OF ca_invD(1) [OF inv] c(1)]
      by (simp add: replay_event_def initializations_def seq_adapter_settled)
  qed simp
next
  case (returned ticket command r)
  then show ?thesis using s by (simp add: replay_event_def initializations_def seq_adapter_settled seq_adapter_return)
next
  case (initialized r)
  then have "oe_initialize ld (seq_adapter a) = (r, seq_adapter a')" "ca_engine a' = ca_engine a" "ca_lock a' = Free"
    by (auto simp: seq_adapter_def oe_initialize_def ca_initialize_def ca_capture_def split: prod.splits)
  then show ?thesis using s initialized(1,2) by (simp add: replay_event_def initializations_def seq_adapter_settled)
next
  case (around command r ce)
  then have "submit command (ca_engine a) = (r, ce)" by simp
  from tickets_ok_submit [OF ca_invD(1) [OF inv] this] show ?thesis
    using s around(1,2) by (simp add: replay_event_def initializations_def seq_adapter_settled
        split: lock_state.splits option.splits)
next
  case (popped ce)
  from tickets_ok_pop [OF ca_invD(1) [OF inv] popped(3,4)] show ?thesis
    using s popped(1,2) by (simp add: replay_event_def initializations_def seq_adapter_settled
        split: lock_state.splits option.splits)
next
  case (served ticket command)
  obtain r e where p: "process_command ld command (ce_engine (ca_engine a)) = (r, e)" by fastforce
  note sub = tickets_ok_process [OF ca_invD(1) [OF inv] served(3) p]
  have "oe_call ld command (seq_adapter (settled ld a)) = (r, seq_adapter (settled ld a'))"
    using seq_adapter_served [OF inv served(3) p] served(2) by simp
  then show ?thesis using s sub(5) served(1,2) by (simp add: replay_event_def initializations_def)
next
  case closed
  then show ?thesis using s
    by (simp add: replay_event_def initializations_def seq_adapter_settled shutdown_close_def
        split: lock_state.splits option.splits)
qed

text \<open>The promises of the calls that returned, and who asked for them.\<close>

definition calls_logged :: "flow_event list \<Rightarrow> ofi_adapter \<Rightarrow> bool" where
  "calls_logged tr a \<longleftrightarrow>
     (\<forall>t c. ca_lock a = Waiting t c \<longrightarrow> Called t c \<in> set tr \<and> (ce_promises (ca_engine a) t \<noteq> None \<longrightarrow> Served t c \<in> set tr))
     \<and> (\<forall>t r. Returned t r \<in> set tr \<longrightarrow> ce_promises (ca_engine a) t = Some r \<and> (\<exists>c. Called t c \<in> set tr \<and> Served t c \<in> set tr))"

lemma ca_step_promises:
  assumes inv: "ca_inv a" and step: "ca_step ld a ev a'"
  shows "ce_promises (ca_engine a') = ce_promises (ca_engine a)
    \<or> (\<exists>t c r. ev = Served t c \<and> ce_promises (ca_engine a) t = None \<and> ca_lock a' = ca_lock a
         \<and> ce_promises (ca_engine a') = (ce_promises (ca_engine a))(t \<mapsto> r)
         \<and> (\<forall>d. ca_lock a = Waiting t d \<longrightarrow> d = c))"
proof (cases "\<exists>t c. ev = Served t c")
  case True
  then obtain t c where ev: "ev = Served t c" by blast
  then have w: "ce_worker (ca_engine a) = Busy t c" "a' = a\<lparr>ca_engine := worker_process ld t c (ca_engine a)\<rparr>"
    using step by (auto elim: ca_step.cases)
  obtain r e where p: "process_command ld c (ce_engine (ca_engine a)) = (r, e)" by fastforce
  note sub = tickets_ok_process [OF ca_invD(1) [OF inv] w(1) p]
  have "d = c" if "ca_lock a = Waiting t d" for d
    using ca_invD(5) [OF inv that sub(3)] sub(2,4) by force
  then show ?thesis using ev w(2) sub(3,5) by auto
next
  case False
  have submit: "ce_promises ce' = ce_promises ce" if "submit c ce = (r, ce')" for c ce r ce'
    using that by (auto simp: submit_eq split: if_splits)
  have pop: "ce_promises ce' = ce_promises ce" if "worker_pop ce = Some ce'" for ce ce'
    using that by (auto simp: worker_pop_eq split: list.splits if_splits)
  from step have "ce_promises (ca_engine a') = ce_promises (ca_engine a)"
    by cases (use False submit pop in \<open>auto elim!: adapter_call_cases
        simp: ca_initialize_def ca_capture_def shutdown_close_def split: prod.splits\<close>)
  then show ?thesis ..
qed

lemma ca_step_lock:
  "ca_step ld a ev a' \<Longrightarrow> ca_lock a' = Waiting t c \<Longrightarrow> ca_lock a = Waiting t c \<or> ca_lock a = Free \<and> ev = Called t c"
  by (erule ca_step.cases) (auto elim!: adapter_call_cases simp: ca_initialize_def ca_capture_def split: prod.splits)

lemma calls_logged_step:
  assumes inv: "ca_inv a" and step: "ca_step ld a ev a'" and log: "calls_logged tr a"
  shows "calls_logged (tr @ [ev]) a'"
proof -
  note pr = ca_step_promises [OF inv step]
  have kept: "ce_promises (ca_engine a') t = Some r" if "ce_promises (ca_engine a) t = Some r" for t r
    using pr that by auto
  have lock: "Called t c \<in> set (tr @ [ev]) \<and> (ce_promises (ca_engine a') t \<noteq> None \<longrightarrow> Served t c \<in> set (tr @ [ev]))"
    if w: "ca_lock a' = Waiting t c" for t c
    using ca_step_lock [OF step w]
  proof
    assume "ca_lock a = Waiting t c"
    then show ?thesis using log pr unfolding calls_logged_def by (auto split: if_splits)
  next
    assume ev: "ca_lock a = Free \<and> ev = Called t c"
    have "ce_promises (ca_engine a') t = None"
    proof (rule ccontr)
      assume "ce_promises (ca_engine a') t \<noteq> None"
      then have "ce_promises (ca_engine a) t \<noteq> None" using pr ev by auto
      then have "t < ce_next_ticket (ca_engine a)" using ca_invD(1) [OF inv] by (auto simp: tickets_ok_def)
      moreover have "t = ce_next_ticket (ca_engine a)"
        using step ev by (auto elim!: ca_step.cases adapter_call_cases dest: submit_ticket)
      ultimately show False by simp
    qed
    then show ?thesis using ev by simp
  qed
  have "ce_promises (ca_engine a') t = Some r \<and> (\<exists>c. Called t c \<in> set (tr @ [ev]) \<and> Served t c \<in> set (tr @ [ev]))"
    if ret: "Returned t r \<in> set (tr @ [ev])" for t r
  proof (cases "Returned t r \<in> set tr")
    case True
    then show ?thesis using log kept unfolding calls_logged_def by fastforce
  next
    case False
    then have "ca_step ld a (Returned t r) a'" using ret step by simp
    then obtain c where "ca_lock a = Waiting t c" "ce_promises (ca_engine a) t = Some r" by cases
    then show ?thesis using log kept by (auto simp: calls_logged_def)
  qed
  with lock show ?thesis unfolding calls_logged_def by blast
qed

subsection \<open>Progress\<close>

text \<open>How many steps of the worker are left before the promise of a pending command is set.\<close>

fun place_of :: "nat \<Rightarrow> (nat \<times> engine_command) list \<Rightarrow> nat" where
  "place_of t [] = 0"
| "place_of t ((t', _) # xs) = (if t' = t then 1 else 2 + place_of t xs)"

definition steps_left :: "nat \<Rightarrow> concurrent_engine \<Rightarrow> nat" where
  "steps_left t ce = place_of t (commands_pending ce) + (if ce_worker ce = Idle then 1 else 0)"

lemma place_of_le: "place_of t xs \<le> 2 * length xs"
  by (induction t xs rule: place_of.induct) auto

definition worker_event :: "flow_event \<Rightarrow> bool" where
  "worker_event ev \<longleftrightarrow> ev = Popped_next \<or> (\<exists>t c. ev = Served t c)"

lemma worker_event_simps [simp]: "worker_event Popped_next" "worker_event (Served t c)"
  by (simp_all add: worker_event_def)

lemma worker_advances:
  assumes inv: "ca_inv a" and w: "ca_lock a = Waiting t c" "ce_promises (ca_engine a) t = None"
  shows "\<exists>ev a'. worker_event ev \<and> ca_step ld a ev a' \<and> ca_lock a' = Waiting t c
    \<and> (ce_promises (ca_engine a') t = None \<longrightarrow> steps_left t (ca_engine a') < steps_left t (ca_engine a))"
proof -
  let ?ce = "ca_engine a"
  have pend: "(t, c) \<in> set (commands_pending ?ce)" using ca_invD(5) [OF inv w] .
  show ?thesis
  proof (cases "ce_worker ?ce")
    case Idle
    then obtain x xs where q: "bq_queue (ce_queue ?ce) = x # xs"
      using pend by (cases "bq_queue (ce_queue ?ce)") (auto simp: commands_pending_def in_hand_def)
    let ?ce' = "?ce\<lparr>ce_queue := (ce_queue ?ce)\<lparr>bq_queue := xs\<rparr>, ce_worker := Busy (fst x) (snd x)\<rparr>"
    have pop: "worker_pop ?ce = Some ?ce'" using q by (simp add: worker_pop_eq)
    have "steps_left t ?ce' < steps_left t ?ce"
      using Idle q by (simp add: steps_left_def commands_pending_def in_hand_def)
    then show ?thesis using ca_step.popped [OF Idle pop, of ld] w
      by (intro exI [of _ Popped_next] exI [of _ "a\<lparr>ca_engine := ?ce'\<rparr>"]) simp
  next
    case (Busy t' c')
    let ?ce' = "worker_process ld t' c' ?ce"
    obtain r e where "process_command ld c' (ce_engine ?ce) = (r, e)" by fastforce
    note sub = tickets_ok_process [OF ca_invD(1) [OF inv] Busy this]
    have "steps_left t ?ce' < steps_left t ?ce" if "ce_promises ?ce' t = None"
    proof -
      have "t' \<noteq> t" using that sub(5) by auto
      then show ?thesis using sub(2) Busy by (simp add: steps_left_def worker_process_fields)
    qed
    then show ?thesis using ca_step.served [OF Busy, of ld] w
      by (intro exI [of _ "Served t' c'"] exI [of _ "a\<lparr>ca_engine := ?ce'\<rparr>"]) simp
  next
    case Finished
    then have "bq_queue (ce_queue ?ce) = []" using ca_invD(1) [OF inv] by (simp add: tickets_ok_def)
    then show ?thesis using pend Finished by (simp add: commands_pending_def in_hand_def)
  qed
qed

lemma call_returns:
  assumes "ca_runs ld start tr a" "ca_inv start" "ca_lock a = Waiting t c"
  shows "\<exists>tr' r a1. list_all worker_event tr' \<and> ca_runs ld start (tr @ tr') a1 \<and> ca_lock a1 = Waiting t c
    \<and> ce_promises (ca_engine a1) t = Some r \<and> length tr' \<le> steps_left t (ca_engine a)"
  using assms
proof (induction "steps_left t (ca_engine a)" arbitrary: tr a rule: less_induct)
  case less
  note inv = ca_runs_inv [OF less.prems(1,2)]
  show ?case
  proof (cases "ce_promises (ca_engine a) t")
    case (Some r)
    then show ?thesis using less.prems by (intro exI [of _ "[]"] exI [of _ r] exI [of _ a]) simp
  next
    case None
    obtain ev a1 where s: "worker_event ev" "ca_step ld a ev a1" "ca_lock a1 = Waiting t c"
      "ce_promises (ca_engine a1) t = None \<longrightarrow> steps_left t (ca_engine a1) < steps_left t (ca_engine a)"
      using worker_advances [OF inv less.prems(3) None, of ld] by metis
    note runs = ca_more [OF less.prems(1) s(2)]
    have pos: "0 < steps_left t (ca_engine a)"
    proof -
      obtain x xs where "commands_pending (ca_engine a) = x # xs"
        using ca_invD(5) [OF inv less.prems(3) None] by (cases "commands_pending (ca_engine a)") auto
      then show ?thesis by (cases x) (simp add: steps_left_def)
    qed
    show ?thesis
    proof (cases "ce_promises (ca_engine a1) t")
      case (Some r)
      then show ?thesis using runs s(1,3) pos by (intro exI [of _ "[ev]"] exI [of _ r] exI [of _ a1]) simp
    next
      case None
      then obtain tr' r a2 where "list_all worker_event tr'" "ca_runs ld start ((tr @ [ev]) @ tr') a2"
        "ca_lock a2 = Waiting t c" "ce_promises (ca_engine a2) t = Some r" "length tr' \<le> steps_left t (ca_engine a1)"
        using less.hyps [OF _ runs less.prems(2) s(3)] s(4) by blast
      then show ?thesis using s(1,4) None by (intro exI [of _ "ev # tr'"] exI [of _ r] exI [of _ a2]) simp
    qed
  qed
qed

subsection \<open>What the adapter guarantees\<close>

lemma replay_simps [simp]:
  "replay ld [] oe = \<lparr>rp_adapter = oe, rp_results = Map.empty, rp_inits = []\<rparr>"
  "replay ld (tr @ [ev]) oe = replay_event ld ev (replay ld tr oe)"
  by (simp_all add: replay_def)

lemma new_adapter_inv:
  assumes "new_ofi_adapter (new_concurrent_engine e) handler symbol = Inr start"
  shows "ca_inv start" "ca_lock start = Free" "ce_promises (ca_engine start) = Map.empty"
  using assms by (auto simp: new_ofi_adapter_def new_concurrent_engine_def ca_inv_def tickets_ok_def commands_pending_def
      in_hand_def new_queue_def split: if_splits)

lemma ca_runs_replay:
  assumes "ca_runs ld start tr a" "ca_inv start" "ca_lock start = Free" "ce_promises (ca_engine start) = Map.empty"
  shows "rp_adapter (replay ld tr (seq_adapter start)) = seq_adapter (settled ld a)
    \<and> rp_results (replay ld tr (seq_adapter start)) = ce_promises (ca_engine a)
    \<and> rp_inits (replay ld tr (seq_adapter start)) = initializations tr \<and> calls_logged tr a"
  using assms(1)
proof induction
  case ca_start
  then show ?case using assms(3,4) by (simp add: settled_def initializations_def calls_logged_def)
next
  case (ca_more tr a ev a')
  note inv = ca_runs_inv [OF ca_more.hyps(1) assms(2)]
  from seq_adapter_step [OF inv ca_more.hyps(2), of "replay ld tr (seq_adapter start)"] ca_more.IH
    calls_logged_step [OF inv ca_more.hyps(2), of tr]
  show ?case by (simp add: initializations_def)
qed

text \<open>C7 The adapter over the concurrent engine is the sequential adapter: in every interleaving of adapter
  calls, the worker thread, shutdown and clients that read orders and trades or clear the trades, the
  engine is the one that the sequential adapter has after the commands in the order in which they were
  served, each captured at once; whenever the mutex is free the indicator and its health are the
  sequential ones too; every call that returned gave the sequential result of its own command, and every
  \<open>initialize\<close> its sequential outcome.\<close>
theorem adapter_linearises:
  assumes "new_ofi_adapter (new_concurrent_engine e) handler symbol = Inr start" "ca_runs ld start tr a"
    and "replay ld tr (seq_adapter start) = s"
  shows "ce_engine (ca_engine a) = oe_engine (rp_adapter s) \<and> (ca_lock a = Free \<longrightarrow> seq_adapter a = rp_adapter s)
    \<and> initializations tr = rp_inits s
    \<and> (\<forall>t r. Returned t r \<in> set tr \<longrightarrow>
         rp_results s t = Some r \<and> (\<exists>c. Called t c \<in> set tr \<and> Served t c \<in> set tr))"
proof -
  note start = new_adapter_inv [OF assms(1)]
  note rp = ca_runs_replay [OF assms(2) start, unfolded assms(3)]
  have "oe_engine (seq_adapter (settled ld a)) = ce_engine (ca_engine a)"
    by (simp add: seq_adapter_settled split: lock_state.splits option.splits) (simp add: seq_adapter_def)
  then show ?thesis using rp unfolding calls_logged_def by (auto simp: settled_def)
qed

text \<open>C13 A call of the adapter never waits for ever on the engine: from every reachable state in which a call
  holds the mutex, steps of the worker alone (it pops or serves a command), at most two per pending
  command and one, set the promise of the call, and then the call's own next step is to return with
  the promised result and free the mutex; also when the engine was shut down meanwhile.\<close>
theorem adapter_call_returns:
  assumes "new_ofi_adapter (new_concurrent_engine e) handler symbol = Inr start" "ca_runs ld start tr a"
    and "ca_lock a = Waiting t c"
  shows "\<exists>tr' r a1 a'. list_all worker_event tr' \<and> length tr' \<le> 2 * length (commands_pending (ca_engine a)) + 1
    \<and> ca_runs ld start (tr @ tr') a1 \<and> ce_promises (ca_engine a1) t = Some r
    \<and> ca_step ld a1 (Returned t r) a' \<and> ca_lock a' = Free"
proof -
  have "steps_left t (ca_engine a) \<le> 2 * length (commands_pending (ca_engine a)) + 1"
    using place_of_le [of t "commands_pending (ca_engine a)"] by (simp add: steps_left_def)
  moreover obtain tr' r a1 where run: "list_all worker_event tr'" "ca_runs ld start (tr @ tr') a1"
    "ca_lock a1 = Waiting t c" "ce_promises (ca_engine a1) t = Some r" "length tr' \<le> steps_left t (ca_engine a)"
    using call_returns [OF assms(2) new_adapter_inv(1) [OF assms(1)] assms(3)] by blast
  moreover have "ca_lock (ca_return ld c r a1) = Free" by simp
  ultimately show ?thesis using returned [OF run(3,4), of ld]
    by (intro exI [of _ tr'] exI [of _ r] exI [of _ a1] exI [of _ "ca_return ld c r a1"]) simp
qed

subsection \<open>A run\<close>

definition flow_start :: ofi_adapter where
  "flow_start = \<lparr>ca_engine = new_concurrent_engine (new_engine 10 10 empty_book),
     ca_handler = \<lparr>oh_ofi = \<lparr>fi_window_size = 3, fi_symbols = Map.empty\<rparr>, oh_before_capture = (\<lambda>_. None)\<rparr>,
     ca_symbol = ''S'', ca_analytics_healthy = True, ca_lock = Free\<rparr>"

definition flow_called :: ofi_adapter where
  "flow_called = snd (adapter_call (Place_limit_buy 99 4) flow_start)"

definition flow_popped :: ofi_adapter where
  "flow_popped = flow_called\<lparr>ca_engine := the (worker_pop (ca_engine flow_called))\<rparr>"

definition flow_served :: ofi_adapter where
  "flow_served = flow_popped\<lparr>ca_engine := worker_process (\<lambda>x. x) 0 (Place_limit_buy 99 4) (ca_engine flow_popped)\<rparr>"

lemma flow_runs:
  shows "ca_runs (\<lambda>x. x) flow_start [Called 0 (Place_limit_buy 99 4)] flow_called"
    "ca_runs (\<lambda>x. x) flow_start [Called 0 (Place_limit_buy 99 4), Popped_next, Served 0 (Place_limit_buy 99 4),
       Returned 0 (Inr (Order_id_value 1))] (ca_return (\<lambda>x. x) (Place_limit_buy 99 4) (Inr (Order_id_value 1)) flow_served)"
proof -
  let ?c = "Place_limit_buy 99 4"
  have f: "ca_lock flow_start = Free" "adapter_command ?c" "fst (adapter_call ?c flow_start) = Inr ()"
    "ca_lock flow_called = Waiting 0 ?c" "ce_worker (ca_engine flow_called) = Idle"
    "worker_pop (ca_engine flow_called) \<noteq> None" "ce_worker (ca_engine flow_popped) = Busy 0 ?c"
    "ca_lock flow_served = Waiting 0 ?c" "ce_promises (ca_engine flow_served) 0 = Some (Inr (Order_id_value 1))"
    by code_simp+
  have "adapter_call ?c flow_start = (Inr (), flow_called)" using f(3) by (simp add: flow_called_def prod_eq_iff)
  from ca_more [OF ca_start called [OF f(1,2) this f(4)]]
  show one: "ca_runs (\<lambda>x. x) flow_start [Called 0 ?c] flow_called" by simp
  have "worker_pop (ca_engine flow_called) = Some (the (worker_pop (ca_engine flow_called)))" using f(6) by simp
  from popped [OF f(5) this] have two: "ca_step (\<lambda>x. x) flow_called Popped_next flow_popped" by (simp add: flow_popped_def)
  from served [OF f(7)] have three: "ca_step (\<lambda>x. x) flow_popped (Served 0 ?c) flow_served" by (simp add: flow_served_def)
  from ca_more [OF ca_more [OF ca_more [OF one two] three] returned [OF f(8,9)]]
  show "ca_runs (\<lambda>x. x) flow_start [Called 0 ?c, Popped_next, Served 0 ?c, Returned 0 (Inr (Order_id_value 1))]
      (ca_return (\<lambda>x. x) ?c (Inr (Order_id_value 1)) flow_served)" by simp
qed

theorem adapter_linearises_witness:
  "rp_results (replay (\<lambda>x. x) [Called 0 (Place_limit_buy 99 4), Popped_next, Served 0 (Place_limit_buy 99 4),
       Returned 0 (Inr (Order_id_value 1))] (seq_adapter flow_start)) 0 = Some (Inr (Order_id_value 1))"
  using adapter_linearises [OF _ flow_runs(2) refl, of "new_engine 10 10 empty_book" "ca_handler flow_start" "''S''"]
  by (simp add: new_ofi_adapter_def flow_start_def)

theorem adapter_call_returns_witness:
  "\<exists>tr' r a1 a'. list_all worker_event tr' \<and> length tr' \<le> 3
     \<and> ca_runs (\<lambda>x. x) flow_start ([Called 0 (Place_limit_buy 99 4)] @ tr') a1
     \<and> ca_step (\<lambda>x. x) a1 (Returned 0 r) a' \<and> ca_lock a' = Free"
proof -
  have "new_ofi_adapter (new_concurrent_engine (new_engine 10 10 empty_book)) (ca_handler flow_start) ''S'' = Inr flow_start"
    by (simp add: new_ofi_adapter_def flow_start_def)
  moreover have "ca_lock flow_called = Waiting 0 (Place_limit_buy 99 4)" "length (commands_pending (ca_engine flow_called)) = 1"
    by code_simp+
  ultimately show ?thesis using adapter_call_returns [OF _ flow_runs(1)] by fastforce
qed

end
