(* ===== verification/Fixed_Point.thy ===== *)
theory Fixed_Point
  imports Prelude
begin

text \<open>
  Decimal numerals as fixed point integers with six decimal places: \<open>parse_fixed_nonnegative\<close> and
  \<open>OrderBook::format_price\<close> of \<open>src/order_book.cpp\<close>, \<open>format_quantity\<close> of \<open>src/websocket_client.cpp\<close>.
  The position in the string is the rest of the string that is still to be read. The digit loops
  are recursive functions; the locals they change are their arguments.
\<close>

subsection \<open>Characters and streams\<close>

definition isdigit :: "char \<Rightarrow> bool" where
  "isdigit c \<longleftrightarrow> 48 \<le> (of_char c :: nat) \<and> (of_char c :: nat) \<le> 57"

definition digit_value :: "char \<Rightarrow> int" where
  "digit_value c = of_char c - 48"

text \<open>What \<open>operator<<\<close> writes for an integer, and \<open>setw\<close> with \<open>setfill\<close> for right-justified output.\<close>

fun show_nat :: "nat \<Rightarrow> string" where
  "show_nat n = (if n < 10 then [char_of (48 + n)] else show_nat (n div 10) @ [char_of (48 + n mod 10)])"

declare show_nat.simps [simp del]

definition show_int :: "int \<Rightarrow> string" where
  "show_int z = (if z < 0 then CHR ''-'' # show_nat (nat (- z)) else show_nat (nat z))"

definition pad_left :: "char \<Rightarrow> nat \<Rightarrow> string \<Rightarrow> string" where
  "pad_left fill w s = replicate (w - length s) fill @ s"

subsection \<open>Parsing\<close>

definition ticks_per_unit :: int where
  "ticks_per_unit = 1000000"

definition too_large :: "string \<Rightarrow> cpp_error" where
  "too_large field_name = Overflow_error (field_name @ '' is too large.'')"

text \<open>The loop over the digits before the point: the value, whether there was a digit, the rest.\<close>

fun whole_digits :: "string \<Rightarrow> string \<Rightarrow> int \<Rightarrow> bool \<Rightarrow> (int \<times> bool \<times> string) result" where
  "whole_digits field_name [] whole_part has_whole_digits = Inr (whole_part, has_whole_digits, [])"
| "whole_digits field_name (c # cs) whole_part has_whole_digits =
     (if isdigit c
      then (let digit = digit_value c
            in if whole_part > cdiv (INT64_MAX - digit) 10 then Inl (too_large field_name)
               else whole_digits field_name cs (whole_part * 10 + digit) True)
      else Inr (whole_part, has_whole_digits, c # cs))"

text \<open>The loop over the digits after the point: the value, how many there were, the rest.\<close>

fun fraction_digits :: "string \<Rightarrow> string \<Rightarrow> int \<Rightarrow> nat \<Rightarrow> (int \<times> nat \<times> string) result" where
  "fraction_digits field_name [] fractional_part fractional_digits = Inr (fractional_part, fractional_digits, [])"
| "fraction_digits field_name (c # cs) fractional_part fractional_digits =
     (if isdigit c
      then (if fractional_digits \<ge> 6
            then Inl (Invalid_argument (field_name @ '' supports at most 6 decimal places.''))
            else fraction_digits field_name cs (fractional_part * 10 + digit_value c) (fractional_digits + 1))
      else Inr (fractional_part, fractional_digits, c # cs))"

function scale_fraction :: "int \<Rightarrow> nat \<Rightarrow> int" where
  "scale_fraction fractional_part fractional_digits =
     (if fractional_digits < 6 then scale_fraction (fractional_part * 10) (fractional_digits + 1)
      else fractional_part)"
  by pat_completeness auto
termination by (relation "measure (\<lambda>(f, n). 6 - n)") auto

declare scale_fraction.simps [simp del]

definition skip_sign :: "string \<Rightarrow> string \<Rightarrow> string result" where
  "skip_sign field_name value =
     (case value of
        [] \<Rightarrow> Inl (Invalid_argument (field_name @ '' cannot be empty.''))
      | c # cs \<Rightarrow>
          if c = CHR ''+'' then Inr cs
          else if c = CHR ''-'' then Inl (Invalid_argument (field_name @ '' cannot be negative.''))
          else Inr (c # cs))"

definition invalid_field :: "string \<Rightarrow> cpp_error" where
  "invalid_field field_name = Invalid_argument (''Invalid '' @ field_name @ ''.'')"

text \<open>The numeral after the sign.\<close>

definition parse_unsigned :: "string \<Rightarrow> string \<Rightarrow> int result" where
  "parse_unsigned field_name rest =
     (if rest = [] then Inl (invalid_field field_name)
       else and_then (whole_digits field_name rest 0 False) (\<lambda>(whole_part, has_whole_digits, rest1).
         and_then (case rest1 of
                     [] \<Rightarrow> Inr (0, 0, rest1)
                   | c # cs \<Rightarrow> if c = CHR ''.'' then fraction_digits field_name cs 0 0 else Inr (0, 0, rest1))
           (\<lambda>(fractional_part, fractional_digits, rest2).
              if \<not> has_whole_digits \<and> fractional_digits = 0 then Inl (invalid_field field_name)
              else if rest2 \<noteq> [] then Inl (Invalid_argument (field_name @ '' contains invalid characters.''))
              else (let fractional = scale_fraction fractional_part fractional_digits
                    in if whole_part > cdiv (INT64_MAX - fractional) ticks_per_unit
                       then Inl (too_large field_name)
                       else Inr (whole_part * ticks_per_unit + fractional)))))"

definition parse_fixed_nonnegative :: "string \<Rightarrow> string \<Rightarrow> int result" where
  "parse_fixed_nonnegative value field_name = and_then (skip_sign field_name value) (parse_unsigned field_name)"

definition price_to_ticks :: "string \<Rightarrow> int result" where
  "price_to_ticks price = parse_fixed_nonnegative price ''Price''"

definition quantity_to_fixed :: "string \<Rightarrow> int result" where
  "quantity_to_fixed quantity = parse_fixed_nonnegative quantity ''Quantity''"

subsection \<open>Printing\<close>

text \<open>The three lambdas of \<open>format_price\<close>: ten to the power of \<open>places\<close>, by repeated multiplication.\<close>

fun power_of_ten :: "nat \<Rightarrow> int" where
  "power_of_ten 0 = 1"
| "power_of_ten (Suc places) = power_of_ten places * 10"

definition format_price :: "int \<Rightarrow> nat \<Rightarrow> string result" where
  "format_price price_ticks decimal_places =
     (if price_ticks < 0 then Inl (Invalid_argument ''Price cannot be negative.'')
      else if decimal_places > 6 then Inl (Invalid_argument ''Decimal places cannot exceed 6.'')
      else (let scaled = cdiv price_ticks (power_of_ten (6 - decimal_places));
                whole = cdiv scaled (power_of_ten decimal_places);
                fractional = cmod scaled (power_of_ten decimal_places)
            in Inr (show_int whole
                 @ (if decimal_places > 0
                    then ''.'' @ pad_left CHR ''0'' decimal_places (show_int fractional) else []))))"

text \<open>The loop that pops zeros off the back.\<close>

fun pop_zeros :: "string \<Rightarrow> string" where
  "pop_zeros value = (if value \<noteq> [] \<and> last value = CHR ''0'' then pop_zeros (butlast value) else value)"

declare pop_zeros.simps [simp del]

definition format_quantity :: "int \<Rightarrow> string" where
  "format_quantity quantity =
     (let whole = cdiv quantity ticks_per_unit;
          fractional = cmod quantity ticks_per_unit
      in if fractional \<noteq> 0
         then pop_zeros (show_int whole @ ''.'' @ pad_left CHR ''0'' 6 (show_int fractional))
         else show_int whole)"

subsection \<open>The value of a digit string\<close>

definition digits_from :: "int \<Rightarrow> string \<Rightarrow> int" where
  "digits_from a ds = foldl (\<lambda>v c. v * 10 + digit_value c) a ds"

abbreviation digits :: "string \<Rightarrow> bool" where
  "digits ds \<equiv> list_all isdigit ds"

lemma digits_from_simps [simp]:
  "digits_from a [] = a" "digits_from a (c # cs) = digits_from (a * 10 + digit_value c) cs"
  "digits_from a (xs @ ys) = digits_from (digits_from a xs) ys"
  by (simp_all add: digits_from_def)

lemma isdigit_value: "isdigit c \<Longrightarrow> 0 \<le> digit_value c \<and> digit_value c \<le> 9"
proof -
  assume c: "isdigit c"
  have "(of_char c :: int) = int (of_char c)" by (simp only: of_nat_of_char)
  with c show ?thesis unfolding isdigit_def digit_value_def by linarith
qed

lemma digits_from_ge: "digits ds \<Longrightarrow> 0 \<le> a \<Longrightarrow> a \<le> digits_from a ds"
proof (induction ds arbitrary: a)
  case (Cons c cs)
  then have "0 \<le> digit_value c" using isdigit_value by simp
  then have "a \<le> a * 10 + digit_value c" "0 \<le> a * 10 + digit_value c" using Cons.prems(2) by simp_all
  then show ?case using Cons.IH [of "a * 10 + digit_value c"] Cons.prems by simp
qed simp

lemma zeros [simp]: "digits (replicate n CHR ''0'')" "digits_from 0 (replicate n CHR ''0'') = 0"
  by (induction n) (simp_all add: digit_value_def isdigit_def)

lemma digits_split:
  assumes "digits ds" "rest = [] \<or> \<not> isdigit (hd rest)"
  shows "takeWhile isdigit (ds @ rest) = ds" "dropWhile isdigit (ds @ rest) = rest"
  using assms by (cases rest; simp add: list_all_iff takeWhile_append2)+

lemma all_digits:
  assumes "digits ds"
  shows "takeWhile isdigit ds = ds" "dropWhile isdigit ds = []"
  using digits_split [OF assms, of "[]"] by simp_all

lemma digits_takeWhile [simp]: "digits (takeWhile isdigit s)"
  by (induction s) simp_all

lemma dropWhile_no_digit: "dropWhile isdigit s = [] \<or> \<not> isdigit (hd (dropWhile isdigit s))"
  using hd_dropWhile by blast

subsection \<open>What the loops compute\<close>

lemma whole_digits_eq:
  assumes "0 \<le> a" "a \<le> INT64_MAX"
  shows "whole_digits field s a h =
    (let w = takeWhile isdigit s
     in if digits_from a w \<le> INT64_MAX then Inr (digits_from a w, h \<or> w \<noteq> [], dropWhile isdigit s)
        else Inl (too_large field))"
  using assms
proof (induction s arbitrary: a h)
  case (Cons c cs)
  show ?case
  proof (cases "isdigit c")
    case True
    note d = isdigit_value [OF True]
    have le: "a > cdiv (INT64_MAX - digit_value c) 10 \<longleftrightarrow> a * 10 + digit_value c > INT64_MAX"
      using d by (simp add: INT64_MAX_def) linarith
    show ?thesis
    proof (cases "a * 10 + digit_value c > INT64_MAX")
      case True
      then have "digits_from (a * 10 + digit_value c) (takeWhile isdigit cs) > INT64_MAX"
        using digits_from_ge [of "takeWhile isdigit cs" "a * 10 + digit_value c"] d Cons.prems(1) by simp
      then show ?thesis using True le \<open>isdigit c\<close> by (simp add: Let_def)
    next
      case False
      then show ?thesis using le \<open>isdigit c\<close> Cons.IH [of "a * 10 + digit_value c" True] Cons.prems(1) d
        by (simp add: Let_def)
    qed
  qed (use Cons.prems in simp)
qed simp

lemma fraction_digits_eq:
  assumes "n \<le> 6"
  shows "fraction_digits field s a n =
    (let w = takeWhile isdigit s
     in if n + length w \<le> 6 then Inr (digits_from a w, n + length w, dropWhile isdigit s)
        else Inl (Invalid_argument (field @ '' supports at most 6 decimal places.'')))"
  using assms
proof (induction s arbitrary: a n)
  case (Cons c cs)
  show ?case
  proof (cases "isdigit c \<and> n < 6")
    case True
    then show ?thesis using Cons.IH [of "Suc n" "a * 10 + digit_value c"] by (simp add: Let_def)
  qed (use Cons.prems in \<open>auto simp: Let_def\<close>)
qed simp

lemma scale_fraction_eq: "n \<le> 6 \<Longrightarrow> scale_fraction a n = a * 10 ^ (6 - n)"
proof (induction a n rule: scale_fraction.induct)
  case (1 a n)
  show ?case
  proof (cases "n < 6")
    case True
    then have "(10::int) ^ (6 - n) = 10 * 10 ^ (6 - Suc n)" by (metis Suc_diff_Suc power_Suc)
    then show ?thesis using 1 True by (simp add: scale_fraction.simps [of a])
  qed (use 1 in \<open>simp add: scale_fraction.simps\<close>)
qed

subsection \<open>Parsing accepts exactly the numerals that fit\<close>

text \<open>
  The numerals: an optional plus sign, digits, optionally a point and at most six digits, at least
  one digit in all. The value is counted in millionths.
\<close>

definition denotes :: "string \<Rightarrow> int \<Rightarrow> bool" where
  "denotes s v \<longleftrightarrow> (\<exists>sign w fr. sign \<in> {[], ''+''} \<and> digits w \<and> digits fr \<and> (w \<noteq> [] \<or> fr \<noteq> []) \<and> length fr \<le> 6
     \<and> (s = sign @ w @ ''.'' @ fr \<or> fr = [] \<and> s = sign @ w)
     \<and> v = digits_from 0 w * 10 ^ 6 + digits_from 0 fr * 10 ^ (6 - length fr))"

lemma digits_no_sign: "digits (c # cs) \<Longrightarrow> c \<noteq> CHR ''+'' \<and> c \<noteq> CHR ''-'' \<and> c \<noteq> CHR ''.''"
  by (auto simp: isdigit_def)

lemma digits_from_less: "digits ds \<Longrightarrow> 0 \<le> a \<Longrightarrow> digits_from a ds < (a + 1) * 10 ^ length ds"
proof (induction ds arbitrary: a)
  case (Cons c cs)
  have d: "0 \<le> digit_value c" "digit_value c \<le> 9" using Cons.prems isdigit_value by simp_all
  have "digits_from (a * 10 + digit_value c) cs < (a * 10 + digit_value c + 1) * 10 ^ length cs"
    using Cons.IH [of "a * 10 + digit_value c"] Cons.prems d by simp
  also have "\<dots> \<le> ((a + 1) * 10) * 10 ^ length cs" using d(2) by (intro mult_right_mono) simp_all
  finally show ?case by (simp add: algebra_simps)
qed simp

lemma fraction_less:
  assumes "digits fr" "length fr \<le> 6"
  shows "0 \<le> digits_from 0 fr * 10 ^ (6 - length fr)" "digits_from 0 fr * 10 ^ (6 - length fr) < 10 ^ 6"
proof -
  show "0 \<le> digits_from 0 fr * 10 ^ (6 - length fr)" using digits_from_ge [OF assms(1), of 0] by simp
  have "digits_from 0 fr * 10 ^ (6 - length fr) < 10 ^ length fr * 10 ^ (6 - length fr)"
    using digits_from_less [OF assms(1), of 0] by simp
  also have "\<dots> = (10::int) ^ 6" using assms(2) by (simp flip: power_add)
  finally show "digits_from 0 fr * 10 ^ (6 - length fr) < 10 ^ 6" .
qed

lemma fits_iff:
  assumes "0 \<le> (f::int)" "f < 10 ^ 6"
  shows "w > cdiv (INT64_MAX - f) ticks_per_unit \<longleftrightarrow> w * ticks_per_unit + f > INT64_MAX"
  using assms by (simp add: INT64_MAX_def ticks_per_unit_def) linarith

lemma parse_unsigned_numeral:
  assumes w: "digits w" and fr: "digits fr" "length fr \<le> 6" and ne: "w \<noteq> [] \<or> fr \<noteq> []"
    and s: "s = w @ ''.'' @ fr \<or> fr = [] \<and> s = w"
    and v: "v = digits_from 0 w * 10 ^ 6 + digits_from 0 fr * 10 ^ (6 - length fr)"
  shows "parse_unsigned field s = (if v \<le> INT64_MAX then Inr v else Inl (too_large field))"
proof -
  define rest where "rest = (if s = w then [] else ''.'' @ fr)"
  have rest: "s = w @ rest" "rest = [] \<and> fr = [] \<or> rest = ''.'' @ fr" using s by (auto simp: rest_def)
  have nd: "rest = [] \<or> \<not> isdigit (hd rest)" using rest(2) by (auto simp: isdigit_def)
  note tw = digits_split [OF w nd]
  have w0: "0 \<le> digits_from 0 w" using digits_from_ge [OF w] by simp
  note f = fraction_less [OF fr]
  have max: "0 \<le> INT64_MAX" by (simp add: INT64_MAX_def)
  have sne: "s \<noteq> []" using ne rest by auto
  have whole: "whole_digits field s 0 False =
      (if digits_from 0 w \<le> INT64_MAX then Inr (digits_from 0 w, w \<noteq> [], rest) else Inl (too_large field))"
    using whole_digits_eq [OF order_refl max, of field s False] tw rest(1) by (simp add: Let_def)
  have frac: "(case rest of [] \<Rightarrow> Inr (0, 0, rest)
      | c # cs \<Rightarrow> if c = CHR ''.'' then fraction_digits field cs 0 0 else Inr (0, 0, rest))
      = Inr (digits_from 0 fr, length fr, [])"
    using rest(2) fraction_digits_eq [of 0 field fr 0] fr(2) unfolding all_digits [OF fr(1)] by (auto simp: Let_def)
  have v': "v = digits_from 0 w * ticks_per_unit + digits_from 0 fr * 10 ^ (6 - length fr)"
    using v by (simp add: ticks_per_unit_def)
  show ?thesis
  proof (cases "digits_from 0 w \<le> INT64_MAX")
    case True
    then show ?thesis
      using fits_iff [OF f, of "digits_from 0 w"] whole frac sne ne
      by (simp add: parse_unsigned_def scale_fraction_eq [OF fr(2)] Let_def v')
  next
    case False
    then have "v > INT64_MAX" using w0 f(1) unfolding v' ticks_per_unit_def by linarith
    then show ?thesis using False whole sne by (simp add: parse_unsigned_def)
  qed
qed

lemma parse_unsigned_shape:
  assumes "parse_unsigned field s = Inr v"
  shows "\<exists>w fr. digits w \<and> digits fr \<and> length fr \<le> 6 \<and> (w \<noteq> [] \<or> fr \<noteq> [])
    \<and> (s = w @ ''.'' @ fr \<or> fr = [] \<and> s = w)"
proof -
  let ?w = "takeWhile isdigit s" and ?r = "dropWhile isdigit s"
  have s: "s = ?w @ ?r" by simp
  have whole: "whole_digits field s 0 False = Inr (digits_from 0 ?w, ?w \<noteq> [], ?r)"
    using assms whole_digits_eq [of 0 field s False]
    by (auto simp: parse_unsigned_def Let_def INT64_MAX_def split: if_splits)
  show ?thesis
  proof (cases "\<exists>cs. ?r = CHR ''.'' # cs")
    case True
    then obtain cs where r: "?r = CHR ''.'' # cs" by blast
    let ?f = "takeWhile isdigit cs"
    from assms whole r have "length ?f \<le> 6" "dropWhile isdigit cs = []" "?w \<noteq> [] \<or> ?f \<noteq> []"
      using fraction_digits_eq [of 0 field cs 0] by (auto simp: parse_unsigned_def Let_def split: if_splits)
    moreover from this(2) have "?f = cs" by (metis append_Nil2 takeWhile_dropWhile_id)
    ultimately show ?thesis using r s digits_takeWhile [of s] digits_takeWhile [of cs]
      by (metis append_Cons append_Nil)
  next
    case False
    then have "(case ?r of [] \<Rightarrow> Inr (0, 0, ?r)
        | c # cs \<Rightarrow> if c = CHR ''.'' then fraction_digits field cs 0 0 else Inr (0, 0, ?r)) = Inr (0, 0, ?r)"
      by (auto split: list.split)
    then have "?r = []" "?w \<noteq> []"
      using assms whole by (auto simp: parse_unsigned_def split: if_splits)
    then have sw: "s = ?w" by (metis s append_Nil2)
    have "digits ?w \<and> digits [] \<and> length [] \<le> 6 \<and> (?w \<noteq> [] \<or> [] \<noteq> []) \<and> (s = ?w @ ''.'' @ [] \<or> [] = [] \<and> s = ?w)"
      using \<open>?w \<noteq> []\<close> sw digits_takeWhile [of s] by fastforce
    then show ?thesis by blast
  qed
qed

lemma skip_sign_digits:
  assumes "digits w" "w \<noteq> [] \<or> s = w @ ''.'' @ fr" "s = w @ ''.'' @ fr \<or> fr = [] \<and> s = w"
  shows "skip_sign field s = Inr s" "skip_sign field (CHR ''+'' # s) = Inr s"
proof -
  obtain c cs where s: "s = c # cs" using assms by (cases s) auto
  have "c \<noteq> CHR ''+'' \<and> c \<noteq> CHR ''-''"
    using assms s digits_no_sign by (cases w) auto
  then show "skip_sign field s = Inr s" using s by (simp add: skip_sign_def)
qed (simp add: skip_sign_def)

lemma parse_denotes:
  assumes "denotes s v"
  shows "parse_fixed_nonnegative s field = (if v \<le> INT64_MAX then Inr v else Inl (too_large field))"
proof -
  obtain sign w fr where d: "sign \<in> {[], ''+''}" "digits w" "digits fr" "w \<noteq> [] \<or> fr \<noteq> []" "length fr \<le> 6"
    "s = sign @ w @ ''.'' @ fr \<or> fr = [] \<and> s = sign @ w"
    "v = digits_from 0 w * 10 ^ 6 + digits_from 0 fr * 10 ^ (6 - length fr)"
    using assms unfolding denotes_def by blast
  obtain u where u: "s = sign @ u" "u = w @ ''.'' @ fr \<or> fr = [] \<and> u = w" using d(6) by blast
  have "skip_sign field s = Inr u"
    using skip_sign_digits [OF d(2) _ u(2)] d(1,4) u by auto
  then show ?thesis
    using parse_unsigned_numeral [OF d(2,3,5,4) u(2) d(7)] by (simp add: parse_fixed_nonnegative_def)
qed

lemma parse_Inr_iff: "parse_fixed_nonnegative s field = Inr v \<longleftrightarrow> denotes s v \<and> v \<le> INT64_MAX"
proof
  assume p: "parse_fixed_nonnegative s field = Inr v"
  then obtain u where u: "skip_sign field s = Inr u" "parse_unsigned field u = Inr v"
    by (auto simp: parse_fixed_nonnegative_def and_then_eq_Inr_iff)
  obtain sign where sign: "sign \<in> {[], ''+''}" "s = sign @ u"
    using u(1) by (auto simp: skip_sign_def split: list.splits if_splits)
  from parse_unsigned_shape [OF u(2)] obtain w fr where w: "digits w" "digits fr" "length fr \<le> 6"
    "w \<noteq> [] \<or> fr \<noteq> []" "u = w @ ''.'' @ fr \<or> fr = [] \<and> u = w" by blast
  let ?v = "digits_from 0 w * 10 ^ 6 + digits_from 0 fr * 10 ^ (6 - length fr)"
  have d: "denotes s ?v" unfolding denotes_def using sign w by blast
  from parse_denotes [OF this, of field] p have "?v = v" "v \<le> INT64_MAX" by (auto split: if_splits)
  with d show "denotes s v \<and> v \<le> INT64_MAX" by simp
next
  assume "denotes s v \<and> v \<le> INT64_MAX"
  then show "parse_fixed_nonnegative s field = Inr v" using parse_denotes [of s v field] by simp
qed

subsection \<open>Printing writes numerals\<close>

lemma show_digit: "n < 10 \<Longrightarrow> isdigit (char_of (48 + n)) \<and> digit_value (char_of (48 + n)) = int n"
proof -
  assume n: "n < 10"
  have c: "(of_char (char_of (48 + n)) :: nat) = 48 + n" using n by (simp add: of_char_of take_bit_eq_mod)
  have "(of_char (char_of (48 + n)) :: int) = int (of_char (char_of (48 + n)))"
    by (simp only: of_nat_of_char)
  then show ?thesis using n c unfolding isdigit_def digit_value_def by simp
qed

lemma show_nat_digits: "digits (show_nat n) \<and> show_nat n \<noteq> [] \<and> digits_from 0 (show_nat n) = int n"
proof (induction n rule: show_nat.induct)
  case (1 n)
  have "n mod 10 < 10" by simp
  note d = show_digit [OF this]
  have n: "int (n div 10) * 10 + int (n mod 10) = int n"
    by (metis div_mult_mod_eq of_nat_add of_nat_mult of_nat_numeral)
  show ?case
  proof (cases "n < 10")
    case False
    then have "show_nat n = show_nat (n div 10) @ [char_of (48 + n mod 10)]" by (simp only: show_nat.simps [of n] if_False)
    then show ?thesis using 1 [OF False] d n by (simp del: of_nat_div of_nat_mod)
  qed (use show_digit [of n] in \<open>simp add: show_nat.simps [of n]\<close>)
qed

lemma show_nat_length: "n < 10 ^ k \<Longrightarrow> 0 < k \<Longrightarrow> length (show_nat n) \<le> k"
proof (induction n arbitrary: k rule: show_nat.induct)
  case (1 n)
  show ?case
  proof (cases "n < 10")
    case False
    then obtain j where j: "k = Suc j" "0 < j" using 1(2,3) by (cases k; cases "k - 1") auto
    then have "n div 10 < 10 ^ j" using 1(2) by (simp add: less_mult_imp_div_less mult.commute)
    then show ?thesis using 1(1) [OF False _ j(2)] j(1) False by (simp add: show_nat.simps [of n])
  qed (use 1 in \<open>simp add: show_nat.simps\<close>)
qed

lemma padded_digits:
  assumes "int n < 10 ^ k" "0 < k"
  shows "digits (pad_left CHR ''0'' k (show_int (int n)))" "length (pad_left CHR ''0'' k (show_int (int n))) = k"
    "digits_from 0 (pad_left CHR ''0'' k (show_int (int n))) = int n"
proof -
  have "n < 10 ^ k" using assms(1) by (metis of_nat_less_iff of_nat_numeral of_nat_power)
  then have len: "length (show_nat n) \<le> k" using show_nat_length assms(2) by blast
  show "digits (pad_left CHR ''0'' k (show_int (int n)))" "length (pad_left CHR ''0'' k (show_int (int n))) = k"
    "digits_from 0 (pad_left CHR ''0'' k (show_int (int n))) = int n"
    using len show_nat_digits [of n] by (simp_all add: pad_left_def show_int_def)
qed

lemma power_of_ten_eq [simp]: "power_of_ten n = 10 ^ n"
  by (induction n) simp_all

text \<open>What \<open>format_price\<close> prints denotes the price cut off after the decimal places it was asked for.\<close>

lemma format_price_denotes:
  assumes "0 \<le> t" "d \<le> 6"
  shows "\<exists>s. format_price t d = Inr s \<and> denotes s (t - t mod 10 ^ (6 - d))"
proof -
  define sc where "sc = t div 10 ^ (6 - d)"
  define w where "w = sc div 10 ^ d"
  define f where "f = sc mod 10 ^ d"
  have nn: "0 \<le> sc" "0 \<le> w" "0 \<le> f" "f < 10 ^ d"
    using assms by (simp_all add: sc_def w_def f_def pos_imp_zdiv_nonneg_iff)
  have pw: "(10::int) ^ d * 10 ^ (6 - d) = 10 ^ 6" using assms(2) by (simp flip: power_add)
  have "t - t mod 10 ^ (6 - d) = sc * 10 ^ (6 - d)" by (simp add: sc_def minus_mod_eq_div_mult)
  also have "\<dots> = (w * 10 ^ d + f) * 10 ^ (6 - d)" unfolding w_def f_def div_mult_mod_eq ..
  also have "\<dots> = w * (10 ^ d * 10 ^ (6 - d)) + f * 10 ^ (6 - d)" by (simp add: algebra_simps)
  finally have val: "t - t mod 10 ^ (6 - d) = w * 10 ^ 6 + f * 10 ^ (6 - d)" unfolding pw .
  have ws: "digits (show_int w)" "show_int w \<noteq> []" "digits_from 0 (show_int w) = w"
    using show_nat_digits [of "nat w"] nn(2) by (simp_all add: show_int_def)
  let ?fr = "if d > 0 then pad_left CHR ''0'' d (show_int f) else []"
  have fr: "digits ?fr" "length ?fr = d" "digits_from 0 ?fr = f"
    using padded_digits [of "nat f" d] nn(3,4) by (cases "d = 0"; simp)+
  have eq: "format_price t d = Inr (show_int w @ (if d > 0 then ''.'' @ ?fr else []))"
    using assms nn(1) by (simp add: format_price_def Let_def sc_def w_def f_def pos_imp_zdiv_nonneg_iff)
  have "denotes (show_int w @ (if d > 0 then ''.'' @ ?fr else [])) (w * 10 ^ 6 + f * 10 ^ (6 - d))"
    unfolding denotes_def
    by (rule exI [of _ "[]"], rule exI [of _ "show_int w"], rule exI [of _ ?fr]) (use ws fr assms(2) in auto)
  then show ?thesis using eq val by metis
qed

lemma pop_zeros_eq: "pop_zeros s = rev (dropWhile (\<lambda>c. c = CHR ''0'') (rev s))"
proof (induction s rule: rev_induct)
  case Nil
  then show ?case by (simp add: pop_zeros.simps)
next
  case (snoc c s)
  then show ?case by (simp add: pop_zeros.simps [of "s @ [c]"])
qed

lemma pop_zeros_split: "\<exists>k. s = pop_zeros s @ replicate k CHR ''0''"
proof -
  let ?z = "takeWhile (\<lambda>c. c = CHR ''0'') (rev s)"
  have z: "?z = replicate (length ?z) CHR ''0''"
    by (rule replicate_length_same [symmetric]) (auto dest: set_takeWhileD)
  have "rev s = ?z @ dropWhile (\<lambda>c. c = CHR ''0'') (rev s)" by simp
  then have "s = pop_zeros s @ rev ?z" unfolding pop_zeros_eq by (metis rev_append rev_rev_ident)
  then show ?thesis using z by (metis rev_replicate)
qed

lemma digits_from_zeros: "digits_from a (replicate k CHR ''0'') = a * 10 ^ k"
  by (induction k arbitrary: a) (simp_all add: digit_value_def)

lemma format_quantity_denotes:
  assumes "0 \<le> q"
  shows "denotes (format_quantity q) q"
proof -
  define w where "w = q div 10 ^ 6"
  define f where "f = q mod 10 ^ 6"
  have nn: "0 \<le> w" "0 \<le> f" "f < 10 ^ 6" using assms by (simp_all add: w_def f_def pos_imp_zdiv_nonneg_iff)
  have q: "q = w * 10 ^ 6 + f" by (simp add: w_def f_def)
  have ws: "digits (show_int w)" "show_int w \<noteq> []" "digits_from 0 (show_int w) = w"
    using show_nat_digits [of "nat w"] nn(1) by (simp_all add: show_int_def)
  show ?thesis
  proof (cases "f = 0")
    case True
    then have "format_quantity q = show_int w"
      using assms by (simp add: format_quantity_def ticks_per_unit_def w_def f_def)
    then show ?thesis
      unfolding denotes_def
      by (intro exI [of _ "[]"] exI [of _ "show_int w"] conjI) (use ws q True in auto)
  next
    case False
    let ?p = "pad_left CHR ''0'' 6 (show_int f)"
    have p: "digits ?p" "length ?p = 6" "digits_from 0 ?p = f"
      using padded_digits [of "nat f" 6] nn(2,3) by simp_all
    obtain k where k: "?p = pop_zeros ?p @ replicate k CHR ''0''" using pop_zeros_split by blast
    have len: "length (pop_zeros ?p) + k = 6" using k p(2) by (metis length_append length_replicate)
    have dg: "digits (pop_zeros ?p)" using k p(1) by (metis list_all_append)
    have val: "digits_from 0 (pop_zeros ?p) * 10 ^ k = f"
      using k p(3) digits_from_zeros digits_from_simps(3) by metis
    have "format_quantity q = pop_zeros (show_int w @ ''.'' @ ?p)"
      using assms False by (simp add: format_quantity_def ticks_per_unit_def w_def f_def Let_def)
    also have "\<dots> = show_int w @ ''.'' @ pop_zeros ?p"
      by (simp add: pop_zeros_eq dropWhile_append)
    finally have fq: "format_quantity q = [] @ show_int w @ ''.'' @ pop_zeros ?p" by simp
    have "6 - length (pop_zeros ?p) = k" using len by simp
    then have "q = digits_from 0 (show_int w) * 10 ^ 6 + digits_from 0 (pop_zeros ?p) * 10 ^ (6 - length (pop_zeros ?p))"
      using val q ws(3) by simp
    then show ?thesis
      unfolding denotes_def using fq ws(1,2) dg len by (metis insertI1 le_add1)
  qed
qed

subsection \<open>Properties\<close>

text \<open>C27 A price string is accepted exactly when it is a numeral (an optional plus sign, digits, and
  optionally a point with at most six digits, at least one digit in all) whose value in millionths
  fits 64 bits, and the result is that value: no accepted string is rounded or wraps around.\<close>
theorem price_parses_exactly:
  "price_to_ticks s = Inr v \<longleftrightarrow> denotes s v \<and> v \<le> INT64_MAX"
  by (simp add: price_to_ticks_def parse_Inr_iff)

text \<open>C28 Reading back a printed price gives the price cut off after the printed decimal places, with all
  six of them the price itself; a printed quantity, with its trailing zeros stripped, reads back as the
  same quantity.\<close>
theorem numerals_round_trip:
  assumes "0 \<le> t" "t \<le> INT64_MAX" "d \<le> 6"
  shows "(\<exists>s. format_price t d = Inr s \<and> price_to_ticks s = Inr (t - t mod 10 ^ (6 - d)))
    \<and> quantity_to_fixed (format_quantity t) = Inr t"
proof -
  obtain s where s: "format_price t d = Inr s" "denotes s (t - t mod 10 ^ (6 - d))"
    using format_price_denotes [OF assms(1,3)] by blast
  have "0 \<le> t mod 10 ^ (6 - d)" by simp
  then have "t - t mod 10 ^ (6 - d) \<le> INT64_MAX" using assms(2) by linarith
  moreover have "quantity_to_fixed (format_quantity t) = Inr t"
    using parse_denotes [OF format_quantity_denotes [OF assms(1)], of "''Quantity''"] assms(2)
    by (simp add: quantity_to_fixed_def)
  ultimately show ?thesis using s parse_denotes by (auto simp: price_to_ticks_def)
qed

theorem numerals_round_trip_witness:
  "format_price 10500000 0 = Inr ''10'' \<and> price_to_ticks ''10'' = Inr 10000000
   \<and> format_quantity 10500000 = ''10.5'' \<and> quantity_to_fixed ''10.5'' = Inr 10500000"
proof -
  have s: "format_price 10500000 0 = Inr ''10''" by code_simp
  have q: "format_quantity 10500000 = ''10.5''"
    by (simp add: format_quantity_def ticks_per_unit_def Let_def show_int_def show_nat.simps pad_left_def
        pop_zeros_eq char_of_def bit_Suc_0_iff)
  from numerals_round_trip [of 10500000 0] s q show ?thesis by (simp add: INT64_MAX_def)
qed

end
