(* ===== verification/Market_Feed.thy ===== *)
theory Market_Feed
  imports Order_Book Fixed_Point
begin

text \<open>
  The market data feed: the books of the subscribed tokens (\<open>include/websocket_market_state.hpp\<close>), the
  message parser and the dispatcher (\<open>include/websocket_message_parser.hpp\<close>,
  \<open>include/websocket_payload_dispatcher.hpp\<close>), the subscription message and the handlers of
  \<open>src/websocket_client.cpp\<close> that apply market events to the books and print them. The JSON library is
  a parameter, the record \<open>json_lib\<close> of the operations the sources call; \<open>at\<close> and \<open>get\<close> may throw.
  Output is the list of the pieces written: a piece whose computation throws ends the output there,
  and what was written before it stays.
\<close>

subsection \<open>The JSON library\<close>

record 'j json_lib =
  js_null :: 'j
  js_parse :: "string \<Rightarrow> 'j"
  js_is_discarded :: "'j \<Rightarrow> bool"
  js_is_object :: "'j \<Rightarrow> bool"
  js_is_array :: "'j \<Rightarrow> bool"
  js_is_string :: "'j \<Rightarrow> bool"
  js_contains :: "'j \<Rightarrow> string \<Rightarrow> bool"
  js_at :: "'j \<Rightarrow> string \<Rightarrow> 'j result"
  js_get_string :: "'j \<Rightarrow> string result"
  js_elements :: "'j \<Rightarrow> 'j list"
  js_string :: "string \<Rightarrow> 'j"
  js_strings :: "string list \<Rightarrow> 'j"
  js_object :: "(string \<times> 'j) list \<Rightarrow> 'j"
  js_dump :: "'j \<Rightarrow> string result"

text \<open>\<open>j.at(key).get<std::string>()\<close>, and whether \<open>at\<close> finds strings under all of some keys.\<close>

definition get_field :: "'j json_lib \<Rightarrow> 'j \<Rightarrow> string \<Rightarrow> string result" where
  "get_field J j key = and_then (js_at J j key) (js_get_string J)"

fun all_strings :: "'j json_lib \<Rightarrow> 'j \<Rightarrow> string list \<Rightarrow> bool result" where
  "all_strings J j [] = Inr True"
| "all_strings J j (key # keys) =
     and_then (js_at J j key) (\<lambda>v. if js_is_string J v then all_strings J j keys else Inr False)"

text \<open>\<open>what()\<close> of an exception; the feed itself never throws \<open>length_error\<close>.\<close>

fun what :: "cpp_error \<Rightarrow> string" where
  "what (Invalid_argument s) = s"
| "what (Overflow_error s) = s"
| "what (Logic_error s) = s"
| "what (Runtime_error s) = s"
| "what (Out_of_range s) = s"
| "what (Json_exception s) = s"
| "what Length_error = ''length_error''"

subsection \<open>Subscriptions\<close>

text \<open>\<open>unordered_set::insert\<close> reports whether the id is new; the unique ids keep their first order.\<close>

fun unique_tokens :: "string list \<Rightarrow> string set \<Rightarrow> string list \<Rightarrow> string list result" where
  "unique_tokens [] seen unique_token_ids = Inr unique_token_ids"
| "unique_tokens (token_id # token_ids) seen unique_token_ids =
     (if token_id = [] then Inl (Invalid_argument ''Token ID must not be empty.'')
      else if token_id \<in> seen then unique_tokens token_ids seen unique_token_ids
      else unique_tokens token_ids (insert token_id seen) (unique_token_ids @ [token_id]))"

definition build_market :: "'j json_lib \<Rightarrow> string list \<Rightarrow> string result" where
  "build_market J token_ids =
     (if token_ids = [] then Inl (Invalid_argument ''At least one token ID is required.'')
      else and_then (unique_tokens token_ids {} []) (\<lambda>unique_token_ids.
        js_dump J (js_object J [(''assets_ids'', js_strings J unique_token_ids),
                                (''type'', js_string J ''market'')])))"

subsection \<open>The books of the subscribed tokens\<close>

record token_state =
  tk_book :: order_book
  tk_snapshot_received :: bool

definition new_token_state :: token_state where
  "new_token_state = \<lparr>tk_book = empty_book, tk_snapshot_received = False\<rparr>"

type_synonym market_state = "string \<rightharpoonup> token_state"

text \<open>\<open>try_emplace\<close> keeps a state that is already there.\<close>

fun add_tokens :: "string list \<Rightarrow> market_state \<Rightarrow> market_state result" where
  "add_tokens [] states = Inr states"
| "add_tokens (token_id # token_ids) states =
     (if token_id = [] then Inl (Invalid_argument ''Token ID must not be empty.'')
      else add_tokens token_ids
             (if states token_id = None then states(token_id \<mapsto> new_token_state) else states))"

definition new_market_state :: "string list \<Rightarrow> market_state result" where
  "new_market_state token_ids =
     (if token_ids = [] then Inl (Invalid_argument ''At least one token ID is required.'')
      else add_tokens token_ids Map.empty)"

definition market_contains :: "market_state \<Rightarrow> string \<Rightarrow> bool" where
  "market_contains states token_id \<longleftrightarrow> states token_id \<noteq> None"

definition market_at :: "market_state \<Rightarrow> string \<Rightarrow> token_state result" where
  "market_at states token_id =
     (case states token_id of
        None \<Rightarrow> Inl (Invalid_argument (''Received event for unsubscribed token ID: '' @ token_id))
      | Some st \<Rightarrow> Inr st)"

subsection \<open>Reading messages\<close>

datatype message_kind = Pong | Market_payload | Invalid_message

record 'j parse_result =
  pr_kind :: message_kind
  pr_payload :: 'j
  pr_error_message :: string

definition whitespace :: "char \<Rightarrow> bool" where
  "whitespace c \<longleftrightarrow> c \<in> {CHR '' '', CHR 0x09, CHR 0x0D, CHR 0x0A}"

text \<open>\<open>find_first_not_of\<close>, \<open>find_last_not_of\<close> and \<open>substr\<close> together.\<close>

definition trim :: "string \<Rightarrow> string" where
  "trim message = rev (dropWhile whitespace (rev (dropWhile whitespace message)))"

definition invalid_result :: "'j json_lib \<Rightarrow> string \<Rightarrow> 'j parse_result" where
  "invalid_result J message = \<lparr>pr_kind = Invalid_message, pr_payload = js_null J, pr_error_message = message\<rparr>"

definition parse_message :: "'j json_lib \<Rightarrow> string \<Rightarrow> 'j parse_result" where
  "parse_message J message =
     (if list_all whitespace message then invalid_result J ''WebSocket message is empty.''
      else (let trimmed = trim message
            in if CHR 0x00 \<in> set trimmed
               then invalid_result J ''WebSocket message contains an embedded NUL byte.''
               else if trimmed = ''PONG''
               then \<lparr>pr_kind = Pong, pr_payload = js_null J, pr_error_message = []\<rparr>
               else (let payload = js_parse J trimmed
                     in if js_is_discarded J payload
                        then invalid_result J ''WebSocket message contains invalid JSON.''
                        else if \<not> js_is_object J payload \<and> \<not> js_is_array J payload
                        then invalid_result J ''WebSocket JSON payload must be an object or array.''
                        else \<lparr>pr_kind = Market_payload, pr_payload = payload, pr_error_message = []\<rparr>)))"

definition parse_level :: "'j json_lib \<Rightarrow> 'j \<Rightarrow> price_level result" where
  "parse_level J level =
     (if \<not> js_is_object J level
      then Inl (Runtime_error ''Each WebSocket order-book level must be an object.'')
      else if \<not> js_contains J level ''price'' \<or> \<not> js_contains J level ''size''
      then Inl (Runtime_error ''WebSocket order-book level is missing price or size.'')
      else and_then (all_strings J level [''price'', ''size'']) (\<lambda>strings.
        if \<not> strings then Inl (Runtime_error ''WebSocket price and size must be strings.'')
        else and_then (and_then (get_field J level ''price'') price_to_ticks) (\<lambda>price.
          and_then (and_then (get_field J level ''size'') quantity_to_fixed) (\<lambda>quantity.
            Inr \<lparr>pl_price_ticks = price, pl_quantity = quantity\<rparr>))))"

fun parse_level_list :: "'j json_lib \<Rightarrow> 'j list \<Rightarrow> price_level list \<Rightarrow> price_level list result" where
  "parse_level_list J [] parsed_levels = Inr parsed_levels"
| "parse_level_list J (level # levels) parsed_levels =
     and_then (parse_level J level) (\<lambda>l. parse_level_list J levels (parsed_levels @ [l]))"

definition quoted :: "string \<Rightarrow> string" where
  "quoted name = CHR 0x27 # name @ [CHR 0x27]"

definition parse_levels :: "'j json_lib \<Rightarrow> 'j \<Rightarrow> string \<Rightarrow> price_level list result" where
  "parse_levels J message side_name =
     (if \<not> js_contains J message side_name
      then Inl (Runtime_error (''WebSocket book event is missing '' @ quoted side_name @ ''.''))
      else and_then (js_at J message side_name) (\<lambda>levels.
        if \<not> js_is_array J levels
        then Inl (Runtime_error (quoted side_name @ '' must be a JSON array.''))
        else parse_level_list J (js_elements J levels) []))"

subsection \<open>Output\<close>

fun print_all :: "string result list \<Rightarrow> string \<Rightarrow> (unit, string) outcome" where
  "print_all [] out = (Inr (), out)"
| "print_all (piece # pieces) out =
     (case piece of Inl err \<Rightarrow> (Inl err, out) | Inr s \<Rightarrow> print_all pieces (out @ s))"

definition newline :: string where
  "newline = [CHR 0x0A]"

text \<open>\<open>std::left\<close> with \<open>std::setw\<close>.\<close>

definition pad_right :: "nat \<Rightarrow> string \<Rightarrow> string" where
  "pad_right w s = s @ replicate (w - length s) CHR '' ''"

definition top_level_count :: nat where
  "top_level_count = 10"

definition print_levels :: "price_level list \<Rightarrow> nat \<Rightarrow> string result list" where
  "print_levels levels maximum_levels =
     (let level_count = min maximum_levels (length levels)
      in if level_count = 0 then [Inr (''  No levels'' @ newline)]
         else [Inr ''  '', Inr (pad_right 10 ''Price''), Inr (''Quantity'' @ newline)]
           @ concat (map (\<lambda>level.
               [Inr ''  '',
                and_then (format_price (pl_price_ticks level) 3) (\<lambda>s. Inr (pad_right 10 s)),
                Inr (format_quantity (pl_quantity level)), Inr newline]) (take level_count levels)))"

text \<open>A labelled line with a price, or \<open>N/A\<close> when there is none.\<close>

definition print_price :: "string \<Rightarrow> int option \<Rightarrow> string result list" where
  "print_price label price =
     (case price of
        None \<Rightarrow> [Inr (label @ ''N/A'' @ newline)]
      | Some p \<Rightarrow> [Inr label, format_price p 3, Inr newline])"

definition print_live_book :: "order_book \<Rightarrow> string result list" where
  "print_live_book book =
     [Inr (''=========== ORDER BOOK ==========='' @ newline), Inr (''ASKS (best first)'' @ newline)]
     @ print_levels (ob_asks book) top_level_count
     @ [Inr (''----------------------------------'' @ newline), Inr (''BIDS (best first)'' @ newline)]
     @ print_levels (ob_bids book) top_level_count
     @ [Inr (''----------------------------------'' @ newline)]
     @ print_price ''Best bid:  '' (map_option pl_price_ticks (best_bid book))
     @ print_price ''Best ask:  '' (map_option pl_price_ticks (best_ask book))
     @ print_price ''Spread:    '' (spread_ticks book)
     @ print_price ''Mid:       '' (mid_price_ticks book)
     @ [Inr ''Bid depth: '', Inr (format_quantity (bid_depth book)), Inr newline,
        Inr ''Ask depth: '', Inr (format_quantity (ask_depth book)), Inr newline,
        Inr ''Bid levels: '', Inr (show_nat (length (ob_bids book))), Inr newline,
        Inr ''Ask levels: '', Inr (show_nat (length (ob_asks book))), Inr newline,
        Inr (''=================================='' @ newline)]"

subsection \<open>Applying market events\<close>

text \<open>The state the handlers change: the books, and what went to \<open>std::cout\<close> and \<open>std::cerr\<close>.\<close>

record feed =
  fd_states :: market_state
  fd_out :: string
  fd_err :: string

definition cout :: "string result list \<Rightarrow> feed \<Rightarrow> (unit, feed) outcome" where
  "cout pieces fd = (case print_all pieces (fd_out fd) of (r, out) \<Rightarrow> (r, fd\<lparr>fd_out := out\<rparr>))"

definition cerr :: "string \<Rightarrow> feed \<Rightarrow> feed" where
  "cerr s fd = fd\<lparr>fd_err := fd_err fd @ s\<rparr>"

definition set_token :: "string \<Rightarrow> token_state \<Rightarrow> feed \<Rightarrow> feed" where
  "set_token token_id st fd = fd\<lparr>fd_states := (fd_states fd)(token_id \<mapsto> st)\<rparr>"

definition change_side :: "string \<Rightarrow> int \<Rightarrow> int \<Rightarrow> order_book \<Rightarrow> (unit, order_book) outcome" where
  "change_side side price_ticks quantity book =
     (if side = ''BUY'' then update_bid price_ticks quantity book
      else if side = ''SELL'' then update_ask price_ticks quantity book
      else (Inl (Runtime_error (''Unsupported price-change side: '' @ side)), book))"

definition change_values :: "'j json_lib \<Rightarrow> 'j \<Rightarrow> (int \<times> int \<times> string) result" where
  "change_values J change =
     and_then (and_then (get_field J change ''price'') price_to_ticks) (\<lambda>price_ticks.
       and_then (and_then (get_field J change ''size'') quantity_to_fixed) (\<lambda>quantity.
         and_then (get_field J change ''side'') (\<lambda>side. Inr (price_ticks, quantity, side))))"

definition change_book :: "'j json_lib \<Rightarrow> 'j \<Rightarrow> string \<Rightarrow> token_state \<Rightarrow> feed \<Rightarrow> (string, feed) outcome" where
  "change_book J change asset_id st fd =
     (case change_values J change of
        Inl err \<Rightarrow> (Inl err, fd)
      | Inr (price_ticks, quantity, side) \<Rightarrow>
          (case change_side side price_ticks quantity (tk_book st) of
             (Inl err, book) \<Rightarrow> (Inl err, set_token asset_id (st\<lparr>tk_book := book\<rparr>) fd)
           | (Inr _, book) \<Rightarrow>
               seq (cout [Inr ''Applied '', Inr side, Inr '' update for token '', Inr asset_id, Inr '' at '',
                          format_price price_ticks 3, Inr '' with size '', get_field J change ''size'',
                          Inr newline]
                      (set_token asset_id (st\<lparr>tk_book := book\<rparr>) fd))
                 (\<lambda>_ fd1. (Inr asset_id, fd1))))"

definition change_asset :: "'j json_lib \<Rightarrow> 'j \<Rightarrow> string result" where
  "change_asset J change =
     (if \<not> js_is_object J change then Inl (Runtime_error ''Each price change must be an object.'')
      else if \<not> list_all (js_contains J change) [''asset_id'', ''price'', ''size'', ''side'']
      then Inl (Runtime_error ''Price change is missing asset_id, price, size, or side.'')
      else and_then (all_strings J change [''asset_id'', ''price'', ''size'', ''side'']) (\<lambda>strings.
        if \<not> strings then Inl (Runtime_error ''Price change fields must be strings.'')
        else get_field J change ''asset_id''))"

definition apply_price_change :: "'j json_lib \<Rightarrow> 'j \<Rightarrow> feed \<Rightarrow> (string, feed) outcome" where
  "apply_price_change J change fd =
     (case change_asset J change of
        Inl err \<Rightarrow> (Inl err, fd)
      | Inr asset_id \<Rightarrow>
          if \<not> market_contains (fd_states fd) asset_id
          then seq (cout [Inr ''Ignored price change for unsubscribed token: '', Inr asset_id, Inr newline] fd)
                 (\<lambda>_ fd1. (Inr [], fd1))
          else (case market_at (fd_states fd) asset_id of
                  Inl err \<Rightarrow> (Inl err, fd)
                | Inr st \<Rightarrow>
                    if \<not> tk_snapshot_received st
                    then seq (cout [Inr ''Ignored price_change before initial book snapshot for token '',
                                    Inr asset_id, Inr (''.'' @ newline)] fd)
                           (\<lambda>_ fd1. (Inr [], fd1))
                    else change_book J change asset_id st fd))"

fun apply_price_changes :: "'j json_lib \<Rightarrow> 'j list \<Rightarrow> string list \<Rightarrow> feed \<Rightarrow> (string list, feed) outcome" where
  "apply_price_changes J [] updated_token_ids fd = (Inr updated_token_ids, fd)"
| "apply_price_changes J (change # changes) updated_token_ids fd =
     seq (apply_price_change J change fd) (\<lambda>updated_token_id fd1.
       apply_price_changes J changes
         (if updated_token_id \<noteq> [] \<and> updated_token_id \<notin> set updated_token_ids
          then updated_token_ids @ [updated_token_id] else updated_token_ids) fd1)"

definition token_line :: "string \<Rightarrow> string result list" where
  "token_line token_id = [Inr (''========================'' @ newline), Inr ''Token: '', Inr token_id, Inr newline]"

fun print_tokens :: "string list \<Rightarrow> feed \<Rightarrow> (unit, feed) outcome" where
  "print_tokens [] fd = (Inr (), fd)"
| "print_tokens (token_id # token_ids) fd =
     seq (cout (token_line token_id) fd) (\<lambda>_ fd1.
       case market_at (fd_states fd1) token_id of
         Inl err \<Rightarrow> (Inl err, fd1)
       | Inr st \<Rightarrow> seq (cout (print_live_book (tk_book st)) fd1) (\<lambda>_ fd2. print_tokens token_ids fd2))"

definition process_price_change :: "'j json_lib \<Rightarrow> 'j \<Rightarrow> feed \<Rightarrow> (unit, feed) outcome" where
  "process_price_change J message fd =
     (if \<not> js_contains J message ''price_changes''
      then (Inl (Runtime_error ''price_change event is missing price_changes.''), fd)
      else (case js_at J message ''price_changes'' of
              Inl err \<Rightarrow> (Inl err, fd)
            | Inr changes \<Rightarrow>
                if \<not> js_is_array J changes
                then (Inl (Runtime_error ''price_changes must be an array.''), fd)
                else seq (apply_price_changes J (js_elements J changes) [] fd) print_tokens))"

text \<open>\<open>message.contains(key) && message.at(key).is_string()\<close>, then the string.\<close>

definition string_field :: "'j json_lib \<Rightarrow> 'j \<Rightarrow> string \<Rightarrow> string option result" where
  "string_field J message key =
     (if \<not> js_contains J message key then Inr None
      else and_then (js_at J message key) (\<lambda>v.
        if \<not> js_is_string J v then Inr None else and_then (js_get_string J v) (\<lambda>s. Inr (Some s))))"

definition process_book :: "'j json_lib \<Rightarrow> 'j \<Rightarrow> feed \<Rightarrow> (unit, feed) outcome" where
  "process_book J message fd =
     (case string_field J message ''asset_id'' of
        Inl err \<Rightarrow> (Inl err, fd)
      | Inr None \<Rightarrow> (Inl (Runtime_error ''book event is missing a valid asset_id.''), fd)
      | Inr (Some asset_id) \<Rightarrow>
          if \<not> market_contains (fd_states fd) asset_id
          then cout [Inr ''Ignored book event for unsubscribed token: '', Inr asset_id, Inr newline] fd
          else (case and_then (parse_levels J message ''bids'') (\<lambda>bids.
                       and_then (parse_levels J message ''asks'') (\<lambda>asks.
                         and_then (market_at (fd_states fd) asset_id) (\<lambda>st. Inr (bids, asks, st)))) of
                  Inl err \<Rightarrow> (Inl err, fd)
                | Inr (bids, asks, st) \<Rightarrow>
                    (case replace_snapshot bids asks (tk_book st) of
                       (Inl err, book) \<Rightarrow> (Inl err, set_token asset_id (st\<lparr>tk_book := book\<rparr>) fd)
                     | (Inr _, book) \<Rightarrow>
                         cout (token_line asset_id @ print_live_book book)
                           (set_token asset_id (st\<lparr>tk_book := book, tk_snapshot_received := True\<rparr>) fd))))"

definition process_message :: "'j json_lib \<Rightarrow> 'j \<Rightarrow> feed \<Rightarrow> (unit, feed) outcome" where
  "process_message J message fd =
     (if \<not> js_is_object J message then cout [Inr (''Ignored non-object WebSocket message'' @ newline)] fd
      else (case string_field J message ''event_type'' of
              Inl err \<Rightarrow> (Inl err, fd)
            | Inr None \<Rightarrow> cout [Inr (''Received message without event_type'' @ newline)] fd
            | Inr (Some event_type) \<Rightarrow>
                seq (cout [Inr (newline @ ''Received event: ''), Inr event_type, Inr newline] fd) (\<lambda>_ fd1.
                  if event_type = ''book'' then process_book J message fd1
                  else if event_type = ''price_change'' then process_price_change J message fd1
                  else (Inr (), fd1))))"

subsection \<open>Dispatching a payload\<close>

record dispatch_result =
  dr_processed :: nat
  dr_rejected :: nat

text \<open>The handlers are the lambdas the caller passes; they change the caller's state.\<close>

definition dispatch_one ::
  "('j \<Rightarrow> 's \<Rightarrow> (unit, 's) outcome) \<Rightarrow> (cpp_error \<Rightarrow> 's \<Rightarrow> 's) \<Rightarrow> 'j \<Rightarrow> dispatch_result \<times> 's
   \<Rightarrow> dispatch_result \<times> 's" where
  "dispatch_one message_handler error_handler message = (\<lambda>(res, s).
     (case message_handler message s of
        (Inr _, s1) \<Rightarrow> (res\<lparr>dr_processed := dr_processed res + 1\<rparr>, s1)
      | (Inl err, s1) \<Rightarrow> (res\<lparr>dr_rejected := dr_rejected res + 1\<rparr>, error_handler err s1)))"

definition dispatch ::
  "'j json_lib \<Rightarrow> 'j \<Rightarrow> ('j \<Rightarrow> 's \<Rightarrow> (unit, 's) outcome) \<Rightarrow> (cpp_error \<Rightarrow> 's \<Rightarrow> 's) \<Rightarrow> 's
   \<Rightarrow> (dispatch_result, 's) outcome" where
  "dispatch J payload message_handler error_handler s =
     (let start = (\<lparr>dr_processed = 0, dr_rejected = 0\<rparr>, s)
      in if js_is_array J payload
         then (case fold (dispatch_one message_handler error_handler) (js_elements J payload) start of
                 (res, s1) \<Rightarrow> (Inr res, s1))
         else if js_is_object J payload
         then (case dispatch_one message_handler error_handler payload start of (res, s1) \<Rightarrow> (Inr res, s1))
         else (Inl (Invalid_argument ''WebSocket payload must be an object or array.''), s))"

definition report_invalid :: "cpp_error \<Rightarrow> feed \<Rightarrow> feed" where
  "report_invalid err = cerr (''Ignored invalid market event: '' @ what err @ newline)"

definition process_payload :: "'j json_lib \<Rightarrow> 'j \<Rightarrow> feed \<Rightarrow> (unit, feed) outcome" where
  "process_payload J payload fd =
     (case dispatch J payload (process_message J) report_invalid fd of
        (Inl err, fd1) \<Rightarrow> (Inl err, fd1)
      | (Inr _, fd1) \<Rightarrow> (Inr (), fd1))"

subsection \<open>Handlers that keep an invariant\<close>

text \<open>
  What a dispatcher's caller relies on: whatever the message and whether or not it is rejected, the
  handlers keep an invariant of the caller's state.
\<close>

locale handlers =
  fixes message_handler :: "'j \<Rightarrow> 's \<Rightarrow> (unit, 's) outcome"
    and error_handler :: "cpp_error \<Rightarrow> 's \<Rightarrow> 's"
    and inv :: "'s \<Rightarrow> bool"
  assumes handler_inv: "inv s \<Longrightarrow> inv (snd (message_handler message s))"
    and error_inv: "inv s \<Longrightarrow> inv (error_handler err s)"
begin

lemma dispatch_one_inv: "inv (snd x) \<Longrightarrow> inv (snd (dispatch_one message_handler error_handler message x))"
  using handler_inv [of "snd x" message] error_inv
  by (auto simp: dispatch_one_def split: prod.splits sum.splits)

lemma dispatch_fold_inv: "inv (snd x) \<Longrightarrow> inv (snd (fold (dispatch_one message_handler error_handler) messages x))"
  by (induction messages arbitrary: x) (simp_all add: dispatch_one_inv)

lemma dispatch_inv: "inv s \<Longrightarrow> inv (snd (dispatch J payload message_handler error_handler s))"
  using dispatch_fold_inv [of "(\<lparr>dr_processed = 0, dr_rejected = 0\<rparr>, s)" "js_elements J payload"]
    dispatch_one_inv [of "(\<lparr>dr_processed = 0, dr_rejected = 0\<rparr>, s)" payload]
  by (auto simp: dispatch_def Let_def split: prod.splits)

end

text \<open>The counters add up to the number of messages handled.\<close>

lemma dispatch_one_counts:
  "dr_processed (fst (dispatch_one h eh m x)) + dr_rejected (fst (dispatch_one h eh m x)) =
     dr_processed (fst x) + dr_rejected (fst x) + 1"
  by (auto simp: dispatch_one_def split: prod.splits sum.splits)

lemma dispatch_fold_counts:
  "dr_processed (fst (fold (dispatch_one h eh) ms x)) + dr_rejected (fst (fold (dispatch_one h eh) ms x)) =
     dr_processed (fst x) + dr_rejected (fst x) + length ms"
  by (induction ms arbitrary: x) (simp_all add: dispatch_one_counts)

subsection \<open>The invariant of the feed\<close>

text \<open>The subscribed tokens stay the same, their books are well formed, and empty before a snapshot.\<close>

definition token_ok :: "token_state \<Rightarrow> bool" where
  "token_ok st \<longleftrightarrow> book_ok (tk_book st) \<and> (tk_snapshot_received st \<or> tk_book st = empty_book)"

definition feed_inv :: "string set \<Rightarrow> feed \<Rightarrow> bool" where
  "feed_inv tokens fd \<longleftrightarrow> dom (fd_states fd) = tokens \<and> (\<forall>st \<in> ran (fd_states fd). token_ok st)"

lemma feed_inv_states: "feed_inv T fd \<Longrightarrow> fd_states fd' = fd_states fd \<Longrightarrow> feed_inv T fd'"
  by (simp add: feed_inv_def)

lemma feed_inv_token: "feed_inv T fd \<Longrightarrow> fd_states fd t = Some st \<Longrightarrow> token_ok st"
  by (auto simp: feed_inv_def ran_def)

lemma feed_inv_set_token:
  assumes "feed_inv T fd" "token_ok st" "fd_states fd t \<noteq> None"
  shows "feed_inv T (set_token t st fd)"
  using assms by (auto simp: feed_inv_def set_token_def ran_def)

lemma set_token_states [simp]: "fd_states (set_token t st fd) = (fd_states fd)(t \<mapsto> st)"
  by (simp add: set_token_def)

lemma cout_states [simp]: "fd_states (snd (cout ps fd)) = fd_states fd"
  by (simp add: cout_def split: prod.splits)

lemma cout_statesD: "cout ps fd = (r, fd') \<Longrightarrow> fd_states fd' = fd_states fd"
  by (metis cout_states snd_conv)

lemma cout_inv: "cout ps fd = (r, fd') \<Longrightarrow> feed_inv T fd \<Longrightarrow> feed_inv T fd'"
  by (metis cout_statesD feed_inv_states)

lemma report_invalid_states [simp]: "fd_states (report_invalid err fd) = fd_states fd"
  by (simp add: report_invalid_def cerr_def)

lemma market_contains_iff [simp]: "market_contains states t \<longleftrightarrow> states t \<noteq> None"
  by (simp add: market_contains_def)

lemma market_at_Inr_iff [simp]: "market_at states t = Inr st \<longleftrightarrow> states t = Some st"
  by (simp add: market_at_def split: option.splits)

text \<open>The book operations the feed uses keep books well formed.\<close>

lemma denotes_nonneg: "denotes s v \<Longrightarrow> 0 \<le> v"
  unfolding denotes_def using digits_from_ge [of _ 0] by (auto intro!: add_nonneg_nonneg mult_nonneg_nonneg)

lemma parsed_range:
  "price_to_ticks s = Inr p \<Longrightarrow> 0 \<le> p \<and> p \<le> INT64_MAX"
  "quantity_to_fixed s = Inr p \<Longrightarrow> 0 \<le> p \<and> p \<le> INT64_MAX"
  by (auto simp: price_to_ticks_def quantity_to_fixed_def parse_Inr_iff intro: denotes_nonneg)

lemma update_bid_eq:
  assumes "book_ok book" "0 \<le> p" "0 \<le> q"
  shows "update_bid p q book = (Inr (), book\<lparr>ob_bids := set_level bid_before (ob_bids book) p q\<rparr>)"
  using assms bid_order.update_levels_eq [of "ob_bids book" "''Bid''" p q]
  by (simp add: update_bid_def on_bids_def update_bid_levels_def book_ok_def validate_level_def)

lemma update_ask_eq:
  assumes "book_ok book" "0 \<le> p" "0 \<le> q"
  shows "update_ask p q book = (Inr (), book\<lparr>ob_asks := set_level ask_before (ob_asks book) p q\<rparr>)"
  using assms ask_order.update_levels_eq [of "ob_asks book" "''Ask''" p q]
  by (simp add: update_ask_def on_asks_def update_ask_levels_def book_ok_def validate_level_def)

lemma change_side_ok:
  assumes "book_ok book" "0 \<le> p" "0 \<le> q" "q \<le> INT64_MAX" "change_side side p q book = (r, book')"
  shows "book_ok book'"
  using assms bid_order.levels_ok_set_level [of "ob_bids book" p q] ask_order.levels_ok_set_level [of "ob_asks book" p q]
  by (auto simp: change_side_def update_bid_eq update_ask_eq book_ok_def split: if_splits)

lemma replace_snapshot_ok:
  assumes "book_ok book" "replace_snapshot bids asks book = (r, book')"
  shows "book_ok book'"
  using assms by (auto simp: replace_snapshot_def book_ok_def normalize_bids_Inr_iff normalize_asks_Inr_iff split: sum.splits)

lemma replace_snapshot_fails: "replace_snapshot bids asks book = (Inl err, book') \<Longrightarrow> book' = book"
  by (auto simp: replace_snapshot_def split: sum.splits)

lemma change_values_range:
  "change_values J change = Inr (p, q, side) \<Longrightarrow> 0 \<le> p \<and> 0 \<le> q \<and> q \<le> INT64_MAX"
  using parsed_range by (auto simp: change_values_def and_then_eq_Inr_iff)

lemma cout_keeps [simp]: "feed_inv T fd \<Longrightarrow> feed_inv T (snd (cout ps fd))"
  by (simp add: feed_inv_states [of T fd])

lemmas feed_seq = seq_keeps [of "feed_inv T" for T]

lemma change_book_inv:
  assumes fd: "feed_inv T fd" and st: "fd_states fd t = Some st" "tk_snapshot_received st"
  shows "feed_inv T (snd (change_book J change t st fd))"
proof (cases "change_values J change")
  case (Inr x)
  obtain p q side where x: "x = (p, q, side)" by (metis prod.collapse)
  obtain r book where b: "change_side side p q (tk_book st) = (r, book)" by fastforce
  have "0 \<le> p" "0 \<le> q" "q \<le> INT64_MAX" using change_values_range [OF Inr [unfolded x]] by simp_all
  then have "book_ok book"
    using change_side_ok [OF _ _ _ _ b] feed_inv_token [OF fd st(1)] by (simp add: token_ok_def)
  then have "feed_inv T (set_token t (st\<lparr>tk_book := book\<rparr>) fd)"
    using feed_inv_set_token fd st by (simp add: token_ok_def)
  then show ?thesis
    using Inr x b by (auto simp: change_book_def split: sum.splits intro!: feed_seq)
qed (simp add: change_book_def fd)

lemma apply_price_change_inv: "feed_inv T fd \<Longrightarrow> feed_inv T (snd (apply_price_change J change fd))"
  using change_book_inv
  by (auto simp: apply_price_change_def split: sum.splits intro!: feed_seq)

lemma apply_price_changes_inv: "feed_inv T fd \<Longrightarrow> feed_inv T (snd (apply_price_changes J changes ids fd))"
  by (induction changes arbitrary: ids fd) (auto intro!: feed_seq apply_price_change_inv)

lemma print_tokens_inv: "feed_inv T fd \<Longrightarrow> feed_inv T (snd (print_tokens ids fd))"
  by (induction ids arbitrary: fd) (auto split: sum.splits intro!: feed_seq)

lemma process_price_change_inv: "feed_inv T fd \<Longrightarrow> feed_inv T (snd (process_price_change J message fd))"
  by (auto simp: process_price_change_def split: sum.splits
      intro!: feed_seq apply_price_changes_inv print_tokens_inv)

lemma process_book_inv:
  assumes "feed_inv T fd"
  shows "feed_inv T (snd (process_book J message fd))"
proof -
  have old: "feed_inv T (set_token t (st\<lparr>tk_book := book\<rparr>) fd)"
    if "replace_snapshot bids asks (tk_book st) = (Inl err, book)" "fd_states fd t = Some st" for t st bids asks err book
    using that assms replace_snapshot_fails [OF that(1)] by (simp add: set_token_def map_upd_triv)
  have new: "feed_inv T (set_token t (st\<lparr>tk_book := book, tk_snapshot_received := True\<rparr>) fd)"
    if "replace_snapshot bids asks (tk_book st) = (Inr u, book)" "fd_states fd t = Some st" for t st bids asks u book
    using that replace_snapshot_ok [OF _ that(1)] feed_inv_token [OF assms that(2)]
    by (intro feed_inv_set_token assms) (simp_all add: token_ok_def)
  show ?thesis
    using assms by (auto simp: process_book_def and_then_eq_Inr_iff split: sum.splits option.splits prod.splits
      intro: old cout_keeps [OF new])
qed

lemma process_message_inv: "feed_inv T fd \<Longrightarrow> feed_inv T (snd (process_message J message fd))"
  by (auto simp: process_message_def split: sum.splits option.splits
      intro!: feed_seq process_book_inv process_price_change_inv)

interpretation market: handlers "process_message J" report_invalid "feed_inv T" for J T
  by unfold_locales (simp_all add: process_message_inv feed_inv_states)

lemma process_payload_inv: "feed_inv T fd \<Longrightarrow> feed_inv T (snd (process_payload J payload fd))"
  using market.dispatch_inv [of T fd J payload J]
  by (auto simp: process_payload_def split: prod.splits sum.splits)

subsection \<open>When printing fails\<close>

abbreviation prints :: "string result list \<Rightarrow> bool" where
  "prints pieces \<equiv> list_all (\<lambda>piece. \<not> isl piece) pieces"

lemma print_all_ok: "prints ps \<Longrightarrow> \<exists>out'. print_all (ps @ qs) out = print_all qs out'"
  by (induction ps arbitrary: out) (auto split: sum.splits)

lemma print_all_prints: "prints ps \<Longrightarrow> fst (print_all ps out) = Inr ()"
  using print_all_ok [of ps "[]" out] by auto

lemma cout_prints: "prints ps \<Longrightarrow> \<exists>fd1. cout ps fd = (Inr (), fd1) \<and> fd_states fd1 = fd_states fd"
  using print_all_prints [of ps "fd_out fd"] by (cases "print_all ps (fd_out fd)") (simp add: cout_def)

lemma format_price_prints: "0 \<le> p \<Longrightarrow> \<not> isl (format_price p 3)"
  by (simp add: format_price_def Let_def)

lemma print_levels_prints: "levels_ok before ls \<Longrightarrow> prints (print_levels ls n)"
  using format_price_prints
  by (auto simp: print_levels_def Let_def list_all_iff levels_ok_def and_then_def isl_def
      split: sum.splits dest!: in_set_takeD)

lemma print_price_prints: "(\<And>p. price = Some p \<Longrightarrow> 0 \<le> p) \<Longrightarrow> prints (print_price label price)"
  using format_price_prints by (auto simp: print_price_def split: option.splits)

definition crossed :: "order_book \<Rightarrow> bool" where
  "crossed book \<longleftrightarrow> (case spread_ticks book of None \<Rightarrow> False | Some s \<Rightarrow> s < 0)"

lemma print_live_book_split:
  assumes "book_ok book"
  shows "\<exists>head tail. print_live_book book = head @ print_price ''Spread:    '' (spread_ticks book) @ tail
    \<and> prints head \<and> (\<not> crossed book \<longrightarrow> prints tail)"
proof (intro exI conjI impI)
  have lv: "levels_ok bid_before (ob_bids book)" "levels_ok ask_before (ob_asks book)"
    using assms by (simp_all add: book_ok_def)
  have bid: "prints (print_price l (map_option pl_price_ticks (best_bid book)))"
    and ask: "prints (print_price l (map_option pl_price_ticks (best_ask book)))" for l
    using lv by (auto intro!: print_price_prints simp: best_bid_def best_ask_def levels_ok_Cons split: list.splits)
  show "prints ([Inr (''=========== ORDER BOOK ==========='' @ newline), Inr (''ASKS (best first)'' @ newline)]
     @ print_levels (ob_asks book) top_level_count
     @ [Inr (''----------------------------------'' @ newline), Inr (''BIDS (best first)'' @ newline)]
     @ print_levels (ob_bids book) top_level_count
     @ [Inr (''----------------------------------'' @ newline)]
     @ print_price ''Best bid:  '' (map_option pl_price_ticks (best_bid book))
     @ print_price ''Best ask:  '' (map_option pl_price_ticks (best_ask book)))"
    by (simp add: print_levels_prints [OF lv(1)] print_levels_prints [OF lv(2)] bid ask)
  have "0 \<le> m" if "mid_price_ticks book = Some m" "\<not> crossed book" for m
    using that lv by (auto simp: mid_price_ticks_def crossed_def spread_ticks_def levels_ok_Cons split: list.splits)
  then show "prints (print_price ''Mid:       '' (mid_price_ticks book)
     @ [Inr ''Bid depth: '', Inr (format_quantity (bid_depth book)), Inr newline,
        Inr ''Ask depth: '', Inr (format_quantity (ask_depth book)), Inr newline,
        Inr ''Bid levels: '', Inr (show_nat (length (ob_bids book))), Inr newline,
        Inr ''Ask levels: '', Inr (show_nat (length (ob_asks book))), Inr newline,
        Inr (''=================================='' @ newline)])" if "\<not> crossed book"
    using that by (simp add: print_price_prints)
qed (simp add: print_live_book_def)

text \<open>The spread's format is what throws when a book is crossed.\<close>

lemma print_spread_result:
  assumes "prints head" "\<not> crossed book \<Longrightarrow> prints tail"
  shows "fst (print_all (head @ print_price label (spread_ticks book) @ tail) out) =
    (if crossed book then Inl (Invalid_argument ''Price cannot be negative.'') else Inr ())"
proof -
  from print_all_ok [OF assms(1), of "print_price label (spread_ticks book) @ tail" out]
  obtain out' where o: "print_all (head @ print_price label (spread_ticks book) @ tail) out =
      print_all (print_price label (spread_ticks book) @ tail) out'" by auto
  show ?thesis
  proof (cases "crossed book")
    case True
    then obtain s where "spread_ticks book = Some s" "s < 0" by (auto simp: crossed_def split: option.splits)
    then show ?thesis using True o by (simp add: print_price_def format_price_def)
  next
    case False
    then have "prints (print_price label (spread_ticks book) @ tail)"
      using assms(2) by (auto simp: crossed_def intro!: print_price_prints)
    then show ?thesis using False o print_all_prints by simp
  qed
qed

lemma print_live_book_result:
  assumes "book_ok book" "prints pre"
  shows "fst (print_all (pre @ print_live_book book) out) =
    (if crossed book then Inl (Invalid_argument ''Price cannot be negative.'') else Inr ())"
proof -
  obtain head tail where b: "print_live_book book = head @ print_price ''Spread:    '' (spread_ticks book) @ tail"
    "prints head" "\<not> crossed book \<longrightarrow> prints tail"
    using print_live_book_split [OF assms(1)] by blast
  have "prints (pre @ head)" using assms(2) b(2) by simp
  from print_spread_result [OF this, of book tail "''Spread:    ''" out] b show ?thesis by simp
qed

subsection \<open>Properties\<close>

text \<open>A small JSON value type as an instance of the library, for concrete messages.\<close>

datatype json = JNull | JStr string | JArr "json list" | JObj "(string \<times> json) list"

definition json_field :: "json \<Rightarrow> string \<Rightarrow> json option" where
  "json_field j key = (case j of JObj fs \<Rightarrow> map_of fs key | _ \<Rightarrow> None)"

definition json_values :: "json json_lib" where
  "json_values = \<lparr>js_null = JNull, js_parse = (\<lambda>s. JNull), js_is_discarded = (\<lambda>j. j = JNull),
     js_is_object = (\<lambda>j. case j of JObj _ \<Rightarrow> True | _ \<Rightarrow> False),
     js_is_array = (\<lambda>j. case j of JArr _ \<Rightarrow> True | _ \<Rightarrow> False),
     js_is_string = (\<lambda>j. case j of JStr _ \<Rightarrow> True | _ \<Rightarrow> False),
     js_contains = (\<lambda>j k. json_field j k \<noteq> None),
     js_at = (\<lambda>j k. case json_field j k of None \<Rightarrow> Inl (Json_exception ''key not found'') | Some v \<Rightarrow> Inr v),
     js_get_string = (\<lambda>j. case j of JStr s \<Rightarrow> Inr s | _ \<Rightarrow> Inl (Json_exception ''type must be string'')),
     js_elements = (\<lambda>j. case j of JArr js \<Rightarrow> js | _ \<Rightarrow> []),
     js_string = JStr, js_strings = (\<lambda>ss. JArr (map JStr ss)), js_object = JObj, js_dump = (\<lambda>j. Inr [])\<rparr>"

text \<open>C36 A book event of a subscribed token whose levels parse and make a valid snapshot replaces the
  token's book by that snapshot and touches no other token. It is reported as handled exactly when the
  new book is not crossed; for a crossed one the replacement stands, but printing the negative
  spread throws.\<close>
theorem book_event_replaces_book:
  assumes "feed_inv T fd" "js_is_object J m" "string_field J m ''event_type'' = Inr (Some ''book'')"
    and "string_field J m ''asset_id'' = Inr (Some t)" "fd_states fd t = Some st"
    and "parse_levels J m ''bids'' = Inr bids" "parse_levels J m ''asks'' = Inr asks"
    and "replace_snapshot bids asks (tk_book st) = (Inr (), book)" "process_message J m fd = (r, fd')"
  shows "fd_states fd' = (fd_states fd)(t \<mapsto> \<lparr>tk_book = book, tk_snapshot_received = True\<rparr>)
    \<and> r = (if crossed book then Inl (Invalid_argument ''Price cannot be negative.'') else Inr ())"
proof -
  have ok: "book_ok book"
    using replace_snapshot_ok [OF _ assms(8)] feed_inv_token [OF assms(1,5)] by (simp add: token_ok_def)
  obtain fd1 where fd1: "cout [Inr (newline @ ''Received event: ''), Inr ''book'', Inr newline] fd = (Inr (), fd1)"
    "fd_states fd1 = fd_states fd"
    by (simp add: cout_def)
  define fd2 where "fd2 = set_token t (st\<lparr>tk_book := book, tk_snapshot_received := True\<rparr>) fd1"
  have m: "process_message J m fd = cout (token_line t @ print_live_book book) fd2"
    using assms(2-8) fd1 by (simp add: process_message_def process_book_def fd2_def market_at_def)
  have "prints (token_line t)" by (simp add: token_line_def)
  from print_live_book_result [OF ok this, of "fd_out fd2"]
  have "r = (if crossed book then Inl (Invalid_argument ''Price cannot be negative.'') else Inr ())"
    using m assms(9) by (simp add: cout_def split: prod.splits)
  moreover have "fd_states fd' = fd_states fd2" using m assms(9) cout_statesD by metis
  ultimately show ?thesis using fd1(2) by (cases st) (simp add: fd2_def)
qed

definition crossed_event :: json where
  "crossed_event = JObj [(''event_type'', JStr ''book''), (''asset_id'', JStr ''T''),
     (''bids'', JArr [JObj [(''price'', JStr ''0.6''), (''size'', JStr ''10'')]]),
     (''asks'', JArr [JObj [(''price'', JStr ''0.5''), (''size'', JStr ''20'')]])]"

definition sample_feed :: feed where
  "sample_feed = \<lparr>fd_states = [''T'' \<mapsto> new_token_state], fd_out = [], fd_err = []\<rparr>"

lemma sample_feed_inv: "feed_inv {''T''} sample_feed"
  by (auto simp: feed_inv_def sample_feed_def token_ok_def new_token_state_def split: if_splits)

theorem book_event_replaces_book_witness:
  "fst (process_message json_values crossed_event sample_feed) = Inl (Invalid_argument ''Price cannot be negative.'')
   \<and> fd_states (snd (process_message json_values crossed_event sample_feed)) ''T'' =
       Some \<lparr>tk_book = \<lparr>ob_bids = [\<lparr>pl_price_ticks = 600000, pl_quantity = 10000000\<rparr>],
                          ob_asks = [\<lparr>pl_price_ticks = 500000, pl_quantity = 20000000\<rparr>]\<rparr>,
             tk_snapshot_received = True\<rparr>"
proof -
  let ?bids = "[\<lparr>pl_price_ticks = 600000, pl_quantity = 10000000\<rparr>]"
    and ?asks = "[\<lparr>pl_price_ticks = 500000, pl_quantity = 20000000\<rparr>]"
  have e: "js_is_object json_values crossed_event"
    "string_field json_values crossed_event ''event_type'' = Inr (Some ''book'')"
    "string_field json_values crossed_event ''asset_id'' = Inr (Some ''T'')"
    "fd_states sample_feed ''T'' = Some new_token_state"
    "parse_levels json_values crossed_event ''bids'' = Inr ?bids"
    "parse_levels json_values crossed_event ''asks'' = Inr ?asks"
    "replace_snapshot ?bids ?asks (tk_book new_token_state) = (Inr (), \<lparr>ob_bids = ?bids, ob_asks = ?asks\<rparr>)"
    "crossed \<lparr>ob_bids = ?bids, ob_asks = ?asks\<rparr>"
    by code_simp+
  show ?thesis
    using book_event_replaces_book [OF sample_feed_inv e(1-7) prod.collapse [symmetric]] e(8) by simp
qed

text \<open>C37 A price change of a token whose snapshot has arrived sets the quantity of its one price on its one
  side and changes nothing else; a side other than BUY and SELL is refused. Changes of a token without
  a snapshot, or that is not subscribed, have no effect on any book.\<close>
theorem price_change_sets_one_price:
  assumes "feed_inv T fd" "change_asset J change = Inr t" "change_values J change = Inr (p, q, side)"
    and "apply_price_change J change fd = (r, fd')"
  shows "case fd_states fd t of
      None \<Rightarrow> r = Inr [] \<and> fd_states fd' = fd_states fd
    | Some st \<Rightarrow>
        if \<not> tk_snapshot_received st then r = Inr [] \<and> fd_states fd' = fd_states fd
        else if side \<notin> {''BUY'', ''SELL''}
        then r = Inl (Runtime_error (''Unsupported price-change side: '' @ side)) \<and> fd_states fd' = fd_states fd
        else \<exists>book. fd_states fd' = (fd_states fd)(t \<mapsto> st\<lparr>tk_book := book\<rparr>) \<and> book_ok book
          \<and> level_qty (ob_bids book) = (if side = ''BUY'' then (level_qty (ob_bids (tk_book st)))(p := q)
                                         else level_qty (ob_bids (tk_book st)))
          \<and> level_qty (ob_asks book) = (if side = ''SELL'' then (level_qty (ob_asks (tk_book st)))(p := q)
                                         else level_qty (ob_asks (tk_book st)))"
proof -
  have ignored: "seq (cout ps fd) (\<lambda>_ fd1. (Inr [], fd1)) = (r, fd') \<Longrightarrow> prints ps \<Longrightarrow>
      r = Inr [] \<and> fd_states fd' = fd_states fd" for ps
    using cout_prints [of ps fd] by auto
  show ?thesis
  proof (cases "fd_states fd t")
    case None
    then show ?thesis using assms(2,4) ignored by (simp add: apply_price_change_def)
  next
    case (Some st)
    have pq: "0 \<le> p" "0 \<le> q" "q \<le> INT64_MAX" using change_values_range [OF assms(3)] by simp_all
    have ok: "book_ok (tk_book st)" using feed_inv_token [OF assms(1) Some] by (simp add: token_ok_def)
    obtain s book where b: "change_side side p q (tk_book st) = (s, book)" by fastforce
    have bo: "book_ok book" by (rule change_side_ok [OF ok pq b])
    have rec: "tk_snapshot_received st \<Longrightarrow> change_book J change t st fd = (r, fd')"
      using assms(2,4) Some by (simp add: apply_price_change_def market_at_def)
    have states: "tk_snapshot_received st \<Longrightarrow> fd_states fd' = (fd_states fd)(t \<mapsto> st\<lparr>tk_book := book\<rparr>)"
      using rec b assms(3) by (auto simp: change_book_def seq_def dest!: cout_statesD split: sum.splits prod.splits)
    have qty: "side \<in> {''BUY'', ''SELL''} \<Longrightarrow>
        level_qty (ob_bids book) = (if side = ''BUY'' then (level_qty (ob_bids (tk_book st)))(p := q)
                                         else level_qty (ob_bids (tk_book st)))
        \<and> level_qty (ob_asks book) = (if side = ''SELL'' then (level_qty (ob_asks (tk_book st)))(p := q)
                                         else level_qty (ob_asks (tk_book st)))"
      using b pq ok bid_order.level_qty_set_level ask_order.level_qty_set_level
      by (auto simp: change_side_def update_bid_eq update_ask_eq book_ok_def split: if_splits)
    show ?thesis
      using Some assms(2-4) ignored rec states bo qty b
      by (auto simp: apply_price_change_def market_at_def change_book_def change_side_def map_upd_triv)
  qed
qed

definition sell_change :: json where
  "sell_change = JObj [(''asset_id'', JStr ''T''), (''price'', JStr ''0.5''), (''size'', JStr ''7''), (''side'', JStr ''SELL'')]"

definition open_feed :: feed where
  "open_feed = \<lparr>fd_states = [''T'' \<mapsto> \<lparr>tk_book = empty_book, tk_snapshot_received = True\<rparr>], fd_out = [], fd_err = []\<rparr>"

lemma open_feed_inv: "feed_inv {''T''} open_feed"
  by (auto simp: feed_inv_def open_feed_def token_ok_def split: if_splits)

theorem price_change_sets_one_price_witness:
  "\<exists>book. fd_states (snd (apply_price_change json_values sell_change open_feed)) =
       [''T'' \<mapsto> \<lparr>tk_book = book, tk_snapshot_received = True\<rparr>]
     \<and> level_qty (ob_asks book) 500000 = 7000000 \<and> level_qty (ob_bids book) 500000 = 0"
proof -
  have c: "change_asset json_values sell_change = Inr ''T''"
    "change_values json_values sell_change = Inr (500000, 7000000, ''SELL'')"
    by code_simp+
  show ?thesis
    using price_change_sets_one_price [OF open_feed_inv c prod.collapse [symmetric]]
    by (auto simp: open_feed_def empty_book_def)
qed

end
