(* ===== verification/Feed_Connection.thy ===== *)
theory Feed_Connection
  imports Market_Feed
begin

text \<open>
  The connection of the feed: \<open>include/reconnect_backoff.hpp\<close>, \<open>include/heartbeat_state.hpp\<close> and the
  callbacks of \<open>WebSocketClient::stream_market\<close> in \<open>src/websocket_client.cpp\<close>. The network library only
  decides which outstanding operation completes next, with what error or message, at what time: the
  callbacks are functions on the variables they capture, and \<open>conn_step\<close> is one completion. Times are
  nanoseconds of the steady clock. The loop around the connections is \<open>Market_Stream\<close>.
\<close>

subsection \<open>Reconnection delay\<close>

record reconnect_backoff =
  rb_current_delay_seconds :: int

definition initial_delay_seconds :: int where
  "initial_delay_seconds = 1"

definition maximum_delay_seconds :: int where
  "maximum_delay_seconds = 30"

definition new_backoff :: reconnect_backoff where
  "new_backoff = \<lparr>rb_current_delay_seconds = initial_delay_seconds\<rparr>"

definition backoff_advance :: "reconnect_backoff \<Rightarrow> reconnect_backoff" where
  "backoff_advance b =
     b\<lparr>rb_current_delay_seconds := min (rb_current_delay_seconds b * 2) maximum_delay_seconds\<rparr>"

definition backoff_reset :: "reconnect_backoff \<Rightarrow> reconnect_backoff" where
  "backoff_reset b = b\<lparr>rb_current_delay_seconds := initial_delay_seconds\<rparr>"

subsection \<open>Heartbeat\<close>

type_synonym time_point = int

definition seconds :: "int \<Rightarrow> int" where
  "seconds s = s * 1000000000"

definition heartbeat_interval :: int where
  "heartbeat_interval = seconds 10"

definition pong_timeout :: int where
  "pong_timeout = seconds 20"

record heartbeat_state =
  hb_next_ping_at :: time_point
  hb_ping_sent_at :: time_point
  hb_awaiting_pong :: bool

definition new_heartbeat :: "time_point \<Rightarrow> heartbeat_state" where
  "new_heartbeat now = \<lparr>hb_next_ping_at = now + heartbeat_interval, hb_ping_sent_at = 0, hb_awaiting_pong = False\<rparr>"

definition should_send_ping :: "time_point \<Rightarrow> heartbeat_state \<Rightarrow> bool" where
  "should_send_ping now hb \<longleftrightarrow> now \<ge> hb_next_ping_at hb"

definition on_ping_sent :: "time_point \<Rightarrow> heartbeat_state \<Rightarrow> heartbeat_state" where
  "on_ping_sent now hb =
     (if \<not> hb_awaiting_pong hb then hb\<lparr>hb_awaiting_pong := True, hb_ping_sent_at := now\<rparr> else hb)
       \<lparr>hb_next_ping_at := now + heartbeat_interval\<rparr>"

definition on_pong_received :: "heartbeat_state \<Rightarrow> heartbeat_state" where
  "on_pong_received hb = hb\<lparr>hb_awaiting_pong := False\<rparr>"

definition pong_timed_out :: "time_point \<Rightarrow> heartbeat_state \<Rightarrow> bool" where
  "pong_timed_out now hb \<longleftrightarrow> hb_awaiting_pong hb \<and> now - hb_ping_sent_at hb \<ge> pong_timeout"

definition heartbeat_reset :: "time_point \<Rightarrow> heartbeat_state \<Rightarrow> heartbeat_state" where
  "heartbeat_reset now hb =
     hb\<lparr>hb_awaiting_pong := False, hb_ping_sent_at := now, hb_next_ping_at := now + heartbeat_interval\<rparr>"

subsection \<open>The variables the callbacks capture\<close>

text \<open>
  After the captured flags come what was asked of the network library: whether the timer and the
  operations of the socket were cancelled, the outstanding asynchronous operations, and how the
  connection was closed after \<open>io_context.run()\<close>.
\<close>

datatype closing = Not_closed | Socket_closed | Closing_handshake

record connection =
  cn_shutdown_requested :: bool
  cn_backoff :: reconnect_backoff
  cn_feed :: feed
  cn_heartbeat :: heartbeat_state
  cn_stopped :: bool
  cn_force_close :: bool
  cn_write_in_progress :: bool
  cn_timer_cancelled :: bool
  cn_socket_cancelled :: bool
  cn_reading :: bool
  cn_waiting :: bool
  cn_writing :: bool
  cn_closed :: closing

text \<open>Error codes with their \<open>message()\<close>.\<close>

datatype error_code = Closed_by_peer string | Operation_aborted string | Other_error string

fun ec_message :: "error_code \<Rightarrow> string" where
  "ec_message (Closed_by_peer s) = s"
| "ec_message (Operation_aborted s) = s"
| "ec_message (Other_error s) = s"

definition say :: "string \<Rightarrow> connection \<Rightarrow> connection" where
  "say s c = c\<lparr>cn_feed := (cn_feed c)\<lparr>fd_out := fd_out (cn_feed c) @ s @ newline\<rparr>\<rparr>"

definition warn :: "string \<Rightarrow> connection \<Rightarrow> connection" where
  "warn s c = c\<lparr>cn_feed := cerr (s @ newline) (cn_feed c)\<rparr>"

definition stop_connection :: "connection \<Rightarrow> connection" where
  "stop_connection c =
     (if cn_stopped c then c
      else c\<lparr>cn_stopped := True, cn_timer_cancelled := True, cn_socket_cancelled := True\<rparr>)"

definition fail_connection :: "string \<Rightarrow> connection \<Rightarrow> connection" where
  "fail_connection s c = stop_connection ((warn s c)\<lparr>cn_force_close := True\<rparr>)"

definition start_read :: "connection \<Rightarrow> connection" where
  "start_read c = (if cn_stopped c \<or> cn_shutdown_requested c then c else c\<lparr>cn_reading := True\<rparr>)"

definition schedule_heartbeat :: "connection \<Rightarrow> connection" where
  "schedule_heartbeat c = (if cn_stopped c then c else c\<lparr>cn_waiting := True\<rparr>)"

subsection \<open>The callbacks\<close>

definition handle_payload :: "'j json_lib \<Rightarrow> 'j \<Rightarrow> connection \<Rightarrow> connection" where
  "handle_payload J payload c =
     (case process_payload J payload (cn_feed c) of
        (Inr _, fd) \<Rightarrow> c\<lparr>cn_feed := fd\<rparr>
      | (Inl err, fd) \<Rightarrow>
          warn ((case err of Json_exception _ \<Rightarrow> ''Ignored malformed market payload: ''
                 | _ \<Rightarrow> ''Ignored invalid market event: '') @ what err) (c\<lparr>cn_feed := fd\<rparr>))"

definition on_message :: "'j json_lib \<Rightarrow> string \<Rightarrow> connection \<Rightarrow> connection" where
  "on_message J response c =
     (let res = parse_message J response
      in if pr_kind res = Pong
         then say ''Heartbeat PONG received'' (c\<lparr>cn_heartbeat := on_pong_received (cn_heartbeat c)\<rparr>)
         else if pr_kind res = Invalid_message
         then warn (''Ignored invalid WebSocket message: '' @ pr_error_message res) c
         else handle_payload J (pr_payload res) c)"

definition on_read :: "'j json_lib \<Rightarrow> error_code option \<Rightarrow> string \<Rightarrow> connection \<Rightarrow> connection" where
  "on_read J error response c =
     (if cn_stopped c then c
      else if cn_shutdown_requested c then stop_connection c
      else (case error of
              Some (Closed_by_peer _) \<Rightarrow> fail_connection ''WebSocket connection closed by server.'' c
            | Some err \<Rightarrow> fail_connection (''WebSocket read error: '' @ ec_message err) c
            | None \<Rightarrow> start_read (on_message J response (c\<lparr>cn_backoff := backoff_reset (cn_backoff c)\<rparr>))))"

definition send_ping :: "time_point \<Rightarrow> connection \<Rightarrow> connection" where
  "send_ping now c =
     (if should_send_ping now (cn_heartbeat c) \<and> \<not> cn_write_in_progress c
      then c\<lparr>cn_write_in_progress := True, cn_heartbeat := on_ping_sent now (cn_heartbeat c), cn_writing := True\<rparr>
      else c)"

definition on_timer :: "error_code option \<Rightarrow> time_point \<Rightarrow> connection \<Rightarrow> connection" where
  "on_timer error now c =
     (if cn_stopped c then c
      else (case error of
              Some (Operation_aborted _) \<Rightarrow> c
            | Some err \<Rightarrow> fail_connection (''Heartbeat timer error: '' @ ec_message err) c
            | None \<Rightarrow>
                if cn_shutdown_requested c then stop_connection c
                else if pong_timed_out now (cn_heartbeat c)
                then fail_connection (''WebSocket heartbeat timeout: no PONG received within ''
                       @ show_int (pong_timeout div seconds 1) @ '' seconds.'') c
                else schedule_heartbeat (send_ping now c)))"

definition on_write :: "error_code option \<Rightarrow> connection \<Rightarrow> connection" where
  "on_write error c =
     (let c1 = c\<lparr>cn_write_in_progress := False\<rparr>
      in if cn_stopped c1 then c1
         else (case error of
                 Some err \<Rightarrow> fail_connection (''WebSocket heartbeat write error: '' @ ec_message err) c1
               | None \<Rightarrow> say ''Heartbeat PING sent'' c1))"

subsection \<open>A connection and its runs\<close>

text \<open>The locals of one iteration of the outer loop, once the subscription has been sent.\<close>

definition new_connection :: "string list \<Rightarrow> time_point \<Rightarrow> bool \<Rightarrow> reconnect_backoff \<Rightarrow> connection result" where
  "new_connection token_ids now shutdown backoff =
     and_then (new_market_state token_ids) (\<lambda>states.
       Inr (schedule_heartbeat (start_read
         \<lparr>cn_shutdown_requested = shutdown, cn_backoff = backoff,
          cn_feed = \<lparr>fd_states = states, fd_out = [], fd_err = []\<rparr>, cn_heartbeat = new_heartbeat now,
          cn_stopped = False, cn_force_close = False, cn_write_in_progress = False,
          cn_timer_cancelled = False, cn_socket_cancelled = False,
          cn_reading = False, cn_waiting = False, cn_writing = False, cn_closed = Not_closed\<rparr>)))"

datatype conn_event =
    Read_completes "error_code option" string
  | Timer_fires "error_code option" time_point
  | Write_completes "error_code option"
  | Shutdown_signal

text \<open>
  A timer wait is aborted only by \<open>cancel()\<close>. What was cancelled still completes, with an error or, when it
  was done before the cancellation, without one: the rules leave that to the network.
\<close>

inductive conn_step :: "'j json_lib \<Rightarrow> conn_event \<Rightarrow> connection \<Rightarrow> connection \<Rightarrow> bool" for J where
  read: "cn_reading c \<Longrightarrow> conn_step J (Read_completes err msg) c (on_read J err msg (c\<lparr>cn_reading := False\<rparr>))"
| timer: "cn_waiting c \<Longrightarrow> (\<And>s. err = Some (Operation_aborted s) \<Longrightarrow> cn_timer_cancelled c)
    \<Longrightarrow> conn_step J (Timer_fires err now) c (on_timer err now (c\<lparr>cn_waiting := False\<rparr>))"
| written: "cn_writing c \<Longrightarrow> conn_step J (Write_completes err) c (on_write err (c\<lparr>cn_writing := False\<rparr>))"
| signal: "conn_step J Shutdown_signal c (c\<lparr>cn_shutdown_requested := True\<rparr>)"

inductive conn_runs :: "'j json_lib \<Rightarrow> connection \<Rightarrow> conn_event list \<Rightarrow> connection \<Rightarrow> bool" for J where
  start: "conn_runs J c [] c"
| step: "conn_runs J c es c1 \<Longrightarrow> conn_step J e c1 c2 \<Longrightarrow> conn_runs J c (es @ [e]) c2"

interpretation conn: machine "\<lambda>c e c'. conn_step J e c c'" "conn_runs J" for J
proof
  fix s es s' P
  assume "conn_runs J s es s'" "P [] s" "\<And>es s1 e s2. conn_runs J s es s1 \<Longrightarrow> P es s1 \<Longrightarrow> conn_step J e s1 s2 \<Longrightarrow> P (es @ [e]) s2"
  then show "P es s'" by (induction rule: conn_runs.induct) blast+
qed

inductive_cases conn_step_cases: "conn_step J e c c'"
inductive_cases conn_runs_Nil: "conn_runs J c [] c'"

text \<open>\<open>io_context.run()\<close> returns when nothing is outstanding.\<close>

definition pending :: "connection \<Rightarrow> nat" where
  "pending c = of_bool (cn_reading c) + of_bool (cn_waiting c) + of_bool (cn_writing c)"

definition run_returns :: "connection \<Rightarrow> bool" where
  "run_returns c \<longleftrightarrow> pending c = 0"

subsection \<open>After a connection\<close>

text \<open>
  What follows \<open>io_context.run()\<close>: whether the socket is still open and what \<open>close\<close> reports are the
  network's answers.
\<close>

definition finish_connection :: "bool \<Rightarrow> error_code option \<Rightarrow> connection \<Rightarrow> connection" where
  "finish_connection ws_is_open close_error c =
     (let c1 = (if cn_shutdown_requested c
                then say (newline @ ''Shutdown requested. Closing WebSocket...'') c else c)
      in if cn_force_close c1 then c1\<lparr>cn_closed := Socket_closed\<rparr>
         else if ws_is_open
         then (let c2 = c1\<lparr>cn_closed := Closing_handshake\<rparr>
               in case close_error of
                    None \<Rightarrow> c2
                  | Some (Closed_by_peer _) \<Rightarrow> c2
                  | Some err \<Rightarrow> warn (''WebSocket close warning: '' @ ec_message err) c2)
         else c1)"

subsection \<open>What the callbacks leave alone\<close>

lemma finish_connection_closes:
  "cn_closed c = Not_closed \<Longrightarrow> cn_closed (finish_connection ws_is_open close_error c) =
     (if cn_force_close c then Socket_closed else if ws_is_open then Closing_handshake else Not_closed)"
  by (auto simp: finish_connection_def Let_def say_def warn_def split: option.splits error_code.splits)

lemma say_simps [simp]:
  "cn_timer_cancelled (say s c) = cn_timer_cancelled c" "cn_socket_cancelled (say s c) = cn_socket_cancelled c"
  "cn_closed (say s c) = cn_closed c"
  "cn_stopped (say s c) = cn_stopped c" "cn_shutdown_requested (say s c) = cn_shutdown_requested c"
  "cn_force_close (say s c) = cn_force_close c" "cn_write_in_progress (say s c) = cn_write_in_progress c"
  "cn_reading (say s c) = cn_reading c" "cn_waiting (say s c) = cn_waiting c" "cn_writing (say s c) = cn_writing c"
  "cn_heartbeat (say s c) = cn_heartbeat c" "cn_backoff (say s c) = cn_backoff c"
  "fd_states (cn_feed (say s c)) = fd_states (cn_feed c)"
  by (simp_all add: say_def)

lemma warn_simps [simp]:
  "cn_timer_cancelled (warn s c) = cn_timer_cancelled c" "cn_socket_cancelled (warn s c) = cn_socket_cancelled c"
  "cn_closed (warn s c) = cn_closed c"
  "cn_stopped (warn s c) = cn_stopped c" "cn_shutdown_requested (warn s c) = cn_shutdown_requested c"
  "cn_force_close (warn s c) = cn_force_close c" "cn_write_in_progress (warn s c) = cn_write_in_progress c"
  "cn_reading (warn s c) = cn_reading c" "cn_waiting (warn s c) = cn_waiting c" "cn_writing (warn s c) = cn_writing c"
  "cn_heartbeat (warn s c) = cn_heartbeat c" "cn_backoff (warn s c) = cn_backoff c"
  "fd_states (cn_feed (warn s c)) = fd_states (cn_feed c)"
  by (simp_all add: warn_def cerr_def)

lemma fail_connection_simps [simp]:
  "cn_timer_cancelled (fail_connection s c) = (cn_timer_cancelled c \<or> \<not> cn_stopped c)"
  "cn_socket_cancelled (fail_connection s c) = (cn_socket_cancelled c \<or> \<not> cn_stopped c)"
  "cn_stopped (fail_connection s c)" "cn_shutdown_requested (fail_connection s c) = cn_shutdown_requested c"
  "cn_force_close (fail_connection s c)" "cn_write_in_progress (fail_connection s c) = cn_write_in_progress c"
  "cn_reading (fail_connection s c) = cn_reading c" "cn_waiting (fail_connection s c) = cn_waiting c"
  "cn_writing (fail_connection s c) = cn_writing c"
  "cn_heartbeat (fail_connection s c) = cn_heartbeat c" "cn_backoff (fail_connection s c) = cn_backoff c"
  "fd_states (cn_feed (fail_connection s c)) = fd_states (cn_feed c)"
  by (simp_all add: fail_connection_def stop_connection_def)

lemma handle_payload_simps [simp]:
  "cn_timer_cancelled (handle_payload J p c) = cn_timer_cancelled c"
  "cn_socket_cancelled (handle_payload J p c) = cn_socket_cancelled c"
  "cn_stopped (handle_payload J p c) = cn_stopped c"
  "cn_shutdown_requested (handle_payload J p c) = cn_shutdown_requested c"
  "cn_force_close (handle_payload J p c) = cn_force_close c"
  "cn_write_in_progress (handle_payload J p c) = cn_write_in_progress c"
  "cn_reading (handle_payload J p c) = cn_reading c" "cn_waiting (handle_payload J p c) = cn_waiting c"
  "cn_writing (handle_payload J p c) = cn_writing c"
  "cn_heartbeat (handle_payload J p c) = cn_heartbeat c" "cn_backoff (handle_payload J p c) = cn_backoff c"
  by (simp_all add: handle_payload_def split: prod.splits sum.splits)

lemma on_message_simps [simp]:
  "cn_timer_cancelled (on_message J m c) = cn_timer_cancelled c"
  "cn_socket_cancelled (on_message J m c) = cn_socket_cancelled c"
  "cn_stopped (on_message J m c) = cn_stopped c" "cn_shutdown_requested (on_message J m c) = cn_shutdown_requested c"
  "cn_force_close (on_message J m c) = cn_force_close c"
  "cn_write_in_progress (on_message J m c) = cn_write_in_progress c"
  "cn_reading (on_message J m c) = cn_reading c" "cn_waiting (on_message J m c) = cn_waiting c"
  "cn_writing (on_message J m c) = cn_writing c" "cn_backoff (on_message J m c) = cn_backoff c"
  by (simp_all add: on_message_def Let_def)

lemma handle_payload_inv: "feed_inv T (cn_feed c) \<Longrightarrow> feed_inv T (cn_feed (handle_payload J p c))"
  using process_payload_inv [of T "cn_feed c" J p]
  by (auto simp: handle_payload_def split: prod.splits sum.splits elim: feed_inv_states)

lemma on_message_inv: "feed_inv T (cn_feed c) \<Longrightarrow> feed_inv T (cn_feed (on_message J m c))"
  using handle_payload_inv by (auto simp: on_message_def Let_def elim: feed_inv_states)

lemmas callback_defs = on_read_def on_timer_def on_write_def start_read_def schedule_heartbeat_def
  stop_connection_def send_ping_def Let_def

subsection \<open>The invariant of a connection\<close>

definition delay_ok :: "reconnect_backoff \<Rightarrow> bool" where
  "delay_ok b \<longleftrightarrow> 1 \<le> rb_current_delay_seconds b \<and> rb_current_delay_seconds b \<le> 30"

text \<open>
  The books are well formed; a connection that is not stopped waits for its timer and, without a
  shutdown request, for a message; what is outstanding is cancelled exactly when it is stopped; a ping that is not answered is older than the interval by the time
  the next one is due.
\<close>

definition conn_inv :: "string set \<Rightarrow> connection \<Rightarrow> bool" where
  "conn_inv T c \<longleftrightarrow> feed_inv T (cn_feed c) \<and> delay_ok (cn_backoff c)
     \<and> (cn_stopped c \<or> cn_waiting c) \<and> (cn_stopped c \<or> cn_shutdown_requested c \<or> cn_reading c)
     \<and> (cn_force_close c \<longrightarrow> cn_stopped c) \<and> cn_writing c = cn_write_in_progress c
     \<and> cn_timer_cancelled c = cn_stopped c \<and> cn_socket_cancelled c = cn_stopped c
     \<and> (hb_awaiting_pong (cn_heartbeat c) \<longrightarrow>
          hb_ping_sent_at (cn_heartbeat c) + heartbeat_interval \<le> hb_next_ping_at (cn_heartbeat c))"

lemma delay_ok_simps [simp]: "delay_ok new_backoff" "delay_ok (backoff_reset b)" "delay_ok b \<Longrightarrow> delay_ok (backoff_advance b)"
  by (simp_all add: delay_ok_def new_backoff_def backoff_reset_def backoff_advance_def
      initial_delay_seconds_def maximum_delay_seconds_def)

lemma on_message_heartbeat:
  "cn_heartbeat (on_message J m c) = (if pr_kind (parse_message J m) = Pong then on_pong_received (cn_heartbeat c) else cn_heartbeat c)"
  by (simp add: on_message_def Let_def)

lemma on_ping_sent_simps [simp]:
  "hb_next_ping_at (on_ping_sent now hb) = now + heartbeat_interval" "hb_awaiting_pong (on_ping_sent now hb)"
  "hb_ping_sent_at (on_ping_sent now hb) = (if hb_awaiting_pong hb then hb_ping_sent_at hb else now)"
  by (simp_all add: on_ping_sent_def)

lemma on_pong_received_simps [simp]:
  "hb_next_ping_at (on_pong_received hb) = hb_next_ping_at hb" "\<not> hb_awaiting_pong (on_pong_received hb)"
  by (simp_all add: on_pong_received_def)

lemma heartbeat_interval_pos [simp]: "0 < heartbeat_interval"
  by (simp add: heartbeat_interval_def seconds_def)

lemma conn_step_inv:
  assumes "conn_step J e c c'" "conn_inv T c"
  shows "conn_inv T c'"
  using assms(1)
proof cases
  case (read err msg)
  then show ?thesis
    using assms(2)
    by (auto simp: conn_inv_def callback_defs on_message_heartbeat on_message_inv elim: feed_inv_states
        split: option.splits error_code.splits)
next
  case (timer err now)
  then show ?thesis
    using assms(2)
    by (auto simp: conn_inv_def callback_defs should_send_ping_def heartbeat_interval_def seconds_def elim: feed_inv_states
        split: option.splits error_code.splits)
next
  case (written err)
  then show ?thesis
    using assms(2)
    by (auto simp: conn_inv_def callback_defs elim: feed_inv_states split: option.splits error_code.splits)
next
  case signal
  then show ?thesis using assms(2) by (auto simp: conn_inv_def)
qed

lemma conn_runs_inv: "conn_runs J c es c' \<Longrightarrow> conn_inv T c \<Longrightarrow> conn_inv T c'"
  by (rule conn.keeps [of "conn_inv T" J]) (blast intro: conn_step_inv)+

lemma add_tokens_inv:
  assumes "add_tokens ids states = Inr states'" "\<forall>st \<in> ran states. token_ok st"
  shows "dom states' = dom states \<union> set ids \<and> (\<forall>st \<in> ran states'. token_ok st)"
  using assms
proof (induction ids arbitrary: states)
  case (Cons t ids)
  let ?s = "if states t = None then states(t \<mapsto> new_token_state) else states"
  have ok: "\<forall>st \<in> ran ?s. token_ok st"
    using Cons.prems(2) by (auto simp: ran_def token_ok_def new_token_state_def split: if_splits)
  have "add_tokens ids ?s = Inr states'" using Cons.prems(1) by (auto split: if_splits)
  from Cons.IH [OF this ok] show ?case by (cases "states t") auto
qed simp

lemma new_connection_inv:
  assumes "new_connection ids now shutdown b = Inr c" "delay_ok b"
  shows "conn_inv (set ids) c \<and> \<not> cn_stopped c"
proof -
  obtain states where st: "new_market_state ids = Inr states"
    using assms(1) by (auto simp: new_connection_def and_then_eq_Inr_iff)
  then have "feed_inv (set ids) \<lparr>fd_states = states, fd_out = [], fd_err = []\<rparr>"
    using add_tokens_inv [of ids Map.empty] by (simp add: new_market_state_def feed_inv_def split: if_splits)
  then show ?thesis
    using assms st
    by (cases shutdown)
      (auto simp: new_connection_def conn_inv_def schedule_heartbeat_def start_read_def new_heartbeat_def)
qed

subsection \<open>Silence and shutdown\<close>


fun last_tick :: "time_point \<Rightarrow> conn_event list \<Rightarrow> time_point" where
  "last_tick t [] = t"
| "last_tick t (Timer_fires err now # es) = last_tick now es"
| "last_tick t (e # es) = last_tick t es"


lemma last_tick_append [simp]: "last_tick t (es @ fs) = last_tick (last_tick t es) fs"
  by (induction t es rule: last_tick.induct) auto




text \<open>Once a stop or a shutdown is requested no callback starts another operation.\<close>

definition completions :: "conn_event list \<Rightarrow> nat" where
  "completions es = length (filter (\<lambda>e. e \<noteq> Shutdown_signal) es)"

lemma closing_step:
  assumes "conn_step J e c c'" "cn_stopped c \<or> cn_shutdown_requested c"
  shows "(cn_stopped c' \<or> cn_shutdown_requested c') \<and> completions [e] + pending c' = pending c
    \<and> fd_states (cn_feed c') = fd_states (cn_feed c)"
  using assms(1)
proof cases
  case (read err msg)
  then show ?thesis using assms(2)
    by (cases "cn_stopped c") (simp_all add: completions_def pending_def on_read_def stop_connection_def)
next
  case (timer err now)
  then show ?thesis
    using assms(2)
    by (cases err; cases "the err"; cases "cn_stopped c")
      (simp_all add: completions_def pending_def on_timer_def stop_connection_def)
next
  case (written err)
  then show ?thesis
    using assms(2) by (cases err; cases "cn_stopped c") (simp_all add: completions_def pending_def on_write_def Let_def)
next
  case signal
  then show ?thesis by (simp add: completions_def pending_def)
qed

lemma closing_runs:
  assumes "conn_runs J c es c'" "cn_stopped c \<or> cn_shutdown_requested c"
  shows "(cn_stopped c' \<or> cn_shutdown_requested c') \<and> completions es + pending c' = pending c
    \<and> fd_states (cn_feed c') = fd_states (cn_feed c)"
  using assms
proof (induction rule: conn_runs.induct)
  case (step c es c1 e c2)
  then show ?case using closing_step [OF step(2)] by (auto simp: completions_def)
qed (simp add: completions_def)

subsection \<open>Reconnecting\<close>

text \<open>The delay doubles with every attempt that receives nothing, up to thirty seconds.\<close>

lemma backoff_sequence: "rb_current_delay_seconds ((backoff_advance ^^ n) new_backoff) = min (2 ^ n) 30"
  by (induction n) (simp_all add: new_backoff_def backoff_advance_def initial_delay_seconds_def maximum_delay_seconds_def)

subsection \<open>Executing a run\<close>

fun perform :: "'j json_lib \<Rightarrow> conn_event \<Rightarrow> connection \<Rightarrow> connection option" where
  "perform J (Read_completes err msg) c =
     (if cn_reading c then Some (on_read J err msg (c\<lparr>cn_reading := False\<rparr>)) else None)"
| "perform J (Timer_fires err now) c =
     (if cn_waiting c \<and> err = None then Some (on_timer err now (c\<lparr>cn_waiting := False\<rparr>)) else None)"
| "perform J (Write_completes err) c =
     (if cn_writing c then Some (on_write err (c\<lparr>cn_writing := False\<rparr>)) else None)"
| "perform J Shutdown_signal c = Some (c\<lparr>cn_shutdown_requested := True\<rparr>)"

fun perform_all :: "'j json_lib \<Rightarrow> conn_event list \<Rightarrow> connection \<Rightarrow> connection option" where
  "perform_all J [] c = Some c"
| "perform_all J (e # es) c = (case perform J e c of None \<Rightarrow> None | Some c1 \<Rightarrow> perform_all J es c1)"

lemma perform_step: "perform J e c = Some c' \<Longrightarrow> conn_step J e c c'"
  by (cases e) (auto split: if_splits intro: conn_step.intros)

lemma perform_all_runs: "perform_all J es c1 = Some c2 \<Longrightarrow> conn_runs J c fs c1 \<Longrightarrow> conn_runs J c (fs @ es) c2"
proof (induction es arbitrary: c1 fs)
  case (Cons e es)
  then obtain c3 where "perform J e c1 = Some c3" "perform_all J es c3 = Some c2" by (auto split: option.splits)
  then show ?case using Cons.IH [of c3 "fs @ [e]"] Cons.prems(2) perform_step conn_runs.step by fastforce
qed simp

definition sample_connection :: connection where
  "sample_connection = (case new_connection [''T''] 0 False new_backoff of Inr c \<Rightarrow> c)"

lemma new_sample_connection: "new_connection [''T''] 0 False new_backoff = Inr sample_connection"
  by (simp add: sample_connection_def new_connection_def new_market_state_def)

subsection \<open>Properties\<close>

lemma on_message_invalid:
  "pr_kind (parse_message J m) = Invalid_message \<Longrightarrow> fd_states (cn_feed (on_message J m c)) = fd_states (cn_feed c)"
  by (simp add: on_message_def Let_def)

lemma message_keeps_reading:
  assumes "conn_step J (Read_completes None msg) c c2" "conn_inv T c" "\<not> cn_stopped c" "\<not> cn_shutdown_requested c"
  shows "\<not> cn_stopped c2 \<and> \<not> cn_force_close c2 \<and> cn_reading c2 \<and> cn_waiting c2
    \<and> (pr_kind (parse_message J msg) = Invalid_message \<longrightarrow> fd_states (cn_feed c2) = fd_states (cn_feed c))"
  using assms(1)
proof cases
  case read
  then show ?thesis
    using assms(2-4) by (auto simp: conn_inv_def on_read_def start_read_def on_message_invalid)
qed

text \<open>C32 Whatever the network and the server do on a connection, the books stay those of the subscribed
  tokens and well formed, the reconnection delay stays between one and thirty seconds, and until it
  is stopped the connection keeps waiting for its timer and, unless shutdown was requested, for
  the next message. No message, however malformed, ends the reading: the connection that receives it
  is not stopped, reads on and waits for its timer, and an invalid message leaves the books alone.\<close>
theorem connection_keeps_books:
  assumes "new_connection ids now shutdown b = Inr c" "delay_ok b" "conn_runs J c es c'"
  shows "dom (fd_states (cn_feed c')) = set ids
    \<and> (\<forall>t st. fd_states (cn_feed c') t = Some st \<longrightarrow> book_ok (tk_book st) \<and> (tk_snapshot_received st \<or> tk_book st = empty_book))
    \<and> 1 \<le> rb_current_delay_seconds (cn_backoff c') \<and> rb_current_delay_seconds (cn_backoff c') \<le> 30
    \<and> (\<not> cn_stopped c' \<longrightarrow> cn_waiting c' \<and> (cn_shutdown_requested c' \<or> cn_reading c'))
    \<and> (\<forall>msg c2. \<not> cn_stopped c' \<longrightarrow> \<not> cn_shutdown_requested c' \<longrightarrow> conn_step J (Read_completes None msg) c' c2
         \<longrightarrow> \<not> cn_stopped c2 \<and> \<not> cn_force_close c2 \<and> cn_reading c2 \<and> cn_waiting c2
           \<and> (pr_kind (parse_message J msg) = Invalid_message \<longrightarrow> fd_states (cn_feed c2) = fd_states (cn_feed c')))"
proof -
  have inv: "conn_inv (set ids) c'" using conn_runs_inv [OF assms(3)] new_connection_inv [OF assms(1,2)] by blast
  then have feed: "feed_inv (set ids) (cn_feed c')" by (simp add: conn_inv_def)
  show ?thesis
  proof (intro conjI)
    show "\<forall>msg c2. \<not> cn_stopped c' \<longrightarrow> \<not> cn_shutdown_requested c' \<longrightarrow> conn_step J (Read_completes None msg) c' c2
         \<longrightarrow> \<not> cn_stopped c2 \<and> \<not> cn_force_close c2 \<and> cn_reading c2 \<and> cn_waiting c2
           \<and> (pr_kind (parse_message J msg) = Invalid_message \<longrightarrow> fd_states (cn_feed c2) = fd_states (cn_feed c'))"
      using message_keeps_reading [OF _ inv] by blast
    show "\<not> cn_stopped c' \<longrightarrow> cn_waiting c' \<and> (cn_shutdown_requested c' \<or> cn_reading c')"
      using inv by (auto simp: conn_inv_def)
    show "\<forall>t st. fd_states (cn_feed c') t = Some st \<longrightarrow> book_ok (tk_book st) \<and> (tk_snapshot_received st \<or> tk_book st = empty_book)"
      using feed_inv_token [OF feed] by (auto simp: token_ok_def)
  qed (use inv feed in \<open>simp_all add: conn_inv_def delay_ok_def feed_inv_def\<close>)
qed

theorem connection_keeps_books_witness:
  "\<exists>c'. conn_runs json_values sample_connection [Read_completes None ''?'', Timer_fires None (seconds 1)] c'
     \<and> dom (fd_states (cn_feed c')) = {''T''} \<and> cn_reading c' \<and> cn_waiting c'"
proof -
  let ?es = "[Read_completes None ''?'', Timer_fires None (seconds 1)]"
  have p: "case perform_all json_values ?es sample_connection of None \<Rightarrow> False
    | Some c' \<Rightarrow> \<not> cn_stopped c' \<and> \<not> cn_shutdown_requested c'" by code_simp
  then obtain c' where c': "perform_all json_values ?es sample_connection = Some c'"
    "\<not> cn_stopped c'" "\<not> cn_shutdown_requested c'" by (auto split: option.splits)
  have r: "conn_runs json_values sample_connection ?es c'"
    using perform_all_runs [OF c'(1) conn_runs.start] by simp
  show ?thesis using connection_keeps_books [OF new_sample_connection _ r] r c'(2,3) by auto
qed



text \<open>While anything is outstanding something can complete.\<close>

lemma pending_completes:
  assumes "pending c \<noteq> 0"
  shows "\<exists>e c'. e \<noteq> Shutdown_signal \<and> conn_step J e c c'"
proof -
  consider "cn_reading c" | "cn_waiting c" | "cn_writing c" using assms by (auto simp: pending_def split: if_splits)
  then have "\<exists>e. e \<noteq> Shutdown_signal \<and> (\<exists>c'. perform J e c = Some c')"
    by cases (force intro: exI [of _ "Read_completes None []"] exI [of _ "Timer_fires None 0"]
        exI [of _ "Write_completes None"])+
  then show ?thesis using perform_step by blast
qed

end
