(* ===== verification/Market_Stream.thy ===== *)
theory Market_Stream
  imports Feed_Connection
begin

text \<open>
  The loop of \<open>WebSocketClient::stream_market\<close> in \<open>src/websocket_client.cpp\<close>: it installs the signal
  handlers, sets a connection up, runs it until nothing is outstanding, waits and tries again, until a
  signal asks it to stop. A step of the model is a stretch of the loop between two points where the
  thread blocks (in the network library, in \<open>io_context.run()\<close>, in \<open>sleep_for\<close>); the signal handler can
  run between any two of them. What the network library answers labels the step.
\<close>

subsection \<open>The variables of the loop\<close>

datatype signal_handler = Previous_handler | Shutdown_handler

datatype stream_phase =
    Loop_head
  | Connecting
  | Streaming connection
  | Disconnected
  | Waiting_to_reconnect int int
  | Stopped

record market_stream =
  ms_shutdown_requested :: bool
  ms_sigint :: signal_handler
  ms_sigterm :: signal_handler
  ms_backoff :: reconnect_backoff
  ms_out :: string
  ms_err :: string
  ms_phase :: stream_phase

definition ms_say :: "string \<Rightarrow> market_stream \<Rightarrow> market_stream" where
  "ms_say s m = m\<lparr>ms_out := ms_out m @ s @ newline\<rparr>"

definition ms_warn :: "string \<Rightarrow> market_stream \<Rightarrow> market_stream" where
  "ms_warn s m = m\<lparr>ms_err := ms_err m @ s @ newline\<rparr>"

definition handle_shutdown_signal :: "market_stream \<Rightarrow> market_stream" where
  "handle_shutdown_signal m = m\<lparr>ms_shutdown_requested := True\<rparr>"

definition build_subscription_message :: "'j json_lib \<Rightarrow> string list \<Rightarrow> string result" where
  "build_subscription_message J token_ids = build_market J token_ids"

text \<open>What comes before the loop. The handlers are installed before the token ids are checked.\<close>

definition stream_begin :: "'j json_lib \<Rightarrow> string list \<Rightarrow> market_stream \<Rightarrow> (unit, market_stream) outcome" where
  "stream_begin J token_ids m =
     (let m1 = m\<lparr>ms_backoff := new_backoff, ms_shutdown_requested := False, ms_sigint := Shutdown_handler,
                ms_sigterm := Shutdown_handler\<rparr>
      in case build_subscription_message J token_ids of
           Inl err \<Rightarrow> (Inl err, m1)
         | Inr subscription_message \<Rightarrow> (Inr (), (ms_say ''Press Ctrl+C to stop streaming.'' m1)\<lparr>ms_phase := Loop_head\<rparr>))"

text \<open>The overload for one token.\<close>

definition stream_begin_one :: "'j json_lib \<Rightarrow> string \<Rightarrow> market_stream \<Rightarrow> (unit, market_stream) outcome" where
  "stream_begin_one J token_id = stream_begin J [token_id]"

subsection \<open>Setting a connection up\<close>

text \<open>What the network library answers to the calls of one attempt, in their order.\<close>

record network_answers =
  na_contexts :: "unit result"
  na_set_hostname :: bool
  na_resolve :: "unit result"
  na_connect :: "unit result"
  na_tls_handshake :: "unit result"
  na_ws_handshake :: "unit result"
  na_send_subscription :: "unit result"

definition feed_host :: string where
  "feed_host = ''ws-subscriptions-clob.polymarket.com''"

definition set_up :: "string list \<Rightarrow> network_answers \<Rightarrow> time_point \<Rightarrow> market_stream \<Rightarrow> (connection, market_stream) outcome" where
  "set_up token_ids na now m =
     seq (na_contexts na, m) (\<lambda>_ m.
     seq (if \<not> na_set_hostname na then Inl (Runtime_error ''Failed to set TLS hostname.'') else Inr (), m) (\<lambda>_ m.
     seq (na_resolve na, m) (\<lambda>_ m.
     seq (na_connect na, m) (\<lambda>_ m.
     seq (na_tls_handshake na, m) (\<lambda>_ m.
     seq (na_ws_handshake na, m) (\<lambda>_ m.
     seq (na_send_subscription na, ms_say (''Connected to '' @ feed_host) m) (\<lambda>_ m.
       (let m1 = ms_say ''Subscription sent'' m
        in (new_connection token_ids now (ms_shutdown_requested m1) (ms_backoff m1), m1)))))))))"

text \<open>The variables that outlive a connection, as the connection leaves them.\<close>

definition share :: "connection \<Rightarrow> market_stream \<Rightarrow> market_stream" where
  "share c m = m\<lparr>ms_shutdown_requested := cn_shutdown_requested c, ms_backoff := cn_backoff c\<rparr>"

definition hand_back :: "connection \<Rightarrow> market_stream \<Rightarrow> market_stream" where
  "hand_back c m = (share c m)\<lparr>ms_out := ms_out m @ fd_out (cn_feed c), ms_err := ms_err m @ fd_err (cn_feed c)\<rparr>"

subsection \<open>The loop\<close>

definition stream_end :: "market_stream \<Rightarrow> market_stream" where
  "stream_end m =
     (ms_say ''WebSocket stream stopped cleanly.'' (m\<lparr>ms_sigint := Previous_handler, ms_sigterm := Previous_handler\<rparr>))
       \<lparr>ms_phase := Stopped\<rparr>"

definition at_head :: "market_stream \<Rightarrow> market_stream" where
  "at_head m = (if \<not> ms_shutdown_requested m then m\<lparr>ms_phase := Connecting\<rparr> else stream_end m)"

text \<open>The end of an attempt: the running connection, or the catch block.\<close>

definition connect_stream :: "string list \<Rightarrow> network_answers \<Rightarrow> time_point \<Rightarrow> market_stream \<Rightarrow> market_stream" where
  "connect_stream token_ids na now m =
     (case set_up token_ids na now m of
        (Inr c, m1) \<Rightarrow> m1\<lparr>ms_phase := Streaming c\<rparr>
      | (Inl err, m1) \<Rightarrow>
          (if \<not> ms_shutdown_requested m1 then ms_warn (''WebSocket connection error: '' @ what err) m1 else m1)
            \<lparr>ms_phase := Disconnected\<rparr>)"

definition run_returned :: "bool \<Rightarrow> error_code option \<Rightarrow> connection \<Rightarrow> market_stream \<Rightarrow> market_stream" where
  "run_returned ws_is_open close_error c m =
     (hand_back (finish_connection ws_is_open close_error c) m)\<lparr>ms_phase := Disconnected\<rparr>"

definition after_connection :: "market_stream \<Rightarrow> market_stream" where
  "after_connection m =
     (if ms_shutdown_requested m then stream_end m
      else (let reconnect_delay_seconds = rb_current_delay_seconds (ms_backoff m)
            in (ms_say (''Reconnecting in '' @ show_int reconnect_delay_seconds @ '' seconds...'') m)
                 \<lparr>ms_phase := Waiting_to_reconnect 0 reconnect_delay_seconds\<rparr>))"

text \<open>One turn of the inner loop: another second, or its end.\<close>

definition wait_second :: "int \<Rightarrow> int \<Rightarrow> market_stream \<Rightarrow> market_stream" where
  "wait_second second delay m =
     (if second < delay \<and> \<not> ms_shutdown_requested m
      then m\<lparr>ms_phase := Waiting_to_reconnect (second + 1) delay\<rparr>
      else m\<lparr>ms_backoff := backoff_advance (ms_backoff m), ms_phase := Loop_head\<rparr>)"

datatype stream_event =
    Signalled
  | Head
  | Set_up network_answers time_point
  | Network conn_event
  | Run_returned bool "error_code option"
  | After
  | Second_passed
  | Wait_over

inductive stream_step :: "'j json_lib \<Rightarrow> string list \<Rightarrow> stream_event \<Rightarrow> market_stream \<Rightarrow> market_stream \<Rightarrow> bool"
  for J token_ids where
  signalled: "ms_sigint m = Shutdown_handler \<or> ms_sigterm m = Shutdown_handler \<Longrightarrow> (\<And>c. ms_phase m \<noteq> Streaming c) \<Longrightarrow>
    stream_step J token_ids Signalled m (handle_shutdown_signal m)"
| head: "ms_phase m = Loop_head \<Longrightarrow> stream_step J token_ids Head m (at_head m)"
| connected: "ms_phase m = Connecting \<Longrightarrow> stream_step J token_ids (Set_up na now) m (connect_stream token_ids na now m)"
| network: "ms_phase m = Streaming c \<Longrightarrow> conn_step J e c c' \<Longrightarrow>
    stream_step J token_ids (Network e) m ((share c' m)\<lparr>ms_phase := Streaming c'\<rparr>)"
| returned: "ms_phase m = Streaming c \<Longrightarrow> run_returns c \<Longrightarrow>
    stream_step J token_ids (Run_returned ws_is_open close_error) m (run_returned ws_is_open close_error c m)"
| after: "ms_phase m = Disconnected \<Longrightarrow> stream_step J token_ids After m (after_connection m)"
| second: "ms_phase m = Waiting_to_reconnect s delay \<Longrightarrow>
    e = (if s < delay \<and> \<not> ms_shutdown_requested m then Second_passed else Wait_over) \<Longrightarrow>
    stream_step J token_ids e m (wait_second s delay m)"

inductive stream_runs :: "'j json_lib \<Rightarrow> string list \<Rightarrow> market_stream \<Rightarrow> stream_event list \<Rightarrow> market_stream \<Rightarrow> bool"
  for J token_ids m where
  stream_start: "stream_runs J token_ids m [] m"
| stream_more: "stream_runs J token_ids m es m1 \<Longrightarrow> stream_step J token_ids e m1 m2 \<Longrightarrow> stream_runs J token_ids m (es @ [e]) m2"

interpretation stream: machine "\<lambda>m e m'. stream_step J ids e m m'" "stream_runs J ids" for J ids
proof
  fix s es s' P
  assume "stream_runs J ids s es s'" "P [] s"
    "\<And>es s1 e s2. stream_runs J ids s es s1 \<Longrightarrow> P es s1 \<Longrightarrow> stream_step J ids e s1 s2 \<Longrightarrow> P (es @ [e]) s2"
  then show "P es s'" by (induction rule: stream_runs.induct) blast+
qed

subsection \<open>The invariant of the loop\<close>

definition is_signal :: "stream_event \<Rightarrow> bool" where
  "is_signal e \<longleftrightarrow> e = Signalled \<or> e = Network Shutdown_signal"

definition stopped_cleanly :: "market_stream \<Rightarrow> bool" where
  "stopped_cleanly m \<longleftrightarrow> ms_sigint m = Previous_handler \<and> ms_sigterm m = Previous_handler
     \<and> (\<exists>out. ms_out m = out @ ''WebSocket stream stopped cleanly.'' @ newline)"

definition stream_inv :: "string set \<Rightarrow> market_stream \<Rightarrow> bool" where
  "stream_inv T m \<longleftrightarrow> delay_ok (ms_backoff m)
     \<and> (if ms_phase m = Stopped then ms_shutdown_requested m \<and> stopped_cleanly m
        else ms_sigint m = Shutdown_handler \<and> ms_sigterm m = Shutdown_handler)
     \<and> (case ms_phase m of
          Streaming c \<Rightarrow> conn_inv T c \<and> cn_shutdown_requested c = ms_shutdown_requested m \<and> cn_backoff c = ms_backoff m
        | Waiting_to_reconnect s d \<Rightarrow> 0 \<le> s \<and> s \<le> d \<and> d \<le> 30
        | _ \<Rightarrow> True)"

lemma ms_fields [simp]:
  "ms_phase (ms_say s m) = ms_phase m" "ms_shutdown_requested (ms_say s m) = ms_shutdown_requested m"
  "ms_backoff (ms_say s m) = ms_backoff m" "ms_sigint (ms_say s m) = ms_sigint m" "ms_sigterm (ms_say s m) = ms_sigterm m"
  "ms_phase (ms_warn s m) = ms_phase m" "ms_shutdown_requested (ms_warn s m) = ms_shutdown_requested m"
  "ms_backoff (ms_warn s m) = ms_backoff m" "ms_sigint (ms_warn s m) = ms_sigint m" "ms_sigterm (ms_warn s m) = ms_sigterm m"
  "ms_out (ms_say s m) = ms_out m @ s @ newline"
  by (simp_all add: ms_say_def ms_warn_def)

lemma finish_connection_fields [simp]:
  "cn_shutdown_requested (finish_connection w ce c) = cn_shutdown_requested c"
  "cn_backoff (finish_connection w ce c) = cn_backoff c"
  by (simp_all add: finish_connection_def Let_def split: option.splits error_code.splits)

lemma new_connection_shares:
  "new_connection ids now shutdown b = Inr c \<Longrightarrow>
   cn_shutdown_requested c = shutdown \<and> cn_backoff c = b \<and> pending c = (if shutdown then 1 else 2)"
  by (cases shutdown) (auto simp: new_connection_def and_then_eq_Inr_iff schedule_heartbeat_def start_read_def pending_def)

lemma set_up_frame:
  assumes "set_up ids na now m = (r, m')"
  shows "ms_shutdown_requested m' = ms_shutdown_requested m" "ms_backoff m' = ms_backoff m"
    "ms_sigint m' = ms_sigint m" "ms_sigterm m' = ms_sigterm m" "ms_phase m' = ms_phase m"
    "r = Inr c \<Longrightarrow> new_connection ids now (ms_shutdown_requested m) (ms_backoff m) = Inr c"
  using assms by (auto simp: set_up_def seq_def Let_def split: if_splits sum.splits)

lemma stream_step_inv:
  assumes "stream_step J ids e m m'" "stream_inv (set ids) m"
  shows "stream_inv (set ids) m'"
  using assms(1)
proof cases
  case signalled
  then show ?thesis using assms(2)
    by (auto simp: stream_inv_def handle_shutdown_signal_def stopped_cleanly_def split: stream_phase.splits)
next
  case head
  then show ?thesis using assms(2) by (auto simp: stream_inv_def at_head_def stream_end_def stopped_cleanly_def)
next
  case (connected na now)
  obtain r m1 where su: "set_up ids na now m = (r, m1)" by fastforce
  show ?thesis
  proof (cases r)
    case (Inl err)
    then show ?thesis using assms(2) connected su set_up_frame [OF su] by (simp add: stream_inv_def connect_stream_def)
  next
    case (Inr c)
    note c = set_up_frame(6) [OF su Inr]
    have "conn_inv (set ids) c" using new_connection_inv [OF c] assms(2) by (simp add: stream_inv_def)
    then show ?thesis
      using assms(2) connected su Inr set_up_frame [OF su] new_connection_shares [OF c]
      by (simp add: stream_inv_def connect_stream_def)
  qed
next
  case (network c e c')
  have "conn_inv (set ids) c" using assms(2) network(3) by (simp add: stream_inv_def)
  then have "conn_inv (set ids) c'" using conn_step_inv [OF network(4)] by simp
  then show ?thesis using assms(2) network(2,3) by (simp add: stream_inv_def share_def) (simp add: conn_inv_def)
next
  case (returned c w ce)
  then show ?thesis using assms(2) by (simp add: stream_inv_def run_returned_def hand_back_def share_def)
next
  case after
  then show ?thesis using assms(2)
    by (auto simp: stream_inv_def after_connection_def stream_end_def stopped_cleanly_def Let_def delay_ok_def)
next
  case (second s d)
  then show ?thesis using assms(2) by (auto simp: stream_inv_def wait_second_def)
qed

lemma stream_runs_inv: "stream_runs J ids m es m' \<Longrightarrow> stream_inv (set ids) m \<Longrightarrow> stream_inv (set ids) m'"
  by (rule stream.keeps [of "stream_inv (set ids)" J ids]) (blast intro: stream_step_inv)+

lemma stream_begin_inv:
  assumes "stream_begin J ids m0 = (Inr (), m)"
  shows "stream_inv (set ids) m" "\<not> ms_shutdown_requested m"
  using assms by (auto simp: stream_begin_def stream_inv_def Let_def split: sum.splits)

subsection \<open>Progress and stopping\<close>

lemma conn_step_shutdown:
  "conn_step J e c c' \<Longrightarrow> cn_shutdown_requested c' \<longleftrightarrow> cn_shutdown_requested c \<or> e = Shutdown_signal"
  by (erule conn_step.cases) (auto simp: callback_defs split: option.splits error_code.splits)

lemma stream_progress:
  assumes "ms_phase m \<noteq> Stopped"
  shows "\<exists>e m'. \<not> is_signal e \<and> stream_step J ids e m m'"
proof (cases "ms_phase m")
  case Loop_head
  then show ?thesis using stream_step.head by (fastforce simp: is_signal_def)
next
  case Connecting
  then show ?thesis using stream_step.connected by (fastforce simp: is_signal_def)
next
  case (Streaming c)
  show ?thesis
  proof (cases "pending c = 0")
    case True
    then show ?thesis using stream_step.returned [OF Streaming] by (fastforce simp: is_signal_def run_returns_def)
  next
    case False
    then obtain e c' where "e \<noteq> Shutdown_signal" "conn_step J e c c'" using pending_completes by blast
    then show ?thesis using stream_step.network [OF Streaming] by (fastforce simp: is_signal_def)
  qed
next
  case Disconnected
  then show ?thesis using stream_step.after by (fastforce simp: is_signal_def)
next
  case (Waiting_to_reconnect s d)
  have "\<not> is_signal (if s < d \<and> \<not> ms_shutdown_requested m then Second_passed else Wait_over)" by (simp add: is_signal_def)
  then show ?thesis using stream_step.second [OF Waiting_to_reconnect refl, of J ids] by blast
qed (use assms in simp)

text \<open>How many steps are left once a shutdown is requested.\<close>

fun stopping_steps :: "stream_phase \<Rightarrow> nat" where
  "stopping_steps Stopped = 0"
| "stopping_steps Loop_head = 1"
| "stopping_steps Disconnected = 1"
| "stopping_steps (Waiting_to_reconnect _ _) = 2"
| "stopping_steps (Streaming c) = pending c + 2"
| "stopping_steps Connecting = 4"

lemma stopping_step:
  assumes "stream_step J ids e m m'" "stream_inv (set ids) m" "ms_shutdown_requested m"
  shows "ms_shutdown_requested m' \<and> (if is_signal e then 0 else 1) + stopping_steps (ms_phase m') \<le> stopping_steps (ms_phase m)"
  using assms(1)
proof cases
  case (connected na now)
  obtain r m1 where su: "set_up ids na now m = (r, m1)" by fastforce
  then show ?thesis
    using connected assms(3) set_up_frame [OF su] new_connection_shares
    by (cases r) (fastforce simp: connect_stream_def is_signal_def)+
next
  case (network c e c')
  then have "cn_shutdown_requested c" using assms(2,3) by (simp add: stream_inv_def)
  then have s: "completions [e] + pending c' = pending c" using closing_step [OF network(4)] by simp
  have "cn_shutdown_requested c'" using conn_step_shutdown [OF network(4)] \<open>cn_shutdown_requested c\<close> by simp
  then show ?thesis using network s by (auto simp: share_def is_signal_def completions_def split: if_splits)
qed (use assms in \<open>auto simp: is_signal_def handle_shutdown_signal_def at_head_def stream_end_def run_returned_def
    hand_back_def share_def after_connection_def wait_second_def stream_inv_def run_returns_def\<close>)

lemma stopping_runs:
  assumes "stream_runs J ids m es m'" "stream_inv (set ids) m" "ms_shutdown_requested m"
  shows "ms_shutdown_requested m' \<and> length (filter (\<lambda>e. \<not> is_signal e) es) + stopping_steps (ms_phase m') \<le> stopping_steps (ms_phase m)"
proof -
  have "(stream_inv (set ids) m' \<and> ms_shutdown_requested m')
      \<and> sum_list (map (\<lambda>e. of_bool (\<not> is_signal e)) es) + stopping_steps (ms_phase m') \<le> stopping_steps (ms_phase m)"
    by (rule stream.winds_down [where good = "\<lambda>m. stream_inv (set ids) m \<and> ms_shutdown_requested m", OF _ assms(1)])
      (use stopping_step stream_step_inv assms(2,3) in \<open>fastforce+\<close>)
  then show ?thesis by (simp only: length_filter_sum)
qed

lemma stopping_steps_bound: "stopping_steps p \<le> 5"
  by (cases p) (simp_all add: pending_def)

text \<open>The flag is set by a signal only.\<close>

lemma shutdown_step:
  "stream_step J ids e m m' \<Longrightarrow> stream_inv (set ids) m \<Longrightarrow> ms_shutdown_requested m' \<Longrightarrow> ms_shutdown_requested m \<or> is_signal e"
  by (erule stream_step.cases) (auto simp: is_signal_def at_head_def stream_end_def run_returned_def hand_back_def share_def
      after_connection_def wait_second_def stream_inv_def connect_stream_def Let_def conn_step_shutdown
      dest: set_up_frame split: if_splits prod.splits sum.splits)

lemma shutdown_signalled:
  assumes "stream_runs J ids m es m'" "stream_inv (set ids) m" "\<not> ms_shutdown_requested m" "ms_shutdown_requested m'"
  shows "\<exists>e \<in> set es. is_signal e"
proof -
  have "stream_inv (set ids) m' \<and> (ms_shutdown_requested m' \<longrightarrow> (\<exists>e \<in> set es. is_signal e))"
    by (rule stream.owed [where good = "stream_inv (set ids)" and flag = ms_shutdown_requested, OF _ assms(1-3)])
      (use shutdown_step stream_step_inv in blast)
  then show ?thesis using assms(4) by blast
qed

subsection \<open>The delays\<close>

text \<open>Events that bring no message: everything but a read that completes without error.\<close>

definition no_message :: "stream_event \<Rightarrow> bool" where
  "no_message e \<longleftrightarrow> (\<forall>msg. e \<noteq> Network (Read_completes None msg))"

lemma conn_step_backoff:
  assumes "conn_step J e c c'" "\<And>msg. e \<noteq> Read_completes None msg"
  shows "cn_backoff c' = cn_backoff c"
  using assms by cases (auto simp: callback_defs fail_connection_def split: option.splits error_code.splits)

lemma quiet_step:
  assumes "stream_step J ids e m m'" "stream_inv (set ids) m" "no_message e"
  shows "ms_backoff m' = (if e = Wait_over then backoff_advance (ms_backoff m) else ms_backoff m)"
  using assms(1)
proof cases
  case (connected na now)
  then show ?thesis
    by (auto simp: connect_stream_def dest: set_up_frame split: prod.splits sum.splits)
next
  case (network c e c')
  then show ?thesis using assms(2,3) conn_step_backoff [OF network(4)] by (simp add: stream_inv_def share_def no_message_def)
qed (use assms(2) in \<open>auto simp: handle_shutdown_signal_def at_head_def stream_end_def run_returned_def hand_back_def share_def
    after_connection_def wait_second_def stream_inv_def Let_def\<close>)

lemma quiet_runs:
  assumes "stream_runs J ids m es m'" "stream_inv (set ids) m" "\<forall>e \<in> set es. no_message e"
  shows "ms_backoff m' = (backoff_advance ^^ count_list es Wait_over) (ms_backoff m)"
  using assms(1,3)
proof induction
  case (stream_more es m1 e m2)
  from quiet_step [OF stream_more.hyps(2) stream_runs_inv [OF stream_more.hyps(1) assms(2)]] stream_more.IH stream_more.prems
  show ?case by simp
qed simp

subsection \<open>Executing a run\<close>

fun stream_perform :: "'j json_lib \<Rightarrow> string list \<Rightarrow> stream_event \<Rightarrow> market_stream \<Rightarrow> market_stream option" where
  "stream_perform J ids Signalled m =
     (case ms_phase m of
        Streaming c \<Rightarrow> None
      | _ \<Rightarrow> if ms_sigint m = Shutdown_handler \<or> ms_sigterm m = Shutdown_handler then Some (handle_shutdown_signal m) else None)"
| "stream_perform J ids Head m = (case ms_phase m of Loop_head \<Rightarrow> Some (at_head m) | _ \<Rightarrow> None)"
| "stream_perform J ids (Set_up na now) m =
     (case ms_phase m of Connecting \<Rightarrow> Some (connect_stream ids na now m) | _ \<Rightarrow> None)"
| "stream_perform J ids (Network e) m =
     (case ms_phase m of
        Streaming c \<Rightarrow> (case perform J e c of None \<Rightarrow> None | Some c' \<Rightarrow> Some ((share c' m)\<lparr>ms_phase := Streaming c'\<rparr>))
      | _ \<Rightarrow> None)"
| "stream_perform J ids (Run_returned w ce) m =
     (case ms_phase m of Streaming c \<Rightarrow> if run_returns c then Some (run_returned w ce c m) else None | _ \<Rightarrow> None)"
| "stream_perform J ids After m = (case ms_phase m of Disconnected \<Rightarrow> Some (after_connection m) | _ \<Rightarrow> None)"
| "stream_perform J ids e m =
     (case ms_phase m of
        Waiting_to_reconnect s d \<Rightarrow>
          if e = (if s < d \<and> \<not> ms_shutdown_requested m then Second_passed else Wait_over)
          then Some (wait_second s d m) else None
      | _ \<Rightarrow> None)"

fun stream_perform_all :: "'j json_lib \<Rightarrow> string list \<Rightarrow> stream_event list \<Rightarrow> market_stream \<Rightarrow> market_stream option" where
  "stream_perform_all J ids [] m = Some m"
| "stream_perform_all J ids (e # es) m =
     (case stream_perform J ids e m of None \<Rightarrow> None | Some m1 \<Rightarrow> stream_perform_all J ids es m1)"

lemma stream_perform_step: "stream_perform J ids e m = Some m' \<Longrightarrow> stream_step J ids e m m'"
  by (cases e; cases "ms_phase m") (auto split: if_splits option.splits intro: stream_step.intros perform_step)

lemma stream_perform_runs:
  "stream_perform_all J ids es m1 = Some m2 \<Longrightarrow> stream_runs J ids m fs m1 \<Longrightarrow> stream_runs J ids m (fs @ es) m2"
proof (induction es arbitrary: m1 fs)
  case (Cons e es)
  then obtain m3 where "stream_perform J ids e m1 = Some m3" "stream_perform_all J ids es m3 = Some m2"
    by (auto split: option.splits)
  then show ?case using Cons.IH [of m3 "fs @ [e]"] stream_more [OF Cons.prems(2) stream_perform_step] by simp
qed simp

definition fresh_stream :: market_stream where
  "fresh_stream = \<lparr>ms_shutdown_requested = False, ms_sigint = Previous_handler, ms_sigterm = Previous_handler,
     ms_backoff = new_backoff, ms_out = [], ms_err = [], ms_phase = Loop_head\<rparr>"

definition begun_stream :: market_stream where
  "begun_stream = snd (stream_begin json_values [''T''] fresh_stream)"

lemma begun_stream: "stream_begin json_values [''T''] fresh_stream = (Inr (), begun_stream)"
proof -
  have "fst (stream_begin json_values [''T''] fresh_stream) = Inr ()" by code_simp
  then show ?thesis by (simp add: begun_stream_def prod_eq_iff)
qed

definition refused :: network_answers where
  "refused = \<lparr>na_contexts = Inr (), na_set_hostname = True, na_resolve = Inr (), na_connect = Inl (Runtime_error ''refused''),
     na_tls_handshake = Inr (), na_ws_handshake = Inr (), na_send_subscription = Inr ()\<rparr>"

definition answered :: network_answers where
  "answered = refused\<lparr>na_connect := Inr ()\<rparr>"

text \<open>Two refused attempts, the third is connected.\<close>

definition third_time_lucky :: "stream_event list" where
  "third_time_lucky = [Head, Set_up refused 0, After, Second_passed, Wait_over,
     Head, Set_up refused 0, After, Second_passed, Second_passed, Wait_over, Head, Set_up answered 0]"

definition connected_stream :: market_stream where
  "connected_stream = the (stream_perform_all json_values [''T''] third_time_lucky begun_stream)"

lemma connected_stream: "stream_runs json_values [''T''] begun_stream third_time_lucky connected_stream"
proof -
  have "stream_perform_all json_values [''T''] third_time_lucky begun_stream \<noteq> None" by code_simp
  then have "stream_perform_all json_values [''T''] third_time_lucky begun_stream = Some connected_stream"
    by (auto simp: connected_stream_def)
  from stream_perform_runs [OF this stream_start] show ?thesis by simp
qed

subsection \<open>Properties\<close>

text \<open>C34 A stream that is asked to stop stops: once the shutdown flag is set, in whatever state the loop, its
  connection and its network operations are, at most five more steps are taken, one is always possible
  until it has stopped, and a stopped stream has put the previous signal handlers back and said that it
  stopped cleanly. The steps are counted; that the network completes a cancelled operation is up to
  the network.\<close>
theorem stream_stops:
  assumes "stream_begin J ids m0 = (Inr (), m)" "stream_runs J ids m es m1" "ms_shutdown_requested m1"
    and "stream_runs J ids m1 fs m2"
  shows "length (filter (\<lambda>e. \<not> is_signal e) fs) \<le> 5
    \<and> (if ms_phase m2 = Stopped then stopped_cleanly m2 else \<exists>e m3. \<not> is_signal e \<and> stream_step J ids e m2 m3)"
proof -
  have inv: "stream_inv (set ids) m1" using stream_runs_inv [OF assms(2)] stream_begin_inv [OF assms(1)] by simp
  have "stream_inv (set ids) m2" using stream_runs_inv [OF assms(4) inv] .
  with stopping_runs [OF assms(4) inv assms(3)] stopping_steps_bound [of "ms_phase m1"] stream_progress [of m2 J ids]
  show ?thesis by (auto simp: stream_inv_def)
qed

theorem stream_stops_witness:
  "\<exists>m1 m2. stream_runs json_values [''T''] begun_stream (third_time_lucky @ [Network Shutdown_signal]) m1
     \<and> stream_runs json_values [''T''] m1 [Network (Read_completes None ''PONG''), Network (Timer_fires None 1),
         Run_returned True None, After] m2
     \<and> ms_phase m2 = Stopped \<and> stopped_cleanly m2"
proof -
  let ?es = "[Network Shutdown_signal]" and ?fs = "[Network (Read_completes None ''PONG''), Network (Timer_fires None 1),
         Run_returned True None, After]"
  have "(case stream_perform_all json_values [''T''] ?es connected_stream of None \<Rightarrow> False
      | Some m1 \<Rightarrow> ms_shutdown_requested m1 \<and> (case stream_perform_all json_values [''T''] ?fs m1 of None \<Rightarrow> False
          | Some m2 \<Rightarrow> (case ms_phase m2 of Stopped \<Rightarrow> True | _ \<Rightarrow> False)))" by code_simp
  then obtain m1 m2 where m: "stream_perform_all json_values [''T''] ?es connected_stream = Some m1" "ms_shutdown_requested m1"
    "stream_perform_all json_values [''T''] ?fs m1 = Some m2" "ms_phase m2 = Stopped" by (auto split: option.splits stream_phase.splits)
  note r1 = stream_perform_runs [OF m(1) connected_stream]
  have r2: "stream_runs json_values [''T''] m1 ?fs m2" using stream_perform_runs [OF m(3) stream_start] by simp
  from stream_stops [OF begun_stream r1 m(2) r2] m(4) have "stopped_cleanly m2" by simp
  with r1 r2 m(4) show ?thesis by blast
qed

text \<open>C35 Nothing but a signal ends the stream: whatever the network and the server do, refused connections,
  errors in reads, writes and timers, closed connections and malformed messages included, without
  SIGINT or SIGTERM the loop has not stopped, both handlers stay installed, it can go on, and it waits
  at most thirty seconds before it connects again.\<close>
theorem stream_survives:
  assumes "stream_begin J ids m0 = (Inr (), m)" "stream_runs J ids m es m1" "\<forall>e \<in> set es. \<not> is_signal e"
  shows "ms_phase m1 \<noteq> Stopped \<and> ms_sigint m1 = Shutdown_handler \<and> ms_sigterm m1 = Shutdown_handler
    \<and> (\<exists>e m2. \<not> is_signal e \<and> stream_step J ids e m1 m2)
    \<and> (\<forall>s d. ms_phase m1 = Waiting_to_reconnect s d \<longrightarrow> 0 \<le> s \<and> s \<le> d \<and> d \<le> 30)"
proof -
  note m = stream_begin_inv [OF assms(1)]
  have inv: "stream_inv (set ids) m1" using stream_runs_inv [OF assms(2) m(1)] .
  have "\<not> ms_shutdown_requested m1" using shutdown_signalled [OF assms(2) m] assms(3) by blast
  then have "ms_phase m1 \<noteq> Stopped" using inv by (auto simp: stream_inv_def)
  with inv stream_progress [OF this, of J ids] show ?thesis by (auto simp: stream_inv_def)
qed

theorem stream_survives_witness:
  "\<exists>e m2. \<not> is_signal e \<and> stream_step json_values [''T''] e connected_stream m2"
proof -
  have "\<forall>e \<in> set third_time_lucky. \<not> is_signal e" by (simp add: third_time_lucky_def is_signal_def)
  from stream_survives [OF begun_stream connected_stream this] show ?thesis by blast
qed

text \<open>While no message arrives the delay before the next attempt doubles from one second with every wait
  that is over, up to thirty seconds.\<close>
lemma quiet_stream_backs_off:
  assumes "stream_begin J ids m0 = (Inr (), m)" "stream_runs J ids m es m1" "\<forall>e \<in> set es. no_message e"
  shows "rb_current_delay_seconds (ms_backoff m1) = min (2 ^ count_list es Wait_over) 30"
proof -
  have "ms_backoff m = new_backoff" using assms(1) by (auto simp: stream_begin_def Let_def split: sum.splits)
  then show ?thesis
    using quiet_runs [OF assms(2) stream_begin_inv(1) [OF assms(1)] assms(3)] backoff_sequence by simp
qed

end
