(* ===== verification/Command_Line.thy ===== *)
theory Command_Line
  imports Market_Stream
begin

text \<open>
  The command line program: \<open>src/main.cpp\<close> and the HTTPS client of \<open>src/http_client.cpp\<close>. The network is a
  parameter, the record \<open>https_network\<close> of what the calls of one request answer; so is \<open>json::parse\<close>
  (\<open>parse\<close>), which throws on malformed text, and, for \<open>stream\<close>, what \<open>stream_market\<close> did, which the last
  section takes from the runs of \<open>Market_Stream\<close>.
\<close>

subsection \<open>HTTP\<close>

record http_request =
  rq_target :: string
  rq_host :: string
  rq_user_agent :: string
  rq_accept :: string

datatype shutdown_error = Eof | Stream_truncated | Other_shutdown_error string

record https_network =
  hn_contexts :: "unit result"
  hn_set_hostname :: "string \<Rightarrow> bool"
  hn_resolve :: "string \<Rightarrow> string \<Rightarrow> unit result"
  hn_connect :: "unit result"
  hn_handshake :: "unit result"
  hn_send :: "http_request \<Rightarrow> unit result"
  hn_receive :: "http_request \<Rightarrow> (int \<times> string) result"
  hn_shutdown :: "shutdown_error option"

definition http_get :: "https_network \<Rightarrow> string \<Rightarrow> string \<Rightarrow> string \<Rightarrow> string result" where
  "http_get net host target port =
     and_then (hn_contexts net) (\<lambda>_.
      if \<not> hn_set_hostname net host then Inl (Runtime_error ''Failed to set TLS hostname.'')
      else and_then (hn_resolve net host port) (\<lambda>_.
        and_then (hn_connect net) (\<lambda>_.
        and_then (hn_handshake net) (\<lambda>_.
          let request = \<lparr>rq_target = target, rq_host = host, rq_user_agent = ''cmarket/0.1.0'',
                         rq_accept = ''application/json''\<rparr>
          in and_then (hn_send net request) (\<lambda>_.
             and_then (hn_receive net request) (\<lambda>(status, body).
               if status < 200 \<or> status \<ge> 300
               then Inl (Runtime_error (''HTTP request failed with status '' @ show_int status))
               else (case hn_shutdown net of
                       Some (Other_shutdown_error message) \<Rightarrow> Inl (Runtime_error message)
                     | _ \<Rightarrow> Inr body)))))))"

subsection \<open>The snapshot\<close>

definition snapshot_level :: "'j json_lib \<Rightarrow> 'j \<Rightarrow> price_level result" where
  "snapshot_level J level =
     (if \<not> js_is_object J level then Inl (Runtime_error ''Each order-book level must be an object.'')
      else if \<not> js_contains J level ''price'' \<or> \<not> js_contains J level ''size''
      then Inl (Runtime_error ''Order-book level is missing price or size.'')
      else and_then (all_strings J level [''price'', ''size'']) (\<lambda>strings.
        if \<not> strings then Inl (Runtime_error ''Order-book price and size must be strings.'')
        else and_then (get_field J level ''price'') (\<lambda>price.
          and_then (get_field J level ''size'') (\<lambda>size.
            and_then (price_to_ticks price) (\<lambda>ticks.
              and_then (quantity_to_fixed size) (\<lambda>quantity.
                Inr \<lparr>pl_price_ticks = ticks, pl_quantity = quantity\<rparr>))))))"

fun snapshot_level_list :: "'j json_lib \<Rightarrow> 'j list \<Rightarrow> price_level list \<Rightarrow> price_level list result" where
  "snapshot_level_list J [] parsed_levels = Inr parsed_levels"
| "snapshot_level_list J (level # levels) parsed_levels =
     and_then (snapshot_level J level) (\<lambda>l. snapshot_level_list J levels (parsed_levels @ [l]))"

definition snapshot_levels :: "'j json_lib \<Rightarrow> 'j \<Rightarrow> string \<Rightarrow> price_level list result" where
  "snapshot_levels J snapshot side_name =
     (if \<not> js_contains J snapshot side_name
      then Inl (Runtime_error (''Order-book response is missing '' @ quoted side_name @ ''.''))
      else and_then (js_at J snapshot side_name) (\<lambda>levels.
        if \<not> js_is_array J levels then Inl (Runtime_error (quoted side_name @ '' must be a JSON array.''))
        else snapshot_level_list J (js_elements J levels) []))"

subsection \<open>Output\<close>

record console =
  co_out :: string
  co_err :: string

definition print_optional_price :: "string \<Rightarrow> int option \<Rightarrow> string result list" where
  "print_optional_price label price =
     [Inr label, (case price of Some p \<Rightarrow> format_price p 3 | None \<Rightarrow> Inr ''N/A''), Inr newline]"

definition print_order_book :: "order_book \<Rightarrow> string result list" where
  "print_order_book book =
     [Inr newline]
     @ print_optional_price ''Best bid: '' (map_option pl_price_ticks (best_bid book))
     @ print_optional_price ''Best ask: '' (map_option pl_price_ticks (best_ask book))
     @ print_optional_price ''Spread:   '' (spread_ticks book)
     @ print_optional_price ''Mid:      '' (mid_price_ticks book)
     @ [Inr newline,
        Inr ''Bid levels: '', Inr (show_nat (length (book_bids book))), Inr newline,
        Inr ''Ask levels: '', Inr (show_nat (length (book_asks book))), Inr newline,
        Inr ''Bid depth:  '', format_price (bid_depth book) 6, Inr newline,
        Inr ''Ask depth:  '', format_price (ask_depth book) 6, Inr newline]"

definition put :: "string result list \<Rightarrow> console \<Rightarrow> (unit, console) outcome" where
  "put pieces con = (case print_all pieces (co_out con) of (r, out) \<Rightarrow> (r, con\<lparr>co_out := out\<rparr>))"

definition put_error :: "string \<Rightarrow> console \<Rightarrow> console" where
  "put_error s con = con\<lparr>co_err := co_err con @ s\<rparr>"

subsection \<open>Commands\<close>

definition download :: "'j json_lib \<Rightarrow> (string \<Rightarrow> 'j result) \<Rightarrow> https_network \<Rightarrow> string \<Rightarrow> order_book result" where
  "download J parse net token_id =
     and_then (http_get net ''clob.polymarket.com'' (''/book?token_id='' @ token_id) ''443'') (\<lambda>response.
       and_then (parse response) (\<lambda>snapshot.
         if \<not> js_is_object J snapshot then Inl (Runtime_error ''Expected an order-book JSON object.'')
         else and_then (snapshot_levels J snapshot ''bids'') (\<lambda>bids.
           and_then (snapshot_levels J snapshot ''asks'') (\<lambda>asks.
             (case replace_snapshot bids asks empty_book of
                (Inl err, _) \<Rightarrow> Inl err
              | (Inr _, book) \<Rightarrow> Inr book)))))"

definition run_book_command ::
  "'j json_lib \<Rightarrow> (string \<Rightarrow> 'j result) \<Rightarrow> https_network \<Rightarrow> string \<Rightarrow> console \<Rightarrow> (unit, console) outcome" where
  "run_book_command J parse net token_id con =
     (if token_id = [] then (Inl (Invalid_argument ''Token ID cannot be empty.''), con)
      else seq (put [Inr (''Downloading order-book snapshot...'' @ newline)] con) (\<lambda>_ con1.
        seq (download J parse net token_id, con1) (\<lambda>book con2.
          put (print_order_book book) con2)))"

definition run_stream_command ::
  "(string list \<Rightarrow> console \<Rightarrow> (unit, console) outcome) \<Rightarrow> string list \<Rightarrow> console \<Rightarrow> (unit, console) outcome" where
  "run_stream_command stream_market token_ids con =
     (if token_ids = [] then (Inl (Invalid_argument ''At least one token ID is required.''), con)
      else if list_ex (\<lambda>token_id. token_id = []) token_ids
      then (Inl (Invalid_argument ''Token ID cannot be empty.''), con)
      else stream_market token_ids con)"

definition print_usage :: "string \<Rightarrow> console \<Rightarrow> console" where
  "print_usage program_name =
     put_error (''Usage:'' @ newline @ ''  '' @ program_name @ '' book <token-id>'' @ newline
       @ ''  '' @ program_name @ '' stream <token-id> [token-id ...]'' @ newline)"

text \<open>The catch blocks of \<open>main\<close>.\<close>

definition exit_status :: "(unit, console) outcome \<Rightarrow> int \<times> console" where
  "exit_status r =
     (case r of
        (Inr _, con) \<Rightarrow> (0, con)
      | (Inl (Json_exception message), con) \<Rightarrow> (1, put_error (''JSON error: '' @ message @ newline) con)
      | (Inl err, con) \<Rightarrow> (1, put_error (''Error: '' @ what err @ newline) con))"

definition main ::
  "'j json_lib \<Rightarrow> (string \<Rightarrow> 'j result) \<Rightarrow> https_network \<Rightarrow> (string list \<Rightarrow> console \<Rightarrow> (unit, console) outcome)
   \<Rightarrow> string list \<Rightarrow> console \<Rightarrow> int \<times> console" where
  "main J parse net stream_market argv con =
     (if length argv < 3 then (1, print_usage (argv ! 0) con)
      else let command = argv ! 1
           in if command = ''book''
              then if length argv \<noteq> 3 then (1, print_usage (argv ! 0) con)
                   else exit_status (run_book_command J parse net (argv ! 2) con)
              else if command = ''stream''
              then exit_status (run_stream_command stream_market (drop 2 argv) con)
              else (1, print_usage (argv ! 0) (put_error (''Unknown command: '' @ command @ newline) con)))"

subsection \<open>Printing a snapshot\<close>

lemma print_optional_price_prints: "(\<And>p. price = Some p \<Longrightarrow> 0 \<le> p) \<Longrightarrow> prints (print_optional_price label price)"
  using format_price_prints by (auto simp: print_optional_price_def split: option.splits)

lemma depth_nonneg:
  assumes "book_ok book"
  shows "0 \<le> bid_depth book" "0 \<le> ask_depth book"
  using assms levels_total_nonneg by (auto simp: depth_saturates [OF assms] book_ok_def INT64_MAX_def)

text \<open>What a list of pieces writes when none of them throws.\<close>

definition text_of :: "string result list \<Rightarrow> string" where
  "text_of pieces = concat (map (\<lambda>p. case p of Inr s \<Rightarrow> s | Inl _ \<Rightarrow> []) pieces)"

lemma print_all_text: "fst (print_all ps out) = Inr () \<Longrightarrow> snd (print_all ps out) = out @ text_of ps"
  by (induction ps arbitrary: out) (auto simp: text_of_def split: sum.splits)

lemma print_all_fails: "prints head \<Longrightarrow> print_all (head @ Inl err # rest) out = (Inl err, out @ text_of head)"
  by (induction head arbitrary: out) (auto simp: text_of_def split: sum.splits)

text \<open>What a crossed book prints before the format of its spread throws.\<close>

definition printed_to_spread :: "order_book \<Rightarrow> string" where
  "printed_to_spread book = newline
     @ ''Best bid: '' @ text_of [format_price (pl_price_ticks (the (best_bid book))) 3] @ newline
     @ ''Best ask: '' @ text_of [format_price (pl_price_ticks (the (best_ask book))) 3] @ newline
     @ ''Spread:   ''"

lemma print_order_book_result:
  assumes "book_ok book"
  shows "print_all (print_order_book book) out =
    (if crossed book then (Inl (Invalid_argument ''Price cannot be negative.''), out @ printed_to_spread book)
     else (Inr (), out @ text_of (print_order_book book)))"
proof -
  have lv: "levels_ok bid_before (ob_bids book)" "levels_ok ask_before (ob_asks book)"
    using assms by (simp_all add: book_ok_def)
  have best: "prints (print_optional_price l (map_option pl_price_ticks (best_bid book)))"
    "prints (print_optional_price l (map_option pl_price_ticks (best_ask book)))" for l
    using lv by (auto intro!: print_optional_price_prints simp: best_bid_def best_ask_def levels_ok_Cons split: list.splits)
  have mid: "0 \<le> m" if "mid_price_ticks book = Some m" "\<not> crossed book" for m
    using that lv by (auto simp: mid_price_ticks_def crossed_def spread_ticks_def levels_ok_Cons split: list.splits)
  have depth: "\<not> isl (format_price (bid_depth book) 6)" "\<not> isl (format_price (ask_depth book) 6)"
    using depth_nonneg [OF assms] by (simp_all add: format_price_def Let_def)
  let ?head = "[Inr newline] @ print_optional_price ''Best bid: '' (map_option pl_price_ticks (best_bid book))
     @ print_optional_price ''Best ask: '' (map_option pl_price_ticks (best_ask book))"
  have head: "prints ?head" using best by simp
  show ?thesis
  proof (cases "crossed book")
    case True
    then obtain s where "spread_ticks book = Some s" "s < 0" by (auto simp: crossed_def split: option.splits)
    then obtain rest where eq: "print_order_book book = (?head @ [Inr ''Spread:   '']) @ Inl (Invalid_argument ''Price cannot be negative.'') # rest"
      by (simp add: print_order_book_def print_optional_price_def format_price_def)
    have pr: "prints (?head @ [Inr ''Spread:   ''])" using head by simp
    have "text_of (?head @ [Inr ''Spread:   '']) = printed_to_spread book"
      using True by (auto simp: text_of_def printed_to_spread_def print_optional_price_def crossed_def spread_ticks_def
          best_bid_def best_ask_def split: list.splits option.splits)
    then show ?thesis unfolding eq print_all_fails [OF pr] using True by simp
  next
    case False
    then have "prints (print_order_book book)"
      using head mid depth by (auto simp: print_order_book_def crossed_def intro!: print_optional_price_prints)
    then show ?thesis using False print_all_prints print_all_text by (metis prod.collapse)
  qed
qed

lemma download_ok:
  assumes "download J parse net t = Inr book"
  shows "book_ok book"
proof -
  obtain bids asks where b: "(case replace_snapshot bids asks empty_book of (Inl err, _) \<Rightarrow> Inl err | (Inr _, book) \<Rightarrow> Inr book)
      = (Inr book :: order_book result)"
    using assms unfolding download_def and_then_eq_Inr_iff by (auto simp: and_then_eq_Inr_iff split: if_splits)
  obtain r book' where r: "replace_snapshot bids asks empty_book = (r, book')" by fastforce
  then show ?thesis using b replace_snapshot_ok [OF book_ok_empty r] by (cases r) simp_all
qed

lemma put_eq: "put ps con = (fst (print_all ps (co_out con)), con\<lparr>co_out := snd (print_all ps (co_out con))\<rparr>)"
  by (simp add: put_def split: prod.splits)

subsection \<open>Properties\<close>

text \<open>C38 The program never ends with an uncaught exception: its exit status is 0 or 1. It is 0 exactly when
  the arguments are \<open>book\<close> and one token or \<open>stream\<close> and at least one token, and that command returned;
  with status 1 there is a message on standard error.\<close>
theorem main_exit_status:
  assumes "main J parse net stream (program # args) con = (status, con')"
  shows "(status = 0 \<or> status = 1)
    \<and> (status = 0 \<longleftrightarrow>
         (\<exists>t. args = [''book'', t] \<and> fst (run_book_command J parse net t con) = Inr ())
         \<or> (\<exists>ts. args = ''stream'' # ts \<and> ts \<noteq> [] \<and> fst (run_stream_command stream ts con) = Inr ()))
    \<and> (status = 1 \<longrightarrow> co_err con' \<noteq> [])"
proof -
  have exit: "exit_status r = (0, snd r) \<and> fst r = Inr ()
      \<or> (\<exists>con1. exit_status r = (1, con1) \<and> co_err con1 \<noteq> [] \<and> fst r \<noteq> Inr ())" for r :: "(unit, console) outcome"
    by (cases r; cases "fst r") (auto simp: exit_status_def put_error_def newline_def split: cpp_error.splits)
  have usage: "co_err (print_usage p c) \<noteq> []" for p c by (simp add: print_usage_def put_error_def)
  consider "length args < 2" | t where "args = [''book'', t]" | t u ts where "args = ''book'' # t # u # ts"
    | t ts where "args = ''stream'' # t # ts" | c t ts where "args = c # t # ts" "c \<noteq> ''book''" "c \<noteq> ''stream''"
    by (cases args rule: remdups_adj.cases) (auto, metis list.exhaust)
  then show ?thesis
  proof cases
    case 1
    then show ?thesis using assms usage by (auto simp: main_def)
  next
    case 2
    then show ?thesis using assms exit [of "run_book_command J parse net t con"] by (auto simp: main_def)
  next
    case 3
    then show ?thesis using assms usage by (auto simp: main_def)
  next
    case 4
    then show ?thesis using assms exit [of "run_stream_command stream (t # ts) con"] by (auto simp: main_def)
  next
    case 5
    then show ?thesis using assms usage by (auto simp: main_def)
  qed
qed

definition snapshot_network :: "string \<Rightarrow> https_network" where
  "snapshot_network body = \<lparr>hn_contexts = Inr (), hn_set_hostname = (\<lambda>_. True), hn_resolve = (\<lambda>_ _. Inr ()), hn_connect = Inr (),
     hn_handshake = Inr (), hn_send = (\<lambda>_. Inr ()), hn_receive = (\<lambda>_. Inr (200, body)), hn_shutdown = Some Eof\<rparr>"

definition open_snapshot :: json where
  "open_snapshot = JObj [(''bids'', JArr [JObj [(''price'', JStr ''0.4''), (''size'', JStr ''10'')]]), (''asks'', JArr [])]"

theorem main_exit_status_witness:
  "main json_values (\<lambda>_. Inr open_snapshot) (snapshot_network []) (\<lambda>_ con. (Inr (), con)) [''cmarket'', ''book'', ''T'', ''U'']
     \<lparr>co_out = [], co_err = []\<rparr> = (1, print_usage ''cmarket'' \<lparr>co_out = [], co_err = []\<rparr>)
   \<and> co_err (print_usage ''cmarket'' \<lparr>co_out = [], co_err = []\<rparr>) \<noteq> []"
proof -
  have m: "main json_values (\<lambda>_. Inr open_snapshot) (snapshot_network []) (\<lambda>_ con. (Inr (), con))
      [''cmarket'', ''book'', ''T'', ''U''] \<lparr>co_out = [], co_err = []\<rparr> = (1, print_usage ''cmarket'' \<lparr>co_out = [], co_err = []\<rparr>)"
    by (simp add: main_def)
  from main_exit_status [OF m] m show ?thesis by simp
qed

text \<open>C39 \<open>book\<close> with a token prints the downloaded snapshot: when the request, the parse and the snapshot's
  checks succeed the book is well formed and, unless it is crossed, the program writes all of it and
  exits with 0. Of a crossed snapshot it writes exactly the best bid, the best ask and the label of the
  spread, whose format throws, then the error message, and exits with 1; a failed download prints
  nothing of a book and exits with 1.\<close>
theorem book_command_result:
  assumes "t \<noteq> []" "main J parse net stream [program, ''book'', t] con = (status, con')"
  shows "case download J parse net t of
      Inl err \<Rightarrow> status = 1 \<and> co_out con' = co_out con @ ''Downloading order-book snapshot...'' @ newline
    | Inr book \<Rightarrow> book_ok book \<and> status = (if crossed book then 1 else 0)
        \<and> co_err con' = co_err con @ (if crossed book then ''Error: Price cannot be negative.'' @ newline else [])
        \<and> co_out con' = co_out con @ ''Downloading order-book snapshot...'' @ newline
            @ (if crossed book then printed_to_spread book else text_of (print_order_book book))"
proof -
  let ?con = "con\<lparr>co_out := co_out con @ ''Downloading order-book snapshot...'' @ newline\<rparr>"
  have run: "run_book_command J parse net t con = (case download J parse net t of
      Inl err \<Rightarrow> (Inl err, ?con) | Inr book \<Rightarrow> put (print_order_book book) ?con)"
    using assms(1) by (simp add: run_book_command_def put_eq seq_def split: sum.splits)
  have st: "exit_status (run_book_command J parse net t con) = (status, con')" using assms(2) by (simp add: main_def)
  have fails: "fst (exit_status (Inl err, c)) = 1" "co_out (snd (exit_status (Inl err, c))) = co_out c" for err c
    by (cases err; simp add: exit_status_def put_error_def)+
  show ?thesis
  proof (cases "download J parse net t")
    case (Inl err)
    then show ?thesis using st run fails [of err ?con] by auto
  next
    case (Inr book)
    note ok = download_ok [OF Inr]
    note pr = print_order_book_result [OF ok, of "co_out ?con"]
    show ?thesis
      using st run Inr ok pr by (cases "crossed book") (auto simp: put_eq exit_status_def put_error_def)
  qed
qed

theorem book_command_result_witness:
  "fst (main json_values (\<lambda>_. Inr open_snapshot) (snapshot_network []) (\<lambda>_ con. (Inr (), con)) [''cmarket'', ''book'', ''T'']
     \<lparr>co_out = [], co_err = []\<rparr>) = 0"
proof -
  obtain status con' where m: "main json_values (\<lambda>_. Inr open_snapshot) (snapshot_network []) (\<lambda>_ con. (Inr (), con))
      [''cmarket'', ''book'', ''T''] \<lparr>co_out = [], co_err = []\<rparr> = (status, con')" by fastforce
  have "case download json_values (\<lambda>_. Inr open_snapshot) (snapshot_network []) ''T'' of Inl _ \<Rightarrow> False | Inr book \<Rightarrow> \<not> crossed book"
    by code_simp
  with book_command_result [OF _ m] m show ?thesis by (auto split: sum.splits)
qed

subsection \<open>The stream command\<close>

text \<open>What \<open>stream_market\<close> does to the console: it throws before its loop, or a run of it stops.\<close>

definition stream_on :: "console \<Rightarrow> market_stream" where
  "stream_on con = fresh_stream\<lparr>ms_out := co_out con, ms_err := co_err con\<rparr>"

definition console_of :: "market_stream \<Rightarrow> console" where
  "console_of m = \<lparr>co_out = ms_out m, co_err = ms_err m\<rparr>"

inductive streams :: "'j json_lib \<Rightarrow> string list \<Rightarrow> console \<Rightarrow> (unit, console) outcome \<Rightarrow> bool" for J where
  not_begun: "stream_begin J token_ids (stream_on con) = (Inl err, m) \<Longrightarrow> streams J token_ids con (Inl err, console_of m)"
| stopped: "stream_begin J token_ids (stream_on con) = (Inr (), m) \<Longrightarrow> stream_runs J token_ids m es m'
    \<Longrightarrow> ms_phase m' = Stopped \<Longrightarrow> streams J token_ids con (Inr (), console_of m')"

lemma stream_begin_iff:
  "(\<exists>m. stream_begin J ids m0 = (Inr (), m)) \<longleftrightarrow> (\<exists>s. build_subscription_message J ids = Inr s)"
  "stream_begin J ids m0 = (Inl err, m) \<Longrightarrow> ms_out m = ms_out m0 \<and> ms_err m = ms_err m0 \<and> build_subscription_message J ids = Inl err"
  by (auto simp: stream_begin_def Let_def split: sum.splits)

text \<open>\<open>stream\<close> with tokens that are not empty: when \<open>stream_market\<close> comes back, the program exits with 0 exactly
  if the subscription message could be built, after the stream has said that it stopped cleanly; if the
  message could not be built nothing was printed to standard output and the status is 1.\<close>
lemma stream_command_result:
  assumes "ts \<noteq> []" "[] \<notin> set ts" "streams J ts con (stream ts con)"
    and "main J parse net stream (program # ''stream'' # ts) con = (status, con')"
  shows "case build_subscription_message J ts of
      Inl err \<Rightarrow> status = 1 \<and> co_out con' = co_out con
    | Inr _ \<Rightarrow> status = 0 \<and> (\<exists>out. co_out con' = out @ ''WebSocket stream stopped cleanly.'' @ newline)"
proof -
  have st: "exit_status (stream ts con) = (status, con')"
    using assms(1,2,4) by (cases ts) (auto simp: main_def run_stream_command_def list_ex_iff)
  from assms(3) show ?thesis
  proof cases
    case (not_begun err m)
    then show ?thesis using st stream_begin_iff(2) [OF not_begun(2)]
      by (cases err) (auto simp: exit_status_def put_error_def console_of_def stream_on_def)
  next
    case (stopped m es m')
    have "stream_inv (set ts) m'" using stream_runs_inv [OF stopped(3)] stream_begin_inv [OF stopped(2)] by simp
    then have "stopped_cleanly m'" using stopped(4) by (simp add: stream_inv_def)
    moreover obtain s where "build_subscription_message J ts = Inr s" using stopped(2) stream_begin_iff(1) by blast
    ultimately show ?thesis using st stopped(1) by (auto simp: exit_status_def stopped_cleanly_def console_of_def)
  qed
qed

end
