(* ===== verification/Market_Depth.thy ===== *)
theory Market_Depth
  imports Order_Book Order_Types Floating
begin

text \<open>
  Stateless analytics of a book and of an execution: \<open>include/depth_analytics.hpp\<close>,
  \<open>include/depth_weighted_pricing.hpp\<close>, \<open>include/liquidity_concentration.hpp\<close> and
  \<open>include/market_impact.hpp\<close>. The consistent copy of the book they take is the book itself;
  \<open>ld\<close> is the rounding of \<open>long double\<close>.
\<close>

subsection \<open>Depth\<close>

record depth_level =
  dl_price_ticks :: int
  dl_quantity :: int
  dl_cumulative_quantity :: rat

record depth_summary =
  ds_requested_levels :: nat
  ds_bid_levels :: nat
  ds_ask_levels :: nat
  ds_bid_depth :: rat
  ds_ask_depth :: rat
  ds_total_depth :: rat
  ds_imbalance :: "rat option"
  ds_bids :: "depth_level list"
  ds_asks :: "depth_level list"

text \<open>The loop of \<open>build_levels\<close>; the accumulator is the cumulative quantity so far.\<close>

fun build_levels_from :: "rounding_mode \<Rightarrow> rat \<Rightarrow> price_level list \<Rightarrow> depth_level list" where
  "build_levels_from ld cumulative_quantity [] = []"
| "build_levels_from ld cumulative_quantity (level # levels) =
     (let cumulative = ld (cumulative_quantity + ld (of_int (pl_quantity level)))
      in \<lparr>dl_price_ticks = pl_price_ticks level, dl_quantity = pl_quantity level,
          dl_cumulative_quantity = cumulative\<rparr> # build_levels_from ld cumulative levels)"

definition build_levels :: "rounding_mode \<Rightarrow> price_level list \<Rightarrow> nat \<Rightarrow> depth_level list" where
  "build_levels ld levels max_levels = build_levels_from ld 0 (take (min (length levels) max_levels) levels)"

definition depth_of :: "depth_level list \<Rightarrow> rat" where
  "depth_of levels = (if levels \<noteq> [] then dl_cumulative_quantity (last levels) else 0)"

definition analyze_depth :: "rounding_mode \<Rightarrow> order_book \<Rightarrow> nat \<Rightarrow> depth_summary result" where
  "analyze_depth ld order_book max_levels =
     (if max_levels = 0 then Inl (Invalid_argument ''Depth level count must be positive'')
      else (let bids = build_levels ld (ob_bids order_book) max_levels;
                asks = build_levels ld (ob_asks order_book) max_levels;
                bid_depth = depth_of bids;
                ask_depth = depth_of asks;
                total_depth = ld (bid_depth + ask_depth)
            in Inr \<lparr>ds_requested_levels = max_levels, ds_bid_levels = length bids, ds_ask_levels = length asks,
                    ds_bid_depth = bid_depth, ds_ask_depth = ask_depth, ds_total_depth = total_depth,
                    ds_imbalance = (if total_depth > 0 then Some (ld (ld (bid_depth - ask_depth) / total_depth)) else None),
                    ds_bids = bids, ds_asks = asks\<rparr>))"

subsection \<open>Depth weighted prices\<close>

record weighted_price_summary =
  wp_requested_levels :: nat
  wp_bid_levels :: nat
  wp_ask_levels :: nat
  wp_bid_depth :: rat
  wp_ask_depth :: rat
  wp_weighted_bid_price_ticks :: "rat option"
  wp_weighted_ask_price_ticks :: "rat option"
  wp_weighted_mid_price_ticks :: "rat option"

definition quantity_share :: "rounding_mode \<Rightarrow> rat \<Rightarrow> depth_level \<Rightarrow> rat" where
  "quantity_share ld side_depth level = ld (ld (of_int (dl_quantity level)) / side_depth)"

definition calculate_weighted_price :: "rounding_mode \<Rightarrow> depth_level list \<Rightarrow> rat \<Rightarrow> rat option" where
  "calculate_weighted_price ld levels side_depth =
     (if levels = [] \<or> side_depth \<le> 0 then None
      else Some (foldl (\<lambda>weighted_price level.
        ld (weighted_price + ld (ld (of_int (dl_price_ticks level)) * quantity_share ld side_depth level))) 0 levels))"

definition analyze_weighted_prices :: "rounding_mode \<Rightarrow> order_book \<Rightarrow> nat \<Rightarrow> weighted_price_summary result" where
  "analyze_weighted_prices ld order_book max_levels =
     and_then (analyze_depth ld order_book max_levels) (\<lambda>depth.
       let weighted_bid = calculate_weighted_price ld (ds_bids depth) (ds_bid_depth depth);
           weighted_ask = calculate_weighted_price ld (ds_asks depth) (ds_ask_depth depth)
       in Inr \<lparr>wp_requested_levels = ds_requested_levels depth, wp_bid_levels = ds_bid_levels depth,
               wp_ask_levels = ds_ask_levels depth, wp_bid_depth = ds_bid_depth depth,
               wp_ask_depth = ds_ask_depth depth, wp_weighted_bid_price_ticks = weighted_bid,
               wp_weighted_ask_price_ticks = weighted_ask,
               wp_weighted_mid_price_ticks =
                 (case (weighted_bid, weighted_ask) of (Some b, Some a) \<Rightarrow> Some (ld (ld (b + a) / 2)) | _ \<Rightarrow> None)\<rparr>)"

subsection \<open>Liquidity concentration\<close>

record concentration_summary =
  lc_requested_levels :: nat
  lc_bid_levels :: nat
  lc_ask_levels :: nat
  lc_bid_best_level_share :: "rat option"
  lc_ask_best_level_share :: "rat option"
  lc_bid_hhi :: "rat option"
  lc_ask_hhi :: "rat option"

definition best_level_share :: "rounding_mode \<Rightarrow> depth_level list \<Rightarrow> rat \<Rightarrow> rat option" where
  "best_level_share ld levels side_depth =
     (if levels = [] \<or> side_depth \<le> 0 then None else Some (quantity_share ld side_depth (hd levels)))"

definition calculate_hhi :: "rounding_mode \<Rightarrow> depth_level list \<Rightarrow> rat \<Rightarrow> rat option" where
  "calculate_hhi ld levels side_depth =
     (if levels = [] \<or> side_depth \<le> 0 then None
      else Some (foldl (\<lambda>hhi level.
        ld (hhi + ld (quantity_share ld side_depth level * quantity_share ld side_depth level))) 0 levels))"

definition analyze_concentration :: "rounding_mode \<Rightarrow> order_book \<Rightarrow> nat \<Rightarrow> concentration_summary result" where
  "analyze_concentration ld order_book max_levels =
     and_then (analyze_depth ld order_book max_levels) (\<lambda>depth.
       Inr \<lparr>lc_requested_levels = ds_requested_levels depth, lc_bid_levels = ds_bid_levels depth,
            lc_ask_levels = ds_ask_levels depth,
            lc_bid_best_level_share = best_level_share ld (ds_bids depth) (ds_bid_depth depth),
            lc_ask_best_level_share = best_level_share ld (ds_asks depth) (ds_ask_depth depth),
            lc_bid_hhi = calculate_hhi ld (ds_bids depth) (ds_bid_depth depth),
            lc_ask_hhi = calculate_hhi ld (ds_asks depth) (ds_ask_depth depth)\<rparr>)"

subsection \<open>Market impact\<close>

record market_quote =
  mq_best_bid_ticks :: "int option"
  mq_best_ask_ticks :: "int option"
  mq_bid_depth :: int
  mq_ask_depth :: int

definition quote_mid_price_ticks :: "rounding_mode \<Rightarrow> market_quote \<Rightarrow> rat option" where
  "quote_mid_price_ticks ld quote =
     (case (mq_best_bid_ticks quote, mq_best_ask_ticks quote) of
        (Some b, Some a) \<Rightarrow> Some (ld (ld (ld (of_int b) + ld (of_int a)) / 2))
      | _ \<Rightarrow> None)"

record impact_summary =
  mi_side :: order_side
  mi_requested_quantity :: int
  mi_executed_quantity :: int
  mi_remaining_quantity :: int
  mi_liquidity_consumed :: int
  mi_fill_count :: nat
  mi_average_execution_price_ticks :: "rat option"
  mi_reference_price_ticks :: "rat option"
  mi_slippage_ticks :: "rat option"
  mi_effective_spread_ticks :: "rat option"
  mi_pre_trade_mid_ticks :: "rat option"
  mi_post_trade_mid_ticks :: "rat option"
  mi_mid_price_change_ticks :: "rat option"
  mi_signed_mid_impact_ticks :: "rat option"
  mi_liquidity_consumed_ratio :: "rat option"

definition capture_quote :: "order_book \<Rightarrow> market_quote" where
  "capture_quote book =
     \<lparr>mq_best_bid_ticks = map_option pl_price_ticks (best_bid book),
      mq_best_ask_ticks = map_option pl_price_ticks (best_ask book),
      mq_bid_depth = bid_depth book, mq_ask_depth = ask_depth book\<rparr>"

fun impact_trades :: "rounding_mode \<Rightarrow> int \<Rightarrow> trade list \<Rightarrow> rat \<Rightarrow> int \<Rightarrow> (rat \<times> int) result" where
  "impact_trades ld executed [] notional filled = Inr (notional, filled)"
| "impact_trades ld executed (t # ts) notional filled =
     (if tr_price_ticks t \<le> 0 \<or> tr_quantity t \<le> 0 \<or> tr_quantity t > executed - filled
      then Inl (Invalid_argument ''Invalid execution trade'')
      else impact_trades ld executed ts
             (ld (notional + ld (ld (of_int (tr_price_ticks t)) * ld (of_int (tr_quantity t)))))
             (filled + tr_quantity t))"

definition valid_quantities :: "execution_result \<Rightarrow> bool" where
  "valid_quantities execution \<longleftrightarrow>
     \<not> (er_requested_quantity execution < 0 \<or> er_executed_quantity execution < 0
        \<or> er_remaining_quantity execution < 0 \<or> er_executed_quantity execution > er_requested_quantity execution
        \<or> er_remaining_quantity execution \<noteq> er_requested_quantity execution - er_executed_quantity execution)"

text \<open>The summary before the prices of the fills are known.\<close>

definition unpriced_summary :: "rounding_mode \<Rightarrow> execution_result \<Rightarrow> market_quote \<Rightarrow> market_quote \<Rightarrow> int \<Rightarrow> impact_summary" where
  "unpriced_summary ld execution before after filled =
     \<lparr>mi_side = er_side execution, mi_requested_quantity = er_requested_quantity execution,
      mi_executed_quantity = er_executed_quantity execution, mi_remaining_quantity = er_remaining_quantity execution,
      mi_liquidity_consumed = filled, mi_fill_count = length (er_trades execution),
      mi_average_execution_price_ticks = None, mi_reference_price_ticks = None, mi_slippage_ticks = None,
      mi_effective_spread_ticks = None, mi_pre_trade_mid_ticks = quote_mid_price_ticks ld before,
      mi_post_trade_mid_ticks = quote_mid_price_ticks ld after, mi_mid_price_change_ticks = None,
      mi_signed_mid_impact_ticks = None, mi_liquidity_consumed_ratio = None\<rparr>"

definition priced_summary ::
  "rounding_mode \<Rightarrow> execution_result \<Rightarrow> market_quote \<Rightarrow> rat \<Rightarrow> int \<Rightarrow> impact_summary \<Rightarrow> impact_summary" where
  "priced_summary ld execution before notional filled result =
     (let average_price = ld (notional / ld (of_int filled));
          direction = (if er_side execution = Buy then 1 else - 1);
          reference = (if er_side execution = Buy then mq_best_ask_ticks before else mq_best_bid_ticks before);
          available_liquidity = (if er_side execution = Buy then mq_ask_depth before else mq_bid_depth before);
          change = (case (mi_pre_trade_mid_ticks result, mi_post_trade_mid_ticks result) of
                      (Some pre, Some post) \<Rightarrow> Some (ld (post - pre)) | _ \<Rightarrow> None)
      in result\<lparr>mi_average_execution_price_ticks := Some average_price,
                mi_reference_price_ticks := map_option (\<lambda>p. ld (of_int p)) reference,
                mi_slippage_ticks := map_option (\<lambda>p. ld (direction * ld (average_price - ld (of_int p)))) reference,
                mi_effective_spread_ticks :=
                  map_option (\<lambda>mid. ld (ld (2 * direction) * ld (average_price - mid))) (mi_pre_trade_mid_ticks result),
                mi_mid_price_change_ticks := change,
                mi_signed_mid_impact_ticks := map_option (\<lambda>c. ld (direction * c)) change,
                mi_liquidity_consumed_ratio :=
                  (if available_liquidity > 0
                   then Some (ld (ld (of_int filled) / ld (of_int available_liquidity))) else None)\<rparr>)"

definition analyze_impact ::
  "rounding_mode \<Rightarrow> execution_result \<Rightarrow> market_quote \<Rightarrow> market_quote \<Rightarrow> impact_summary result" where
  "analyze_impact ld execution before after =
     (if \<not> valid_quantities execution then Inl (Invalid_argument ''Invalid execution quantities'')
      else and_then (impact_trades ld (er_executed_quantity execution) (er_trades execution) 0 0)
        (\<lambda>(notional, filled).
          if filled \<noteq> er_executed_quantity execution
          then Inl (Invalid_argument ''Executed quantity does not match trades'')
          else (let result = unpriced_summary ld execution before after filled
                in if filled = 0 then Inr result
                   else Inr (priced_summary ld execution before notional filled result))))"

subsection \<open>Lemmas\<close>

lemma build_levels_from_map:
  "map dl_price_ticks (build_levels_from ld c ls) = map pl_price_ticks ls"
  "map dl_quantity (build_levels_from ld c ls) = map pl_quantity ls"
  "length (build_levels_from ld c ls) = length ls"
  by (induction ls arbitrary: c) (simp_all add: Let_def)

context rounding
begin

lemma build_levels_from_exact:
  assumes "\<forall>l \<in> set ls. 0 \<le> pl_quantity l" "0 \<le> a" "a + sum_list (map pl_quantity ls) \<le> bound"
  shows "map dl_cumulative_quantity (build_levels_from rnd (of_int a) ls) =
    map (\<lambda>i. of_int (a + sum_list (map pl_quantity (take (Suc i) ls)))) [0..<length ls]"
  using assms
proof (induction ls arbitrary: a)
  case (Cons l ls)
  have nn: "0 \<le> sum_list (map pl_quantity ls)" using Cons.prems(1) by (intro sum_list_nonneg) auto
  have q: "rnd (of_int (pl_quantity l)) = of_int (pl_quantity l)" using Cons.prems nn by (intro rnd_exact) auto
  have aq: "rnd (of_int (a + pl_quantity l)) = of_int (a + pl_quantity l)"
    using Cons.prems nn by (intro rnd_exact) auto
  have up: "[0..<length (l # ls)] = 0 # map Suc [0..<length ls]" by (simp only: upt_conv_Cons map_Suc_upt length_Cons)
  have "map dl_cumulative_quantity (build_levels_from rnd (of_int (a + pl_quantity l)) ls) =
    map (\<lambda>i. of_int (a + pl_quantity l + sum_list (map pl_quantity (take (Suc i) ls)))) [0..<length ls]"
    using Cons.IH [of "a + pl_quantity l"] Cons.prems by simp
  then show ?case unfolding up using q aq by (simp add: Let_def add.assoc)
qed simp

lemma depth_of_exact:
  assumes "\<forall>l \<in> set ls. 0 \<le> pl_quantity l" "sum_list (map pl_quantity ls) \<le> bound"
  shows "depth_of (build_levels_from rnd 0 ls) = of_int (sum_list (map pl_quantity ls))"
proof (cases "ls = []")
  case False
  let ?b = "build_levels_from rnd 0 ls"
  have len: "length ?b = length ls" by (rule build_levels_from_map)
  then have ne: "?b \<noteq> []" using False by (metis length_0_conv)
  have "dl_cumulative_quantity (last ?b) = last (map dl_cumulative_quantity ?b)" using ne by (simp add: last_map)
  also have "\<dots> = last (map (\<lambda>i. of_int (0 + sum_list (map pl_quantity (take (Suc i) ls)))) [0..<length ls])"
    using build_levels_from_exact [of ls 0] assms by simp
  also have "\<dots> = of_int (sum_list (map pl_quantity ls))" using False by (simp add: last_map last_conv_nth)
  finally show ?thesis using ne by (simp add: depth_of_def)
qed (simp add: depth_of_def)

end

subsection \<open>Properties\<close>

definition top_quantity :: "nat \<Rightarrow> price_level list \<Rightarrow> int" where
  "top_quantity n levels = sum_list (map pl_quantity (take n levels))"

lemma build_levels_take: "build_levels ld ls n = build_levels_from ld 0 (take n ls)"
  by (simp add: build_levels_def min_def)

lemma top_quantity_nonneg: "levels_ok before ls \<Longrightarrow> 0 \<le> top_quantity n ls"
  unfolding top_quantity_def by (intro sum_list_nonneg) (auto simp: levels_ok_def dest!: in_set_takeD)

lemma top_quantity_0_iff:
  assumes "levels_ok before ls" "0 < n"
  shows "top_quantity n ls = 0 \<longleftrightarrow> ls = []"
proof (cases ls)
  case (Cons l ls')
  have "levels_ok before ls'" "0 < pl_quantity l" using assms(1) Cons by (auto simp: levels_ok_def)
  moreover obtain m where "n = Suc m" using assms(2) by (cases n) auto
  ultimately show ?thesis using Cons top_quantity_nonneg [of before ls' m] by (simp add: top_quantity_def)
qed (simp add: top_quantity_def)

lemma build_levels_side:
  assumes "rounding ld bound" "levels_ok before ls" "top_quantity n ls \<le> bound"
  shows "map dl_price_ticks (build_levels ld ls n) = map pl_price_ticks (take n ls)"
    "map dl_quantity (build_levels ld ls n) = map pl_quantity (take n ls)"
    "map dl_cumulative_quantity (build_levels ld ls n) =
       map (\<lambda>i. of_int (top_quantity (Suc i) ls)) [0..<min n (length ls)]"
    "depth_of (build_levels ld ls n) = of_int (top_quantity n ls)"
proof -
  have nn: "\<forall>l \<in> set (take n ls). 0 \<le> pl_quantity l" using assms(2) by (auto simp: levels_ok_def dest!: in_set_takeD)
  have b: "sum_list (map pl_quantity (take n ls)) \<le> bound" using assms(3) by (simp add: top_quantity_def)
  show "map dl_price_ticks (build_levels ld ls n) = map pl_price_ticks (take n ls)"
    "map dl_quantity (build_levels ld ls n) = map pl_quantity (take n ls)"
    by (simp_all add: build_levels_take build_levels_from_map)
  show "depth_of (build_levels ld ls n) = of_int (top_quantity n ls)"
    unfolding build_levels_take top_quantity_def by (rule rounding.depth_of_exact [OF assms(1) nn b])
  have "map dl_cumulative_quantity (build_levels_from ld (of_int 0) (take n ls)) =
      map (\<lambda>i. of_int (0 + sum_list (map pl_quantity (take (Suc i) (take n ls))))) [0..<length (take n ls)]"
    by (rule rounding.build_levels_from_exact [OF assms(1) nn]) (use b in simp_all)
  then show "map dl_cumulative_quantity (build_levels ld ls n) =
       map (\<lambda>i. of_int (top_quantity (Suc i) ls)) [0..<min n (length ls)]"
    by (simp add: build_levels_take top_quantity_def min.commute)
qed

text \<open>C40 The depth summary lists the best levels of both sides with their running totals; its depths are
  the totals of the listed quantities. The imbalance is absent exactly for an empty book; otherwise it
  is the rounded quotient of the difference of the depths and their sum, and lies between minus one
  and one. This holds for every rounding that is monotone and exact up to a
  bound the listed quantities stay within.\<close>
theorem depth_summary_describes_book:
  assumes "rounding ld bound" "1 \<le> bound" "book_ok book" "0 < n"
    and "top_quantity n (ob_bids book) + top_quantity n (ob_asks book) \<le> bound"
  shows "\<exists>ds. analyze_depth ld book n = Inr ds
    \<and> map dl_price_ticks (ds_bids ds) = map pl_price_ticks (take n (ob_bids book))
    \<and> map dl_cumulative_quantity (ds_bids ds) = map (\<lambda>i. of_int (top_quantity (Suc i) (ob_bids book))) [0..<min n (length (ob_bids book))]
    \<and> map dl_price_ticks (ds_asks ds) = map pl_price_ticks (take n (ob_asks book))
    \<and> map dl_cumulative_quantity (ds_asks ds) = map (\<lambda>i. of_int (top_quantity (Suc i) (ob_asks book))) [0..<min n (length (ob_asks book))]
    \<and> ds_bid_depth ds = of_int (top_quantity n (ob_bids book)) \<and> ds_ask_depth ds = of_int (top_quantity n (ob_asks book))
    \<and> ds_total_depth ds = ds_bid_depth ds + ds_ask_depth ds
    \<and> (ds_imbalance ds = None \<longleftrightarrow> ob_bids book = [] \<and> ob_asks book = [])
    \<and> (\<forall>x. ds_imbalance ds = Some x \<longrightarrow> - 1 \<le> x \<and> x \<le> 1
         \<and> x = ld ((ds_bid_depth ds - ds_ask_depth ds) / ds_total_depth ds))"
proof -
  let ?B = "top_quantity n (ob_bids book)" and ?A = "top_quantity n (ob_asks book)"
  have lv: "levels_ok bid_before (ob_bids book)" "levels_ok ask_before (ob_asks book)"
    using assms(3) by (simp_all add: book_ok_def)
  note nn = top_quantity_nonneg [OF lv(1), of n] top_quantity_nonneg [OF lv(2), of n]
  note bids = build_levels_side [OF assms(1) lv(1), of n] and asks = build_levels_side [OF assms(1) lv(2), of n]
  have tot: "ld (of_int ?B + of_int ?A) = of_int (?B + ?A)"
    using rounding.rnd_exact [OF assms(1), of "?B + ?A"] nn assms(5) by simp
  have diff: "ld (of_int ?B - of_int ?A) = of_int (?B - ?A)"
    using rounding.rnd_exact [OF assms(1), of "?B - ?A"] nn assms(5) by simp
  have "- 1 \<le> ld (of_int (?B - ?A) / of_int (?B + ?A)) \<and> ld (of_int (?B - ?A) / of_int (?B + ?A)) \<le> 1"
    by (rule rounding.ratio_bounds [OF assms(1,2)]) (use nn in linarith)
  moreover have "?B + ?A \<le> 0 \<longleftrightarrow> ob_bids book = [] \<and> ob_asks book = []"
    using nn top_quantity_0_iff [OF lv(1) assms(4)] top_quantity_0_iff [OF lv(2) assms(4)] by linarith
  moreover have "analyze_depth ld book n = Inr \<lparr>ds_requested_levels = n,
      ds_bid_levels = length (build_levels ld (ob_bids book) n), ds_ask_levels = length (build_levels ld (ob_asks book) n),
      ds_bid_depth = of_int ?B, ds_ask_depth = of_int ?A, ds_total_depth = of_int (?B + ?A),
      ds_imbalance = (if ?B + ?A \<le> 0 then None else Some (ld (of_int (?B - ?A) / of_int (?B + ?A)))),
      ds_bids = build_levels ld (ob_bids book) n, ds_asks = build_levels ld (ob_asks book) n\<rparr>"
    using assms(4,5) nn bids(4) asks(4) unfolding analyze_depth_def Let_def
    by (simp only: tot diff of_int_0_less_iff) auto
  ultimately show ?thesis using assms(5) nn bids(1,3) asks(1,3) by (simp split: if_splits)
qed

theorem depth_summary_describes_book_witness:
  "\<exists>ds. analyze_depth (\<lambda>x. x) \<lparr>ob_bids = [\<lparr>pl_price_ticks = 7, pl_quantity = 3\<rparr>, \<lparr>pl_price_ticks = 6, pl_quantity = 4\<rparr>],
      ob_asks = []\<rparr> 5 = Inr ds \<and> ds_bid_depth ds = 7 \<and> map dl_cumulative_quantity (ds_bids ds) = [3, 7]"
proof -
  let ?b = "\<lparr>ob_bids = [\<lparr>pl_price_ticks = 7, pl_quantity = 3\<rparr>, \<lparr>pl_price_ticks = 6, pl_quantity = 4\<rparr>], ob_asks = []\<rparr>"
  have ok: "book_ok ?b" by (simp add: book_ok_def levels_ok_def INT64_MAX_def)
  have q: "top_quantity 5 (ob_bids ?b) + top_quantity 5 (ob_asks ?b) \<le> INT64_MAX"
    by (simp add: top_quantity_def INT64_MAX_def)
  have eval: "top_quantity 5 (ob_bids ?b) = 7"
    "map (\<lambda>i. of_int (top_quantity (Suc i) (ob_bids ?b))) [0..<min 5 (length (ob_bids ?b))] = ([3, 7] :: rat list)"
    by (simp_all add: top_quantity_def upt_rec)
  show ?thesis
    using depth_summary_describes_book [OF exact.rounding_axioms _ ok _ q] unfolding eval by (auto simp: INT64_MAX_def)
qed

end
