(* ===== verification/Positions.thy ===== *)
theory Positions
  imports Order_Types
begin

text \<open>
  Positions and their profit and loss (\<open>include/position.hpp\<close>), the positions by symbol
  (\<open>include/position_manager.hpp\<close>), their update from an execution
  (\<open>include/position_execution_handler.hpp\<close>), the position limit (\<open>include/risk_limits.hpp\<close>) and its
  check (\<open>include/risk_validator.hpp\<close>). \<open>__int128\<close> values are integers: the products of two 64-bit
  values and the sums of two such products fit.
\<close>

subsection \<open>A position\<close>

record position =
  po_symbol :: string
  po_quantity :: int
  po_average_entry_price_ticks :: int
  po_realized_pnl_ticks :: int

definition new_position :: "string \<Rightarrow> position" where
  "new_position symbol = \<lparr>po_symbol = symbol, po_quantity = 0, po_average_entry_price_ticks = 0,
     po_realized_pnl_ticks = 0\<rparr>"

definition is_flat :: "position \<Rightarrow> bool" where
  "is_flat pos \<longleftrightarrow> po_quantity pos = 0"

definition is_long :: "position \<Rightarrow> bool" where
  "is_long pos \<longleftrightarrow> po_quantity pos > 0"

definition is_short :: "position \<Rightarrow> bool" where
  "is_short pos \<longleftrightarrow> po_quantity pos < 0"

definition unrealized_pnl_ticks :: "int \<Rightarrow> position \<Rightarrow> int result" where
  "unrealized_pnl_ticks market_price_ticks pos =
     (if market_price_ticks \<le> 0 then Inl (Invalid_argument ''Market price must be positive'')
      else if po_quantity pos = 0 then Inr 0
      else Inr (to_i64 (to_i64 (market_price_ticks - po_average_entry_price_ticks pos) * po_quantity pos)))"

definition absolute_quantity :: "int \<Rightarrow> int" where
  "absolute_quantity quantity = (if quantity < 0 then to_i64 (- quantity) else quantity)"

text \<open>The branch of a trade in the direction of the position.\<close>

definition extend_position :: "int \<Rightarrow> int \<Rightarrow> position \<Rightarrow> position" where
  "extend_position quantity price_ticks pos =
     (let old_absolute_quantity = absolute_quantity (po_quantity pos);
          trade_absolute_quantity = absolute_quantity quantity;
          new_absolute_quantity = to_i64 (old_absolute_quantity + trade_absolute_quantity);
          weighted_price_total = po_average_entry_price_ticks pos * old_absolute_quantity
            + price_ticks * trade_absolute_quantity
      in pos\<lparr>po_average_entry_price_ticks := to_i64 (cdiv weighted_price_total new_absolute_quantity),
             po_quantity := to_i64 (po_quantity pos + quantity)\<rparr>)"

text \<open>The branch of a trade against the position: it closes, and may go on to the other side.\<close>

definition reduce_position :: "int \<Rightarrow> int \<Rightarrow> position \<Rightarrow> position" where
  "reduce_position quantity price_ticks pos =
     (let current_is_long = (po_quantity pos > 0);
          old_absolute_quantity = absolute_quantity (po_quantity pos);
          trade_absolute_quantity = absolute_quantity quantity;
          closing_quantity = (if trade_absolute_quantity < old_absolute_quantity
                              then trade_absolute_quantity else old_absolute_quantity);
          price_difference = (if current_is_long then price_ticks - po_average_entry_price_ticks pos
                              else po_average_entry_price_ticks pos - price_ticks);
          realized_change = price_difference * closing_quantity;
          pos1 = pos\<lparr>po_realized_pnl_ticks := to_i64 (po_realized_pnl_ticks pos + to_i64 realized_change)\<rparr>
      in if trade_absolute_quantity < old_absolute_quantity
         then pos1\<lparr>po_quantity := to_i64 (po_quantity pos1 + quantity)\<rparr>
         else if trade_absolute_quantity = old_absolute_quantity
         then pos1\<lparr>po_quantity := 0, po_average_entry_price_ticks := 0\<rparr>
         else pos1\<lparr>po_quantity := to_i64 (po_quantity pos1 + quantity),
                   po_average_entry_price_ticks := price_ticks\<rparr>)"

definition position_apply_trade :: "int \<Rightarrow> int \<Rightarrow> position \<Rightarrow> (unit, position) outcome" where
  "position_apply_trade quantity price_ticks pos =
     (if quantity = 0 then (Inl (Invalid_argument ''Trade quantity must not be zero''), pos)
      else if price_ticks \<le> 0 then (Inl (Invalid_argument ''Trade price must be positive''), pos)
      else if po_quantity pos = 0
      then (Inr (), pos\<lparr>po_quantity := quantity, po_average_entry_price_ticks := price_ticks\<rparr>)
      else let current_is_long = (po_quantity pos > 0); trade_is_buy = (quantity > 0)
           in if current_is_long = trade_is_buy
              then (Inr (), extend_position quantity price_ticks pos)
              else (Inr (), reduce_position quantity price_ticks pos))"

subsection \<open>Positions by symbol\<close>

record position_manager =
  pm_positions :: "string \<rightharpoonup> position"

definition new_position_manager :: position_manager where
  "new_position_manager = \<lparr>pm_positions = Map.empty\<rparr>"

definition pm_apply_trade ::
  "string \<Rightarrow> int \<Rightarrow> int \<Rightarrow> position_manager \<Rightarrow> (unit, position_manager) outcome" where
  "pm_apply_trade symbol quantity price_ticks pm =
     (if symbol = [] then (Inl (Invalid_argument ''Position symbol must not be empty''), pm)
      else
        (let inserted = (pm_positions pm symbol = None);
             pos = (case pm_positions pm symbol of None \<Rightarrow> new_position symbol | Some p \<Rightarrow> p)
         in case position_apply_trade quantity price_ticks pos of
              (Inl err, pos1) \<Rightarrow>
                (Inl err, if inserted then pm\<lparr>pm_positions := (pm_positions pm)(symbol := None)\<rparr>
                          else pm\<lparr>pm_positions := (pm_positions pm)(symbol \<mapsto> pos1)\<rparr>)
            | (Inr _, pos1) \<Rightarrow> (Inr (), pm\<lparr>pm_positions := (pm_positions pm)(symbol \<mapsto> pos1)\<rparr>)))"

definition has_position :: "position_manager \<Rightarrow> string \<Rightarrow> bool" where
  "has_position pm symbol \<longleftrightarrow> pm_positions pm symbol \<noteq> None"

definition pm_position :: "position_manager \<Rightarrow> string \<Rightarrow> position result" where
  "pm_position pm symbol =
     (case pm_positions pm symbol of
        None \<Rightarrow> Inl (Out_of_range (''Position not found for symbol: '' @ symbol))
      | Some pos \<Rightarrow> Inr pos)"

subsection \<open>Executions\<close>

text \<open>The loop of \<open>apply_execution\<close> over the trades of the result.\<close>

fun apply_trades :: "string \<Rightarrow> order_side \<Rightarrow> trade list \<Rightarrow> position_manager \<Rightarrow> (unit, position_manager) outcome" where
  "apply_trades symbol side [] pm = (Inr (), pm)"
| "apply_trades symbol side (t # ts) pm =
     (let signed_quantity = (if side = Buy then tr_quantity t else to_i64 (- tr_quantity t))
      in seq (pm_apply_trade symbol signed_quantity (tr_price_ticks t) pm)
           (\<lambda>_ pm1. apply_trades symbol side ts pm1))"

definition position_apply_execution ::
  "string \<Rightarrow> execution_result \<Rightarrow> position_manager \<Rightarrow> (unit, position_manager) outcome" where
  "position_apply_execution symbol res pm =
     (if symbol = [] then (Inl (Invalid_argument ''Execution symbol must not be empty''), pm)
      else apply_trades symbol (er_side res) (er_trades res) pm)"

subsection \<open>Risk limits\<close>

record risk_limits =
  rl_max_absolute_position :: int

definition new_risk_limits :: "int \<Rightarrow> risk_limits result" where
  "new_risk_limits max_absolute_position =
     (if max_absolute_position \<le> 0
      then Inl (Invalid_argument ''Maximum absolute position must be positive'')
      else Inr \<lparr>rl_max_absolute_position = max_absolute_position\<rparr>)"

definition is_position_allowed :: "risk_limits \<Rightarrow> int \<Rightarrow> bool" where
  "is_position_allowed limits position =
     (if position = INT64_MIN then False
      else (if position < 0 then to_i64 (- position) else position) \<le> rl_max_absolute_position limits)"

definition limits_trade_allowed :: "risk_limits \<Rightarrow> int \<Rightarrow> int \<Rightarrow> bool" where
  "limits_trade_allowed limits current_position trade_quantity =
     (let resulting_position = current_position + trade_quantity
      in resulting_position \<le> rl_max_absolute_position limits
         \<and> resulting_position \<ge> - rl_max_absolute_position limits)"

definition validator_trade_allowed :: "risk_limits \<Rightarrow> position_manager \<Rightarrow> string \<Rightarrow> int \<Rightarrow> bool result" where
  "validator_trade_allowed limits pm symbol trade_quantity =
     (if symbol = [] then Inl (Invalid_argument ''Risk validation symbol must not be empty'')
      else if trade_quantity = 0
      then Inl (Invalid_argument ''Risk validation trade quantity must not be zero'')
      else and_then (if has_position pm symbol
                     then and_then (pm_position pm symbol) (\<lambda>pos. Inr (po_quantity pos))
                     else Inr 0)
             (\<lambda>current_position. Inr (limits_trade_allowed limits current_position trade_quantity)))"

subsection \<open>Accounting\<close>

text \<open>
  A position is worth its realized profit and what closing it at a market price would add. Trading
  \<open>t\<close> units at \<open>p\<close> when the market is at \<open>m\<close> is worth \<open>t * (m - p)\<close>.
\<close>

definition position_ok :: "position \<Rightarrow> bool" where
  "position_ok pos \<longleftrightarrow> (if po_quantity pos = 0 then po_average_entry_price_ticks pos = 0
       else 0 < po_average_entry_price_ticks pos)
     \<and> \<bar>po_quantity pos\<bar> \<le> INT64_MAX \<and> po_average_entry_price_ticks pos \<le> INT64_MAX
     \<and> i64 (po_realized_pnl_ticks pos)"

definition equity :: "int \<Rightarrow> position \<Rightarrow> int" where
  "equity m pos = po_realized_pnl_ticks pos + po_quantity pos * (m - po_average_entry_price_ticks pos)"

definition closing_gain :: "position \<Rightarrow> int \<Rightarrow> int \<Rightarrow> int" where
  "closing_gain pos t p = (if po_quantity pos * t < 0
     then sgn (po_quantity pos) * (p - po_average_entry_price_ticks pos) * min \<bar>po_quantity pos\<bar> \<bar>t\<bar> else 0)"

text \<open>The trade and the position it leads to are in range; the gain of closing is; the profit at a price is.\<close>

definition trade_fits :: "position \<Rightarrow> int \<Rightarrow> int \<Rightarrow> bool" where
  "trade_fits pos t p \<longleftrightarrow> \<bar>t\<bar> \<le> INT64_MAX \<and> p \<le> INT64_MAX \<and> \<bar>po_quantity pos + t\<bar> \<le> INT64_MAX"

definition gain_fits :: "position \<Rightarrow> int \<Rightarrow> int \<Rightarrow> bool" where
  "gain_fits pos t p \<longleftrightarrow> i64 (closing_gain pos t p) \<and> i64 (po_realized_pnl_ticks pos + closing_gain pos t p)"

definition pnl_fits :: "int \<Rightarrow> position \<Rightarrow> bool" where
  "pnl_fits m pos \<longleftrightarrow> i64 (po_quantity pos * (m - po_average_entry_price_ticks pos))"

text \<open>What the code computes of the worth is the worth, while it fits.\<close>

lemma unrealized_equity:
  assumes "position_ok pos" "0 < m" "m \<le> INT64_MAX" "pnl_fits m pos" "unrealized_pnl_ticks m pos = Inr u"
  shows "po_realized_pnl_ticks pos + u = equity m pos"
proof -
  have a: "0 \<le> po_average_entry_price_ticks pos" "po_average_entry_price_ticks pos \<le> INT64_MAX"
    using assms(1) by (auto simp: position_ok_def split: if_splits)
  have "i64 (m - po_average_entry_price_ticks pos)" using a assms(2,3) by (intro i64_abs) auto
  then show ?thesis
    using assms(2,4,5) by (auto simp: unrealized_pnl_ticks_def pnl_fits_def equity_def mult.commute split: if_splits)
qed

lemma absolute_quantity_abs: "\<bar>q\<bar> \<le> INT64_MAX \<Longrightarrow> absolute_quantity q = \<bar>q\<bar>"
  using i64_abs [of q] by (auto simp: absolute_quantity_def intro!: to_i64_id i64_abs)

lemma average_div_bounds:
  assumes "0 < (a::int)" "0 < p" "0 < m" "0 < n"
  shows "min a p \<le> (a * m + p * n) div (m + n)" "(a * m + p * n) div (m + n) \<le> max a p"
proof -
  have "min a p * (m + n) \<le> a * m + p * n"
    unfolding distrib_left using assms by (intro add_mono mult_right_mono) simp_all
  then show "min a p \<le> (a * m + p * n) div (m + n)" 
    using assms zdiv_mono1 [of "min a p * (m + n)" "a * m + p * n" "m + n"] by simp
  have "a * m + p * n \<le> max a p * (m + n)"
    unfolding distrib_left using assms by (intro add_mono mult_right_mono) simp_all
  then show "(a * m + p * n) div (m + n) \<le> max a p"
    using assms zdiv_mono1 [of "a * m + p * n" "max a p * (m + n)" "m + n"] by simp
qed

lemma extend_position_eq:
  assumes "position_ok pos" "trade_fits pos t p" "0 < po_quantity pos * t" "0 < p"
  shows "extend_position t p pos = pos\<lparr>po_average_entry_price_ticks :=
      (po_average_entry_price_ticks pos * \<bar>po_quantity pos\<bar> + p * \<bar>t\<bar>) div (\<bar>po_quantity pos\<bar> + \<bar>t\<bar>),
      po_quantity := po_quantity pos + t\<rparr>"
proof -
  let ?a = "po_average_entry_price_ticks pos" and ?q = "po_quantity pos"
  have signs: "0 < ?q \<and> 0 < t \<or> ?q < 0 \<and> t < 0" using assms(3) by (simp add: zero_less_mult_iff)
  have ok: "0 < ?a" "?a \<le> INT64_MAX" "\<bar>?q\<bar> \<le> INT64_MAX" "\<bar>t\<bar> \<le> INT64_MAX" "\<bar>?q + t\<bar> \<le> INT64_MAX" "p \<le> INT64_MAX"
    using assms signs by (auto simp: position_ok_def trade_fits_def split: if_splits)
  have sum: "\<bar>?q + t\<bar> = \<bar>?q\<bar> + \<bar>t\<bar>" using signs by auto
  note avg = average_div_bounds [OF ok(1) assms(4), of "\<bar>?q\<bar>" "\<bar>t\<bar>"]
  have "i64 ((?a * \<bar>?q\<bar> + p * \<bar>t\<bar>) div (\<bar>?q\<bar> + \<bar>t\<bar>))"
    using avg signs ok(1,2,6) assms(4) by (intro i64_abs) auto
  moreover have "i64 (\<bar>?q\<bar> + \<bar>t\<bar>)" "i64 (?q + t)" using ok(5) sum by (auto intro: i64_abs)
  moreover have "cdiv (?a * \<bar>?q\<bar> + p * \<bar>t\<bar>) (\<bar>?q\<bar> + \<bar>t\<bar>) = (?a * \<bar>?q\<bar> + p * \<bar>t\<bar>) div (\<bar>?q\<bar> + \<bar>t\<bar>)"
    using signs ok(1) assms(4) by (intro cdiv_nonneg) auto
  ultimately show ?thesis
    using ok(3,4) by (simp add: extend_position_def Let_def absolute_quantity_abs)
qed

lemma reduce_position_eq:
  assumes "position_ok pos" "trade_fits pos t p" "po_quantity pos * t < 0"
  shows "reduce_position t p pos = pos\<lparr>po_realized_pnl_ticks := to_i64 (po_realized_pnl_ticks pos + to_i64 (closing_gain pos t p)),
      po_quantity := po_quantity pos + t,
      po_average_entry_price_ticks := (if \<bar>t\<bar> < \<bar>po_quantity pos\<bar> then po_average_entry_price_ticks pos
        else if \<bar>t\<bar> = \<bar>po_quantity pos\<bar> then 0 else p)\<rparr>"
proof -
  let ?a = "po_average_entry_price_ticks pos" and ?q = "po_quantity pos"
  have signs: "0 < ?q \<and> t < 0 \<or> ?q < 0 \<and> 0 < t" using assms(3) by (simp add: mult_less_0_iff)
  have ok: "\<bar>?q\<bar> \<le> INT64_MAX" "\<bar>t\<bar> \<le> INT64_MAX" "i64 (?q + t)"
    using assms by (auto simp: position_ok_def trade_fits_def intro: i64_abs)
  have gain: "(if ?q > 0 then p - ?a else ?a - p) * (if \<bar>t\<bar> < \<bar>?q\<bar> then \<bar>t\<bar> else \<bar>?q\<bar>) = closing_gain pos t p"
    using signs by (auto simp: closing_gain_def mult_less_0_iff min_def algebra_simps)
  have "\<bar>t\<bar> = \<bar>?q\<bar> \<Longrightarrow> ?q + t = 0" using signs by auto
  then show ?thesis
    unfolding reduce_position_def Let_def absolute_quantity_abs [OF ok(1)] absolute_quantity_abs [OF ok(2)] gain
    using ok(3) by auto
qed

lemma extend_value:
  assumes "0 < q * (t::int)" "W = a * \<bar>q\<bar> + p * \<bar>t\<bar>" "N = \<bar>q\<bar> + \<bar>t\<bar>"
  shows "\<bar>((q + t) * (m - W div N)) - (q * (m - a) + t * (m - p))\<bar> < \<bar>q + t\<bar>"
proof -
  have signs: "0 < q \<and> 0 < t \<or> q < 0 \<and> t < 0" using assms(1) by (simp add: zero_less_mult_iff)
  then have N: "0 < N" "\<bar>q + t\<bar> = N" using assms(3) by auto
  have W: "W - N * (W div N) = W mod N" by (simp add: minus_mult_div_eq_mod)
  have "((q + t) * (m - W div N)) - (q * (m - a) + t * (m - p)) = a * q + p * t - (q + t) * (W div N)"
    by (simp add: algebra_simps)
  also have "\<dots> = sgn q * (W - N * (W div N))"
    using signs assms(2,3) by (auto simp: algebra_simps)
  finally have "((q + t) * (m - W div N)) - (q * (m - a) + t * (m - p)) = sgn q * (W mod N)" unfolding W .
  then show ?thesis using N pos_mod_bound [OF N(1), of W] pos_mod_sign [OF N(1), of W] signs by (auto simp: abs_mult)
qed

lemma reduce_value:
  assumes "q * (t::int) < 0"
  shows "sgn q * (p - a) * min \<bar>q\<bar> \<bar>t\<bar>
      + (q + t) * (m - (if \<bar>t\<bar> < \<bar>q\<bar> then a else if \<bar>t\<bar> = \<bar>q\<bar> then 0 else p))
    = q * (m - a) + t * (m - p)"
proof -
  have "0 < q \<and> t < 0 \<or> q < 0 \<and> 0 < t" using assms by (simp add: mult_less_0_iff)
  then show ?thesis
  proof
    assume "0 < q \<and> t < 0"
    then show ?thesis by (auto simp: min_def algebra_simps)
  next
    assume "q < 0 \<and> 0 < t"
    then show ?thesis by (auto simp: min_def algebra_simps)
  qed
qed

lemma position_apply_trade_eq:
  assumes "position_ok pos" "trade_fits pos t p" "t \<noteq> 0" "0 < p"
  obtains pos' where "position_apply_trade t p pos = (Inr (), pos')" "position_ok pos'"
    "po_quantity pos' = po_quantity pos + t" "po_symbol pos' = po_symbol pos"
    "po_realized_pnl_ticks pos' = to_i64 (po_realized_pnl_ticks pos + to_i64 (closing_gain pos t p))"
    "0 < po_quantity pos * t \<Longrightarrow> min (po_average_entry_price_ticks pos) p \<le> po_average_entry_price_ticks pos'
       \<and> po_average_entry_price_ticks pos' \<le> max (po_average_entry_price_ticks pos) p"
    "\<And>m. gain_fits pos t p \<Longrightarrow> if 0 < po_quantity pos * t
      then \<bar>equity m pos' - (equity m pos + t * (m - p))\<bar> < \<bar>po_quantity pos'\<bar>
      else equity m pos' = equity m pos + t * (m - p)"
proof -
  let ?q = "po_quantity pos" and ?a = "po_average_entry_price_ticks pos"
  have old: "to_i64 (po_realized_pnl_ticks pos) = po_realized_pnl_ticks pos" "to_i64 0 = 0"
    using assms(1) by (simp_all add: position_ok_def i64_def INT64_MAX_def INT64_MIN_def)
  consider "?q = 0" | "0 < ?q * t" | "?q * t < 0" using assms(3) by (metis linorder_neqE mult_eq_0_iff)
  then show ?thesis
  proof cases
    case 1
    let ?p = "pos\<lparr>po_quantity := t, po_average_entry_price_ticks := p\<rparr>"
    have "position_apply_trade t p pos = (Inr (), ?p)" using 1 assms(3,4) by (simp add: position_apply_trade_def)
    then show ?thesis
      by (rule that) (use assms 1 old in \<open>auto simp: position_ok_def trade_fits_def closing_gain_def equity_def\<close>)
  next
    case 2
    have signs: "0 < ?q \<and> 0 < t \<or> ?q < 0 \<and> t < 0" using 2 by (simp add: zero_less_mult_iff)
    have op: "position_apply_trade t p pos = (Inr (), extend_position t p pos)"
      using signs assms(3,4) by (auto simp: position_apply_trade_def)
    have a: "0 < ?a" using assms(1) signs by (auto simp: position_ok_def split: if_splits)
    note avg = average_div_bounds [OF a assms(4), of "\<bar>?q\<bar>" "\<bar>t\<bar>"]
    note eq = extend_position_eq [OF assms(1,2) 2 assms(4)]
    have g: "closing_gain pos t p = 0" using 2 by (simp add: closing_gain_def)
    show ?thesis
    proof (rule that [OF op])
      show "position_ok (extend_position t p pos)"
        unfolding eq using avg signs assms a by (auto simp: position_ok_def trade_fits_def split: if_splits)
      fix m
      let ?v = "(?a * \<bar>?q\<bar> + p * \<bar>t\<bar>) div (\<bar>?q\<bar> + \<bar>t\<bar>)"
      have d: "equity m (extend_position t p pos) - (equity m pos + t * (m - p))
          = (?q + t) * (m - ?v) - (?q * (m - ?a) + t * (m - p))" unfolding eq by (simp add: equity_def)
      have q': "po_quantity (extend_position t p pos) = ?q + t" unfolding eq by simp
      show "if 0 < ?q * t
        then \<bar>equity m (extend_position t p pos) - (equity m pos + t * (m - p))\<bar> < \<bar>po_quantity (extend_position t p pos)\<bar>
        else equity m (extend_position t p pos) = equity m pos + t * (m - p)"
        unfolding if_P [OF 2] d q' by (rule extend_value [OF 2 refl refl])
    qed (use avg signs g eq old in auto)
  next
    case 3
    have signs: "0 < ?q \<and> t < 0 \<or> ?q < 0 \<and> 0 < t" using 3 by (simp add: mult_less_0_iff)
    have op: "position_apply_trade t p pos = (Inr (), reduce_position t p pos)"
      using signs assms(3,4) by (auto simp: position_apply_trade_def)
    note eq = reduce_position_eq [OF assms(1,2) 3]
    show ?thesis
    proof (rule that [OF op])
      show "position_ok (reduce_position t p pos)"
        unfolding eq using signs assms to_i64_range by (auto simp: position_ok_def trade_fits_def split: if_splits)
      show "gain_fits pos t p \<Longrightarrow> if 0 < ?q * t then \<bar>equity m (reduce_position t p pos) - (equity m pos + t * (m - p))\<bar> < \<bar>po_quantity (reduce_position t p pos)\<bar>
        else equity m (reduce_position t p pos) = equity m pos + t * (m - p)" for m
        unfolding eq using reduce_value [OF 3, where a = ?a and p = p and m = m] 3
        by (auto simp: equity_def gain_fits_def closing_gain_def)
    qed (use 3 eq in auto)
  qed
qed

subsection \<open>Quantities along an execution\<close>

definition pm_quantity :: "position_manager \<Rightarrow> string \<Rightarrow> int" where
  "pm_quantity pm symbol = (case pm_positions pm symbol of None \<Rightarrow> 0 | Some pos \<Rightarrow> po_quantity pos)"

definition signed_quantity :: "order_side \<Rightarrow> int \<Rightarrow> int" where
  "signed_quantity side q = (case side of Buy \<Rightarrow> q | Sell \<Rightarrow> - q)"

lemma position_quantity_moves:
  assumes "\<bar>po_quantity pos\<bar> \<le> INT64_MAX" "\<bar>t\<bar> \<le> INT64_MAX" "\<bar>po_quantity pos + t\<bar> \<le> INT64_MAX" "t \<noteq> 0" "0 < p"
  obtains pos' where "position_apply_trade t p pos = (Inr (), pos')" "po_quantity pos' = po_quantity pos + t"
proof -
  let ?q = "po_quantity pos"
  have s: "i64 (?q + t)" using assms(3) by (rule i64_abs)
  have "(0 < ?q) \<noteq> (0 < t) \<Longrightarrow> ?q \<noteq> 0 \<Longrightarrow> \<bar>t\<bar> = \<bar>?q\<bar> \<Longrightarrow> ?q + t = 0" by linarith
  then have "fst (position_apply_trade t p pos) = Inr ()"
    "po_quantity (snd (position_apply_trade t p pos)) = ?q + t"
    using assms(4,5) s absolute_quantity_abs [OF assms(1)] absolute_quantity_abs [OF assms(2)]
    by (simp_all add: position_apply_trade_def extend_position_def reduce_position_def Let_def)
  then show ?thesis using that by (metis prod.collapse)
qed

lemma pm_apply_trade_moves:
  assumes "symbol \<noteq> []" "\<bar>pm_quantity pm symbol\<bar> \<le> INT64_MAX" "\<bar>t\<bar> \<le> INT64_MAX"
    "\<bar>pm_quantity pm symbol + t\<bar> \<le> INT64_MAX" "t \<noteq> 0" "0 < p"
  obtains pm' where "pm_apply_trade symbol t p pm = (Inr (), pm')"
    "pm_quantity pm' = (pm_quantity pm)(symbol := pm_quantity pm symbol + t)"
proof -
  let ?pos = "case pm_positions pm symbol of None \<Rightarrow> new_position symbol | Some p \<Rightarrow> p"
  have q: "po_quantity ?pos = pm_quantity pm symbol"
    by (simp add: pm_quantity_def new_position_def split: option.splits)
  obtain pos' where pos': "position_apply_trade t p ?pos = (Inr (), pos')" "po_quantity pos' = pm_quantity pm symbol + t"
    using position_quantity_moves [of ?pos t p] assms(2-6) unfolding q by metis
  let ?pm' = "pm\<lparr>pm_positions := (pm_positions pm)(symbol \<mapsto> pos')\<rparr>"
  have "pm_apply_trade symbol t p pm = (Inr (), ?pm')"
    using assms(1) pos'(1) by (simp add: pm_apply_trade_def Let_def)
  moreover have "pm_quantity ?pm' = (pm_quantity pm)(symbol := pm_quantity pm symbol + t)"
    using pos'(2) by (auto simp: pm_quantity_def fun_eq_iff)
  ultimately show ?thesis using that by blast
qed

text \<open>
  An execution moves the position by the sum of its trades, monotonically: if the position before
  and after are in range, so are all in between, and no step throws.
\<close>

lemma apply_trades_move:
  assumes "symbol \<noteq> []" "\<forall>t \<in> set ts. 0 < tr_quantity t \<and> 0 < tr_price_ticks t"
    "\<bar>pm_quantity pm symbol\<bar> \<le> INT64_MAX" "sum_list (map tr_quantity ts) \<le> INT64_MAX"
    "\<bar>pm_quantity pm symbol + signed_quantity side (sum_list (map tr_quantity ts))\<bar> \<le> INT64_MAX"
  obtains pm' where "apply_trades symbol side ts pm = (Inr (), pm')"
    "pm_quantity pm' = (pm_quantity pm)(symbol := pm_quantity pm symbol + signed_quantity side (sum_list (map tr_quantity ts)))"
  using assms
proof (induction ts arbitrary: pm thesis)
  case Nil
  show ?case by (rule Nil.prems(1) [of pm]) (cases side; simp add: signed_quantity_def)+
next
  case (Cons t ts)
  let ?S = "sum_list (map tr_quantity ts)" and ?c = "pm_quantity pm symbol" and ?q = "signed_quantity side (tr_quantity t)"
  have t: "0 < tr_quantity t" "0 < tr_price_ticks t" using Cons.prems(3) by simp_all
  have S: "0 \<le> ?S" using Cons.prems(3) by (intro sum_list_nonneg) auto
  have tm: "tr_quantity t \<le> INT64_MAX" using Cons.prems(5) S by simp
  then have q: "(if side = Buy then tr_quantity t else to_i64 (- tr_quantity t)) = ?q" "?q \<noteq> 0" "\<bar>?q\<bar> \<le> INT64_MAX"
    using t by (auto simp: signed_quantity_def intro!: to_i64_id i64_abs split: order_side.splits)
  have total: "?c + signed_quantity side (sum_list (map tr_quantity (t # ts))) = ?c + ?q + signed_quantity side ?S"
    by (cases side) (simp_all add: signed_quantity_def)
  have mid: "\<bar>?c + ?q\<bar> \<le> INT64_MAX"
    using Cons.prems(4,6) t S unfolding total by (cases side) (simp_all add: signed_quantity_def)
  obtain pm1 where pm1: "pm_apply_trade symbol ?q (tr_price_ticks t) pm = (Inr (), pm1)"
    "pm_quantity pm1 = (pm_quantity pm)(symbol := ?c + ?q)"
    using pm_apply_trade_moves [OF Cons.prems(2,4) q(3) mid q(2) t(2)] by metis
  have pre: "\<forall>t \<in> set ts. 0 < tr_quantity t \<and> 0 < tr_price_ticks t" "\<bar>pm_quantity pm1 symbol\<bar> \<le> INT64_MAX"
    "?S \<le> INT64_MAX" "\<bar>pm_quantity pm1 symbol + signed_quantity side ?S\<bar> \<le> INT64_MAX"
    using Cons.prems t mid total by (simp_all add: pm1(2))
  obtain pm' where pm': "apply_trades symbol side ts pm1 = (Inr (), pm')"
    "pm_quantity pm' = (pm_quantity pm1)(symbol := pm_quantity pm1 symbol + signed_quantity side ?S)"
    using Cons.IH [OF _ Cons.prems(2) pre] by metis
  show ?case
  proof (rule Cons.prems(1))
    show "apply_trades symbol side (t # ts) pm = (Inr (), pm')"
      using pm1(1) pm'(1) q(1) by simp
    show "pm_quantity pm' = (pm_quantity pm)(symbol := ?c + signed_quantity side (sum_list (map tr_quantity (t # ts))))"
      unfolding total using pm'(2) pm1(2) by (simp add: fun_upd_def fun_eq_iff)
  qed
qed

subsection \<open>Properties\<close>

text \<open>
  The realized profit is cut to 64 bits without a check: closing a large position at a gain can record a loss.
\<close>

lemma realized_pnl_wraps:
  "position_apply_trade (- (10 ^ 13)) (2 * 10 ^ 6) \<lparr>po_symbol = ''S'', po_quantity = 10 ^ 13,
       po_average_entry_price_ticks = 10 ^ 6, po_realized_pnl_ticks = 0\<rparr>
     = (Inr (), \<lparr>po_symbol = ''S'', po_quantity = 0, po_average_entry_price_ticks = 0,
         po_realized_pnl_ticks = - 8446744073709551616\<rparr>)"
  by code_simp

text \<open>C20 A trade of a position with a nonzero quantity at a positive price, when the quantity after it is in
  the 64-bit range, moves the quantity by the trade and keeps the position well formed (an entry price
  exactly while it is open). The realized profit grows by the gain on the closed part, cut to 64 bits. When
  nothing is cut, neither in the realized profit nor in the unrealized profits the code computes before
  and after, trading against the position, also through zero, changes realized plus unrealized
  profit at every market price by exactly what the trade is worth; trading with it does so up to the
  rounding of the average entry price, which stays between the old one and the trade price: less than
  one tick per unit.\<close>
theorem position_trade_accounting:
  assumes "position_ok pos" "trade_fits pos t p" "t \<noteq> 0" "0 < p"
  shows "\<exists>pos'. position_apply_trade t p pos = (Inr (), pos') \<and> position_ok pos'
    \<and> po_quantity pos' = po_quantity pos + t
    \<and> po_realized_pnl_ticks pos' = to_i64 (po_realized_pnl_ticks pos + to_i64 (closing_gain pos t p))
    \<and> (0 < po_quantity pos * t \<longrightarrow> min (po_average_entry_price_ticks pos) p \<le> po_average_entry_price_ticks pos'
         \<and> po_average_entry_price_ticks pos' \<le> max (po_average_entry_price_ticks pos) p)
    \<and> (\<forall>m u u'. gain_fits pos t p \<longrightarrow> pnl_fits m pos \<longrightarrow> pnl_fits m pos' \<longrightarrow> 0 < m \<longrightarrow> m \<le> INT64_MAX
         \<longrightarrow> unrealized_pnl_ticks m pos = Inr u \<longrightarrow> unrealized_pnl_ticks m pos' = Inr u' \<longrightarrow>
         (let change = (po_realized_pnl_ticks pos' + u') - (po_realized_pnl_ticks pos + u)
          in if 0 < po_quantity pos * t then \<bar>change - t * (m - p)\<bar> < \<bar>po_quantity pos'\<bar> else change = t * (m - p)))"
proof -
  obtain pos' where pos': "position_apply_trade t p pos = (Inr (), pos')" "position_ok pos'"
    "po_quantity pos' = po_quantity pos + t"
    "po_realized_pnl_ticks pos' = to_i64 (po_realized_pnl_ticks pos + to_i64 (closing_gain pos t p))"
    "0 < po_quantity pos * t \<longrightarrow> min (po_average_entry_price_ticks pos) p \<le> po_average_entry_price_ticks pos'
       \<and> po_average_entry_price_ticks pos' \<le> max (po_average_entry_price_ticks pos) p"
    and worth: "\<And>m. gain_fits pos t p \<Longrightarrow> if 0 < po_quantity pos * t
      then \<bar>equity m pos' - (equity m pos + t * (m - p))\<bar> < \<bar>po_quantity pos'\<bar>
      else equity m pos' = equity m pos + t * (m - p)"
    by (rule position_apply_trade_eq [OF assms]) blast
  have "let change = (po_realized_pnl_ticks pos' + u') - (po_realized_pnl_ticks pos + u)
      in if 0 < po_quantity pos * t then \<bar>change - t * (m - p)\<bar> < \<bar>po_quantity pos'\<bar> else change = t * (m - p)"
    if "gain_fits pos t p" "pnl_fits m pos" "pnl_fits m pos'" "0 < m" "m \<le> INT64_MAX"
      "unrealized_pnl_ticks m pos = Inr u" "unrealized_pnl_ticks m pos' = Inr u'" for m u u'
    using worth [OF that(1), of m] unrealized_equity [OF assms(1) that(4,5,2,6)] unrealized_equity [OF pos'(2) that(4,5,3,7)]
    by (simp add: Let_def algebra_simps split: if_splits)
  then show ?thesis using pos' by (intro exI [of _ pos']) blast
qed

theorem position_trade_accounting_witness:
  "\<exists>pos'. position_apply_trade (- 5) 110 \<lparr>po_symbol = ''S'', po_quantity = 3, po_average_entry_price_ticks = 100,
       po_realized_pnl_ticks = 0\<rparr> = (Inr (), pos') \<and> po_quantity pos' = - 2 \<and> po_realized_pnl_ticks pos' = 30"
proof -
  let ?p = "\<lparr>po_symbol = ''S'', po_quantity = 3, po_average_entry_price_ticks = 100, po_realized_pnl_ticks = 0\<rparr>"
  have "position_ok ?p" "trade_fits ?p (- 5) 110"
    by (simp_all add: position_ok_def trade_fits_def i64_def INT64_MIN_def INT64_MAX_def)
  moreover have "to_i64 (0 + to_i64 (closing_gain ?p (- 5) 110)) = 30" by code_simp
  ultimately show ?thesis using position_trade_accounting [of ?p "- 5" 110] by auto
qed

end
