(* ===== verification/Risk_Execution.thy ===== *)
theory Risk_Execution
  imports Positions Trade_Analytics Matching_Engine
begin

text \<open>
  Market orders under a position limit (\<open>include/risk_managed_execution.hpp\<close>): the validator is asked
  with the whole requested quantity, the engine executes, the trades go to the position and, if there
  is a handler, to the analytics, whose failures are caught and only clear a flag.
\<close>

record risk_managed =
  rx_engine :: matching_engine
  rx_limits :: risk_limits
  rx_positions :: position_manager
  rx_handler :: "analytics_handler option"
  rx_analytics_healthy :: bool

definition validate_quantity :: "int \<Rightarrow> unit result" where
  "validate_quantity quantity =
     (if quantity \<le> 0 then Inl (Invalid_argument ''Market order quantity must be positive'') else Inr ())"

definition apply_analytics ::
  "rounding_mode \<Rightarrow> rounding_mode \<Rightarrow> string \<Rightarrow> execution_result \<Rightarrow> risk_managed \<Rightarrow> risk_managed" where
  "apply_analytics ld dbl symbol res rx =
     (case rx_handler rx of
        None \<Rightarrow> rx
      | Some ah \<Rightarrow>
          if er_executed_quantity res = 0 then rx
          else case handler_apply_execution ld dbl symbol res ah of
                 (Inl err, ah1) \<Rightarrow> rx\<lparr>rx_handler := Some ah1, rx_analytics_healthy := False\<rparr>
               | (Inr _, ah1) \<Rightarrow> rx\<lparr>rx_handler := Some ah1\<rparr>)"

text \<open>
  The common text of \<open>execute_market_buy\<close> and \<open>execute_market_sell\<close>, which differ in the side, the sign
  of the quantity and the message.
\<close>

definition risk_execute ::
  "rounding_mode \<Rightarrow> rounding_mode \<Rightarrow> order_side \<Rightarrow> string \<Rightarrow> int \<Rightarrow> risk_managed
   \<Rightarrow> (execution_result, risk_managed) outcome" where
  "risk_execute ld dbl side symbol quantity rx =
     (case and_then (validate_quantity quantity) (\<lambda>_.
             validator_trade_allowed (rx_limits rx) (rx_positions rx) symbol
               (if side = Buy then quantity else to_i64 (- quantity))) of
        Inl err \<Rightarrow> (Inl err, rx)
      | Inr allowed \<Rightarrow>
          if \<not> allowed
          then (Inl (Runtime_error (if side = Buy then ''Market buy rejected by risk limits''
                                    else ''Market sell rejected by risk limits'')), rx)
          else
            (case (if side = Buy then execute_market_buy ld quantity (rx_engine rx)
                   else execute_market_sell ld quantity (rx_engine rx)) of
               (Inl err, e) \<Rightarrow> (Inl err, rx\<lparr>rx_engine := e\<rparr>)
             | (Inr res, e) \<Rightarrow>
                 (case position_apply_execution symbol res (rx_positions rx) of
                    (Inl err, pm) \<Rightarrow> (Inl err, rx\<lparr>rx_engine := e, rx_positions := pm\<rparr>)
                  | (Inr _, pm) \<Rightarrow>
                      (Inr res, apply_analytics ld dbl symbol res (rx\<lparr>rx_engine := e, rx_positions := pm\<rparr>)))))"

definition risk_market_buy ::
  "rounding_mode \<Rightarrow> rounding_mode \<Rightarrow> string \<Rightarrow> int \<Rightarrow> risk_managed \<Rightarrow> (execution_result, risk_managed) outcome" where
  "risk_market_buy ld dbl symbol quantity rx = risk_execute ld dbl Buy symbol quantity rx"

definition risk_market_sell ::
  "rounding_mode \<Rightarrow> rounding_mode \<Rightarrow> string \<Rightarrow> int \<Rightarrow> risk_managed \<Rightarrow> (execution_result, risk_managed) outcome" where
  "risk_market_sell ld dbl symbol quantity rx = risk_execute ld dbl Sell symbol quantity rx"

subsection \<open>What a market execution reports\<close>

text \<open>Whatever the engine's state: the reported trades are positive and add up.\<close>

definition result_ok :: "order_side \<Rightarrow> int \<Rightarrow> execution_result \<Rightarrow> bool" where
  "result_ok side q res \<longleftrightarrow> er_side res = side \<and> er_requested_quantity res = q
     \<and> (\<forall>t \<in> set (er_trades res). 0 < tr_quantity t \<and> 0 < tr_price_ticks t)
     \<and> sum_list (map tr_quantity (er_trades res)) = er_executed_quantity res
     \<and> er_executed_quantity res + er_remaining_quantity res = q \<and> 0 \<le> er_remaining_quantity res"

lemma result_ok_fill:
  assumes "result_ok side q res" "record_trade s p n b sl ts = (Inr t, ts')" "n \<le> er_remaining_quantity res"
  shows "result_ok side q (fill_result t n res)"
  using assms record_trade_ok(1,2,5,6) [OF assms(2)] by (auto simp: result_ok_def fill_result_def)

lemma market_level_step_result:
  assumes "market_level_step ld side res w e = (r, res', w', e')" "result_ok side q res"
  shows "result_ok side q res'"
  using assms result_ok_fill [OF assms(2)]
  by (auto simp: market_level_step_def on_trades_def Let_def split: list.splits sum.splits prod.splits if_splits)

lemma market_level_loop_result:
  "market_level_loop ld side res w e = (r, res', w', e') \<Longrightarrow> result_ok side q res \<Longrightarrow> result_ok side q res'"
proof (induction ld side res w e rule: market_level_loop.induct)
  case (1 ld side res w e)
  then show ?case
    by (subst (asm) (2) market_level_loop.simps)
      (auto split: if_splits prod.splits sum.splits dest: market_level_step_result)
qed

lemma market_order_step_result:
  assumes "market_order_step ld side res w ms e = (r, res', w', ms', e')" "result_ok side q res"
  shows "result_ok side q res'"
  using assms result_ok_fill [OF assms(2)]
  by (auto simp: market_order_step_def on_trades_def Let_def split: option.splits sum.splits prod.splits if_splits)

lemma market_order_loop_result:
  "market_order_loop ld side res w ms e = (r, res', w', ms', e') \<Longrightarrow> result_ok side q res \<Longrightarrow> result_ok side q res'"
proof (induction ld side res w ms e rule: market_order_loop.induct)
  case (1 ld side res w ms e)
  then show ?case
    by (subst (asm) (2) market_order_loop.simps)
      (auto split: if_splits prod.splits sum.splits dest: market_order_step_result)
qed

lemma execute_market_order_result:
  assumes "execute_market_order ld side q e = (Inr res, e')"
  shows "result_ok side q res"
proof -
  have q: "0 < q" using assms by (auto simp: execute_market_order_def validate_market_order_def require_positive_def split: if_splits)
  then have new: "result_ok side q (new_result side q)" by (simp add: result_ok_def new_result_def)
  have avg: "result_ok side q (average_result ld r w) = result_ok side q r" for r w
    by (simp add: result_ok_def average_result_def)
  from assms q show ?thesis
    using market_level_loop_result [OF _ new] market_order_loop_result [OF _ new]
    by (auto simp: execute_market_order_def Let_def seq_def market_rollback_def avg split: if_splits prod.splits sum.splits)
qed

subsection \<open>Properties\<close>

lemma apply_analytics_frame [simp]:
  "rx_engine (apply_analytics ld dbl symbol res rx) = rx_engine rx"
  "rx_positions (apply_analytics ld dbl symbol res rx) = rx_positions rx"
  "rx_limits (apply_analytics ld dbl symbol res rx) = rx_limits rx"
  by (auto simp: apply_analytics_def split: option.splits prod.splits sum.splits)

lemma validator_allowed_iff:
  "validator_trade_allowed limits pm symbol t = Inr b \<longleftrightarrow>
     symbol \<noteq> [] \<and> t \<noteq> 0 \<and> b = (\<bar>pm_quantity pm symbol + t\<bar> \<le> rl_max_absolute_position limits)"
  by (auto simp: validator_trade_allowed_def limits_trade_allowed_def has_position_def pm_position_def pm_quantity_def Let_def
      split: option.splits)

text \<open>The part of an execution after the risk check, on a side.\<close>

lemma risk_execute_cases:
  assumes "risk_execute ld dbl side symbol q rx = (r, rx')" "i64 q"
  obtains err where "r = Inl err" "rx' = rx"
  | err e where "r = Inl err" "rx' = rx\<lparr>rx_engine := e\<rparr>"
  | res e where "execute_market_order ld side q (rx_engine rx) = (Inr res, e)" "0 < q" "symbol \<noteq> []"
      "\<bar>pm_quantity (rx_positions rx) symbol + signed_quantity side q\<bar> \<le> rl_max_absolute_position (rx_limits rx)"
      "(case position_apply_execution symbol res (rx_positions rx) of
          (Inl err, pm) \<Rightarrow> (Inl err, rx\<lparr>rx_engine := e, rx_positions := pm\<rparr>)
        | (Inr _, pm) \<Rightarrow> (Inr res, apply_analytics ld dbl symbol res (rx\<lparr>rx_engine := e, rx_positions := pm\<rparr>))) = (r, rx')"
proof -
  have neg: "0 < q \<Longrightarrow> to_i64 (- q) = - q"
    using assms(2) by (intro to_i64_id) (simp add: i64_def INT64_MIN_def INT64_MAX_def)
  have sq: "0 < q \<Longrightarrow> (if side = Buy then q else to_i64 (- q)) = signed_quantity side q"
    by (cases side) (simp_all add: signed_quantity_def neg)
  have ex: "(if side = Buy then execute_market_buy ld q (rx_engine rx) else execute_market_sell ld q (rx_engine rx))
      = execute_market_order ld side q (rx_engine rx)"
    by (cases side) (simp_all add: execute_market_buy_def execute_market_sell_def)
  show ?thesis
  proof (cases "and_then (validate_quantity q) (\<lambda>_. validator_trade_allowed (rx_limits rx) (rx_positions rx) symbol
      (if side = Buy then q else to_i64 (- q)))")
    case (Inl err)
    then show ?thesis using assms(1) that(1) by (auto simp: risk_execute_def)
  next
    case (Inr allowed)
    then have q: "0 < q" by (auto simp: validate_quantity_def and_then_eq_Inr_iff split: if_splits)
    have v: "symbol \<noteq> []" "allowed = (\<bar>pm_quantity (rx_positions rx) symbol + signed_quantity side q\<bar> \<le> rl_max_absolute_position (rx_limits rx))"
      using Inr unfolding sq [OF q] by (auto simp: and_then_eq_Inr_iff validator_allowed_iff)
    show ?thesis
    proof (cases "execute_market_order ld side q (rx_engine rx)")
      case (Pair x e)
      then show ?thesis
        using assms(1) Inr v q that unfolding risk_execute_def ex by (cases x; cases allowed) auto
    qed
  qed
qed

text \<open>C19 A market order through the risk layer never takes a position over the limit: if the symbol's
  position is within the limit before the call it is within it afterwards, whether the order is
  executed, partly executed, rejected or fails; it moves by exactly the executed quantity, and no
  other symbol's position changes.\<close>
theorem risk_limit_respected:
  assumes "\<bar>pm_quantity (rx_positions rx) symbol\<bar> \<le> rl_max_absolute_position (rx_limits rx)"
    "rl_max_absolute_position (rx_limits rx) \<le> INT64_MAX" "i64 q"
    "risk_execute ld dbl side symbol q rx = (r, rx')"
  shows "\<bar>pm_quantity (rx_positions rx') symbol\<bar> \<le> rl_max_absolute_position (rx_limits rx')
    \<and> rx_limits rx' = rx_limits rx
    \<and> pm_quantity (rx_positions rx') = (pm_quantity (rx_positions rx))(symbol :=
        pm_quantity (rx_positions rx) symbol + (case r of Inl err \<Rightarrow> 0 | Inr res \<Rightarrow> signed_quantity side (er_executed_quantity res)))"
  using risk_execute_cases [OF assms(4,3)]
proof cases
  case (3 res e)
  note ok = execute_market_order_result [OF 3(1)]
  have S: "sum_list (map tr_quantity (er_trades res)) = er_executed_quantity res" "er_side res = side"
    "\<forall>t \<in> set (er_trades res). 0 < tr_quantity t \<and> 0 < tr_price_ticks t"
    "er_executed_quantity res \<le> q" using ok by (auto simp: result_ok_def)
  have nn: "0 \<le> er_executed_quantity res" unfolding S(1) [symmetric] using S(3) by (intro sum_list_nonneg) auto
  have within: "\<bar>pm_quantity (rx_positions rx) symbol + signed_quantity side (er_executed_quantity res)\<bar> \<le> rl_max_absolute_position (rx_limits rx)"
    using 3(4) assms(1) nn S(4) by (cases side) (simp_all add: signed_quantity_def)
  have "er_executed_quantity res \<le> INT64_MAX" using S(4) assms(3) by (simp add: i64_def)
  then obtain pm where pm: "apply_trades symbol side (er_trades res) (rx_positions rx) = (Inr (), pm)"
    "pm_quantity pm = (pm_quantity (rx_positions rx))(symbol := pm_quantity (rx_positions rx) symbol + signed_quantity side (er_executed_quantity res))"
    using apply_trades_move [OF 3(3) S(3), of "rx_positions rx" side] assms(1,2) within unfolding S(1) by (metis order_trans)
  have "r = Inr res" "rx_positions rx' = pm" "rx_limits rx' = rx_limits rx"
    using 3(5,3) pm(1) S(2) by (auto simp: position_apply_execution_def)
  then show ?thesis using pm(2) within by simp
qed (use assms(1) in simp_all)

definition risk_start :: risk_managed where
  "risk_start = \<lparr>rx_engine = new_engine 10 10 \<lparr>ob_bids = [], ob_asks = [\<lparr>pl_price_ticks = 100, pl_quantity = 3\<rparr>]\<rparr>,
     rx_limits = \<lparr>rl_max_absolute_position = 8\<rparr>, rx_positions = new_position_manager, rx_handler = None,
     rx_analytics_healthy = True\<rparr>"

theorem risk_limit_respected_witness:
  "pm_quantity (rx_positions (snd (risk_execute (\<lambda>x. x) (\<lambda>x. x) Buy ''S'' 5 risk_start))) ''S'' = 3
   \<and> fst (risk_execute (\<lambda>x. x) (\<lambda>x. x) Buy ''S'' 9 risk_start) = Inl (Runtime_error ''Market buy rejected by risk limits'')"
proof -
  let ?x = "risk_execute (\<lambda>x. x) (\<lambda>x. x) Buy ''S'' 5 risk_start"
  have f: "(case fst ?x of Inl err \<Rightarrow> 0 | Inr res \<Rightarrow> signed_quantity Buy (er_executed_quantity res)) = 3"
    "pm_quantity (rx_positions risk_start) ''S'' = 0" "rl_max_absolute_position (rx_limits risk_start) = 8"
    "fst (risk_execute (\<lambda>x. x) (\<lambda>x. x) Buy ''S'' 9 risk_start) = Inl (Runtime_error ''Market buy rejected by risk limits'')"
    by code_simp+
  have "pm_quantity (rx_positions (snd ?x)) = (pm_quantity (rx_positions risk_start))(''S'' :=
      pm_quantity (rx_positions risk_start) ''S'' + (case fst ?x of Inl err \<Rightarrow> 0 | Inr res \<Rightarrow> signed_quantity Buy (er_executed_quantity res)))"
    using risk_limit_respected [of risk_start "''S''" 5 "\<lambda>x. x" "\<lambda>x. x" Buy "fst ?x" "snd ?x"] f(2,3)
    by (simp add: INT64_MAX_def INT64_MIN_def i64_def)
  then show ?thesis using f by simp
qed

text \<open>Analytics cannot change trading: result, engine and positions of a risk-managed execution are the
  same whatever handler is attached, also one whose callback throws; the only other effects of a
  failing handler are on its own state and the health flag.\<close>
lemma analytics_do_not_interfere:
  assumes "risk_execute ld dbl side symbol q rx = (r, rx')"
    and "risk_execute ld dbl side symbol q (rx\<lparr>rx_handler := h, rx_analytics_healthy := b\<rparr>) = (r1, rx1)"
  shows "r1 = r \<and> rx_engine rx1 = rx_engine rx' \<and> rx_positions rx1 = rx_positions rx' \<and> rx_limits rx1 = rx_limits rx'"
  using assms by (auto simp: risk_execute_def split: sum.splits if_splits prod.splits)

end
