(* ===== verification/Analytics_Engine.thy ===== *)
theory Analytics_Engine
  imports Market_Depth Order_Flow Risk_Execution
begin

text \<open>
  The analytics engine (\<open>include/analytics_engine.hpp\<close>) and the two adapters that put analytics around
  the risk managed execution: \<open>include/market_impact_execution_adapter.hpp\<close> and
  \<open>include/analytics_engine_execution_adapter.hpp\<close>. The order book an adapter holds is the book of the
  matching engine its execution drives. \<open>capture_quote\<close> does not throw.
\<close>

subsection \<open>The analytics engine\<close>

text \<open>The VWAP and the statistics are those of the execution handler.\<close>

record analytics_engine =
  ae_handler :: analytics_handler
  ae_ofi :: order_flow_imbalance
  ae_depth_levels :: nat
  ae_depth_by_symbol :: "string \<rightharpoonup> depth_summary"
  ae_impact_by_symbol :: "string \<rightharpoonup> impact_summary"

record analytics_snapshot =
  as_rolling_vwap :: "rat option"
  as_trade_statistics :: "trade_statistics_snapshot option"
  as_latest_ofi :: "rat option"
  as_rolling_ofi :: "rat option"
  as_depth :: "depth_summary option"
  as_market_impact :: "impact_summary option"

definition new_analytics_engine ::
  "rolling_vwap \<Rightarrow> trade_statistics \<Rightarrow> order_flow_imbalance \<Rightarrow> nat \<Rightarrow> analytics_engine result" where
  "new_analytics_engine vwap statistics ofi depth_levels =
     (if depth_levels = 0 then Inl (Invalid_argument ''Analytics depth levels must be positive'')
      else Inr \<lparr>ae_handler = \<lparr>ah_vwap = vwap, ah_statistics = statistics, ah_before_apply = (\<lambda>_. None)\<rparr>,
                ae_ofi = ofi, ae_depth_levels = depth_levels, ae_depth_by_symbol = Map.empty,
                ae_impact_by_symbol = Map.empty\<rparr>)"

definition validate_symbol :: "string \<Rightarrow> unit result" where
  "validate_symbol symbol =
     (if symbol = [] then Inl (Invalid_argument ''Analytics symbol must not be empty'') else Inr ())"

definition record_execution ::
  "rounding_mode \<Rightarrow> rounding_mode \<Rightarrow> string \<Rightarrow> execution_result \<Rightarrow> analytics_engine \<Rightarrow> (unit, analytics_engine) outcome" where
  "record_execution ld dbl symbol execution ae =
     (case validate_symbol symbol of
        Inl err \<Rightarrow> (Inl err, ae)
      | Inr _ \<Rightarrow> (case handler_apply_execution ld dbl symbol execution (ae_handler ae) of
                    (r, ah) \<Rightarrow> (r, ae\<lparr>ae_handler := ah\<rparr>)))"

text \<open>What \<open>operator[]\<close> inserts for a new key: a value initialised summary.\<close>

definition zero_depth :: depth_summary where
  "zero_depth = \<lparr>ds_requested_levels = 0, ds_bid_levels = 0, ds_ask_levels = 0, ds_bid_depth = 0, ds_ask_depth = 0,
     ds_total_depth = 0, ds_imbalance = None, ds_bids = [], ds_asks = []\<rparr>"

definition prepare_depth :: "string \<Rightarrow> analytics_engine \<Rightarrow> analytics_engine" where
  "prepare_depth symbol ae =
     (case ae_depth_by_symbol ae symbol of
        None \<Rightarrow> ae\<lparr>ae_depth_by_symbol := (ae_depth_by_symbol ae)(symbol \<mapsto> zero_depth)\<rparr>
      | Some _ \<Rightarrow> ae)"

definition on_order_book_update ::
  "rounding_mode \<Rightarrow> string \<Rightarrow> order_book \<Rightarrow> analytics_engine \<Rightarrow> (unit, analytics_engine) outcome" where
  "on_order_book_update ld symbol book ae =
     (case and_then (validate_symbol symbol) (\<lambda>_. analyze_depth ld book (ae_depth_levels ae)) of
        Inl err \<Rightarrow> (Inl err, ae)
      | Inr depth \<Rightarrow>
          (let ae1 = prepare_depth symbol ae
           in case ofi_update ld symbol (book_snapshot book) (ae_ofi ae1) of
                (Inl err, fi) \<Rightarrow> (Inl err, ae1\<lparr>ae_ofi := fi\<rparr>)
              | (Inr _, fi) \<Rightarrow>
                  (Inr (), ae1\<lparr>ae_ofi := fi, ae_depth_by_symbol := (ae_depth_by_symbol ae1)(symbol \<mapsto> depth)\<rparr>)))"

definition record_market_impact ::
  "rounding_mode \<Rightarrow> string \<Rightarrow> execution_result \<Rightarrow> market_quote \<Rightarrow> market_quote \<Rightarrow> analytics_engine
   \<Rightarrow> (unit, analytics_engine) outcome" where
  "record_market_impact ld symbol execution before after ae =
     (case validate_symbol symbol of
        Inl err \<Rightarrow> (Inl err, ae)
      | Inr _ \<Rightarrow>
          if er_executed_quantity execution = 0 then (Inr (), ae)
          else (case analyze_impact ld execution before after of
                  Inl err \<Rightarrow> (Inl err, ae)
                | Inr impact \<Rightarrow>
                    (Inr (), ae\<lparr>ae_impact_by_symbol := (ae_impact_by_symbol ae)(symbol \<mapsto> impact)\<rparr>)))"

definition latest_depth :: "analytics_engine \<Rightarrow> string \<Rightarrow> depth_summary option" where
  "latest_depth ae symbol = ae_depth_by_symbol ae symbol"

definition latest_impact :: "analytics_engine \<Rightarrow> string \<Rightarrow> impact_summary option" where
  "latest_impact ae symbol = ae_impact_by_symbol ae symbol"

definition engine_snapshot ::
  "rounding_mode \<Rightarrow> rounding_mode \<Rightarrow> string \<Rightarrow> analytics_engine \<Rightarrow> analytics_snapshot result" where
  "engine_snapshot ld dbl symbol ae =
     and_then (validate_symbol symbol) (\<lambda>_.
       Inr \<lparr>as_rolling_vwap = get_vwap ld dbl (ah_vwap (ae_handler ae)) symbol,
            as_trade_statistics = get_statistics ld (ah_statistics (ae_handler ae)) symbol,
            as_latest_ofi = latest_ofi (ae_ofi ae) symbol, as_rolling_ofi = rolling_ofi (ae_ofi ae) symbol,
            as_depth = latest_depth ae symbol, as_market_impact = latest_impact ae symbol\<rparr>)"

subsection \<open>Execution with market impact\<close>

record impact_adapter =
  ia_execution :: risk_managed
  ia_impacts :: "string \<rightharpoonup> impact_summary"
  ia_analytics_healthy :: bool

definition record_impact ::
  "rounding_mode \<Rightarrow> string \<Rightarrow> execution_result \<Rightarrow> market_quote \<Rightarrow> market_quote \<Rightarrow> impact_adapter \<Rightarrow> impact_adapter" where
  "record_impact ld symbol res before after ia =
     (case analyze_impact ld res before after of
        Inl err \<Rightarrow> ia\<lparr>ia_analytics_healthy := False\<rparr>
      | Inr impact \<Rightarrow> ia\<lparr>ia_impacts := (ia_impacts ia)(symbol \<mapsto> impact)\<rparr>)"

definition ia_execute ::
  "rounding_mode \<Rightarrow> rounding_mode \<Rightarrow> string \<Rightarrow> int \<Rightarrow> order_side \<Rightarrow> impact_adapter
   \<Rightarrow> (execution_result, impact_adapter) outcome" where
  "ia_execute ld dbl symbol quantity side ia =
     (let before = capture_quote (me_book (rx_engine (ia_execution ia)))
      in case (if side = Buy then risk_market_buy ld dbl symbol quantity (ia_execution ia)
               else risk_market_sell ld dbl symbol quantity (ia_execution ia)) of
           (Inl err, rx) \<Rightarrow> (Inl err, ia\<lparr>ia_execution := rx\<rparr>)
         | (Inr res, rx) \<Rightarrow>
             if er_executed_quantity res = 0 then (Inr res, ia\<lparr>ia_execution := rx\<rparr>)
             else (Inr res, record_impact ld symbol res before (capture_quote (me_book (rx_engine rx)))
                              (ia\<lparr>ia_execution := rx\<rparr>)))"

definition ia_market_buy ::
  "rounding_mode \<Rightarrow> rounding_mode \<Rightarrow> string \<Rightarrow> int \<Rightarrow> impact_adapter \<Rightarrow> (execution_result, impact_adapter) outcome" where
  "ia_market_buy ld dbl symbol quantity = ia_execute ld dbl symbol quantity Buy"

definition ia_market_sell ::
  "rounding_mode \<Rightarrow> rounding_mode \<Rightarrow> string \<Rightarrow> int \<Rightarrow> impact_adapter \<Rightarrow> (execution_result, impact_adapter) outcome" where
  "ia_market_sell ld dbl symbol quantity = ia_execute ld dbl symbol quantity Sell"

definition ia_latest_impact :: "impact_adapter \<Rightarrow> string \<Rightarrow> impact_summary option" where
  "ia_latest_impact ia symbol = ia_impacts ia symbol"

subsection \<open>Execution with the analytics engine\<close>

text \<open>
  \<open>ea_shares_handler\<close> says that the execution was given the handler of this analytics engine, as its
  comment asks; the handler the execution updates is then the engine's own object.
\<close>

record engine_adapter =
  ea_execution :: risk_managed
  ea_analytics :: analytics_engine
  ea_shares_handler :: bool
  ea_analytics_healthy :: bool

definition ea_book :: "engine_adapter \<Rightarrow> order_book" where
  "ea_book ea = me_book (rx_engine (ea_execution ea))"

definition share_handler :: "engine_adapter \<Rightarrow> engine_adapter" where
  "share_handler ea =
     (case rx_handler (ea_execution ea) of
        Some ah \<Rightarrow> if ea_shares_handler ea then ea\<lparr>ea_analytics := (ea_analytics ea)\<lparr>ae_handler := ah\<rparr>\<rparr> else ea
      | None \<Rightarrow> ea)"

text \<open>A call of the analytics whose exceptions only clear the flag.\<close>

definition guarded :: "(analytics_engine \<Rightarrow> (unit, analytics_engine) outcome) \<Rightarrow> engine_adapter \<Rightarrow> engine_adapter" where
  "guarded f ea =
     (case f (ea_analytics ea) of
        (Inl err, ae) \<Rightarrow> ea\<lparr>ea_analytics := ae, ea_analytics_healthy := False\<rparr>
      | (Inr _, ae) \<Rightarrow> ea\<lparr>ea_analytics := ae\<rparr>)"

definition ea_on_order_book_update :: "rounding_mode \<Rightarrow> string \<Rightarrow> engine_adapter \<Rightarrow> engine_adapter" where
  "ea_on_order_book_update ld symbol ea = guarded (on_order_book_update ld symbol (ea_book ea)) ea"

definition ea_execute ::
  "rounding_mode \<Rightarrow> rounding_mode \<Rightarrow> string \<Rightarrow> int \<Rightarrow> order_side \<Rightarrow> engine_adapter
   \<Rightarrow> (execution_result, engine_adapter) outcome" where
  "ea_execute ld dbl symbol quantity side ea =
     (let before = capture_quote (ea_book ea)
      in case (if side = Buy then risk_market_buy ld dbl symbol quantity (ea_execution ea)
               else risk_market_sell ld dbl symbol quantity (ea_execution ea)) of
           (Inl err, rx) \<Rightarrow> (Inl err, share_handler (ea\<lparr>ea_execution := rx\<rparr>))
         | (Inr res, rx) \<Rightarrow>
             (let ea1 = share_handler (ea\<lparr>ea_execution := rx\<rparr>)
              in if er_executed_quantity res = 0 then (Inr res, ea1)
                 else (let after = capture_quote (ea_book ea1);
                           ea2 = ea_on_order_book_update ld symbol ea1
                       in (Inr res, guarded (record_market_impact ld symbol res before after) ea2))))"

definition ea_market_buy ::
  "rounding_mode \<Rightarrow> rounding_mode \<Rightarrow> string \<Rightarrow> int \<Rightarrow> engine_adapter \<Rightarrow> (execution_result, engine_adapter) outcome" where
  "ea_market_buy ld dbl symbol quantity = ea_execute ld dbl symbol quantity Buy"

definition ea_market_sell ::
  "rounding_mode \<Rightarrow> rounding_mode \<Rightarrow> string \<Rightarrow> int \<Rightarrow> engine_adapter \<Rightarrow> (execution_result, engine_adapter) outcome" where
  "ea_market_sell ld dbl symbol quantity = ea_execute ld dbl symbol quantity Sell"

definition ea_snapshot :: "rounding_mode \<Rightarrow> rounding_mode \<Rightarrow> string \<Rightarrow> engine_adapter \<Rightarrow> analytics_snapshot result" where
  "ea_snapshot ld dbl symbol ea = engine_snapshot ld dbl symbol (ea_analytics ea)"

subsection \<open>Lemmas\<close>

lemma impact_trades_ok:
  assumes "\<forall>t \<in> set ts. 0 < tr_quantity t \<and> 0 < tr_price_ticks t" "filled + sum_list (map tr_quantity ts) \<le> executed"
  shows "\<exists>n. impact_trades ld executed ts w filled = Inr (n, filled + sum_list (map tr_quantity ts))"
  using assms
proof (induction ts arbitrary: w filled)
  case (Cons t ts)
  have "0 \<le> sum_list (map tr_quantity ts)" using Cons.prems(1) by (intro sum_list_nonneg) auto
  then show ?case using Cons.prems Cons.IH [of "filled + tr_quantity t"] by (simp add: add.assoc)
qed simp

text \<open>The engine's results pass every check of the impact analysis.\<close>

lemma analyze_impact_ok:
  assumes "result_ok side q res"
  shows "\<exists>s. analyze_impact ld res before after = Inr s \<and> mi_side s = side
    \<and> mi_liquidity_consumed s = er_executed_quantity res \<and> mi_remaining_quantity s = q - er_executed_quantity res
    \<and> mi_fill_count s = length (er_trades res)"
proof -
  have res: "\<forall>t \<in> set (er_trades res). 0 < tr_quantity t \<and> 0 < tr_price_ticks t"
    "sum_list (map tr_quantity (er_trades res)) = er_executed_quantity res"
    "er_side res = side" "er_requested_quantity res = q"
    "er_executed_quantity res + er_remaining_quantity res = q" "0 \<le> er_remaining_quantity res"
    using assms by (simp_all add: result_ok_def)
  have "0 \<le> er_executed_quantity res" unfolding res(2) [symmetric] using res(1) by (intro sum_list_nonneg) auto
  then have v: "valid_quantities res" using res(4-6) by (auto simp: valid_quantities_def)
  obtain n where "impact_trades ld (er_executed_quantity res) (er_trades res) 0 0 = Inr (n, er_executed_quantity res)"
    using impact_trades_ok [OF res(1), of 0 "er_executed_quantity res" ld 0] res(2) by auto
  then show ?thesis
    using v res by (auto simp: analyze_impact_def Let_def unpriced_summary_def priced_summary_def)
qed

lemma risk_market_eq:
  "(if side = Buy then risk_market_buy ld dbl symbol q rx else risk_market_sell ld dbl symbol q rx) =
     risk_execute ld dbl side symbol q rx"
  by (cases side) (simp_all add: risk_market_buy_def risk_market_sell_def)

lemma risk_execute_result:
  assumes "risk_execute ld dbl side symbol q rx = (Inr res, rx')"
  shows "symbol \<noteq> [] \<and> result_ok side q res"
proof -
  have ex: "(if side = Buy then execute_market_buy ld q (rx_engine rx) else execute_market_sell ld q (rx_engine rx))
      = execute_market_order ld side q (rx_engine rx)"
    by (cases side) (simp_all add: execute_market_buy_def execute_market_sell_def)
  obtain e where "execute_market_order ld side q (rx_engine rx) = (Inr res, e)" "symbol \<noteq> []"
    using assms unfolding risk_execute_def ex
    by (auto simp: and_then_eq_Inr_iff validator_allowed_iff split: sum.splits prod.splits if_splits)
  then show ?thesis using execute_market_order_result by blast
qed

lemma share_handler_simps [simp]:
  "ea_execution (share_handler ea) = ea_execution ea"
  "ae_impact_by_symbol (ea_analytics (share_handler ea)) = ae_impact_by_symbol (ea_analytics ea)"
  by (auto simp: share_handler_def split: option.splits)

lemma guarded_execution [simp]: "ea_execution (guarded f ea) = ea_execution ea"
  by (simp add: guarded_def split: prod.splits sum.splits)

lemma on_order_book_update_impact [simp]:
  "ae_impact_by_symbol (snd (on_order_book_update ld symbol book ae)) = ae_impact_by_symbol ae"
  by (simp add: on_order_book_update_def prepare_depth_def Let_def split: sum.splits prod.splits option.splits)

lemma ea_update_impact [simp]:
  "ea_execution (ea_on_order_book_update ld symbol ea) = ea_execution ea"
  "ae_impact_by_symbol (ea_analytics (ea_on_order_book_update ld symbol ea)) = ae_impact_by_symbol (ea_analytics ea)"
proof -
  obtain r ae where u: "on_order_book_update ld symbol (ea_book ea) (ea_analytics ea) = (r, ae)" by fastforce
  have "ae_impact_by_symbol ae = ae_impact_by_symbol (ea_analytics ea)"
    using on_order_book_update_impact [of ld symbol "ea_book ea" "ea_analytics ea"] unfolding u by simp
  then show "ea_execution (ea_on_order_book_update ld symbol ea) = ea_execution ea"
    "ae_impact_by_symbol (ea_analytics (ea_on_order_book_update ld symbol ea)) = ae_impact_by_symbol (ea_analytics ea)"
    using u by (cases r; simp add: ea_on_order_book_update_def guarded_def)+
qed

text \<open>
  A first book update that the indicator refuses leaves a depth summary behind that no book has: the
  entry was made before the update and is not taken back.
\<close>

lemma failed_update_leaves_zero_depth:
  assumes "symbol \<noteq> []" "0 < ae_depth_levels ae" "latest_depth ae symbol = None"
    and "validate_snapshot symbol (book_snapshot book) = Inl err"
  shows "fst (on_order_book_update ld symbol book ae) = Inl err
    \<and> latest_depth (snd (on_order_book_update ld symbol book ae)) symbol = Some zero_depth"
  using assms
  by (simp add: on_order_book_update_def validate_symbol_def analyze_depth_def prepare_depth_def latest_depth_def
      ofi_update_def Let_def)

subsection \<open>Properties\<close>

text \<open>C31 Both adapters report and leave in the execution exactly what the risk layer reports and leaves,
  failures included. Every execution of a positive quantity is analysed without error, and the
  impact that is stored for its symbol describes it: side, consumed liquidity, rest and number of fills.\<close>
theorem adapters_record_impact:
  assumes "ea_execute ld dbl symbol q side ea = (r, ea')" "ia_execute ld dbl symbol q side ia = (r1, ia')"
    and "ia_execution ia = ea_execution ea"
  shows "risk_execute ld dbl side symbol q (ea_execution ea) = (r, ea_execution ea')
    \<and> r1 = r \<and> ia_execution ia' = ea_execution ea' \<and> ia_analytics_healthy ia' = ia_analytics_healthy ia
    \<and> (case r of
         Inl err \<Rightarrow> ia_impacts ia' = ia_impacts ia \<and> ae_impact_by_symbol (ea_analytics ea') = ae_impact_by_symbol (ea_analytics ea)
       | Inr res \<Rightarrow>
           if er_executed_quantity res = 0
           then ia_impacts ia' = ia_impacts ia \<and> ae_impact_by_symbol (ea_analytics ea') = ae_impact_by_symbol (ea_analytics ea)
           else \<exists>s. ia_latest_impact ia' symbol = Some s \<and> latest_impact (ea_analytics ea') symbol = Some s
             \<and> mi_side s = side \<and> mi_liquidity_consumed s = er_executed_quantity res
             \<and> mi_remaining_quantity s = q - er_executed_quantity res \<and> mi_fill_count s = length (er_trades res))"
proof -
  obtain r' rx where rx: "risk_execute ld dbl side symbol q (ea_execution ea) = (r', rx)" by fastforce
  show ?thesis
  proof (cases r')
    case (Inl err)
    then show ?thesis using assms rx by (auto simp: ea_execute_def ia_execute_def risk_market_eq Let_def)
  next
    case (Inr res)
    note ok = risk_execute_result [OF rx [unfolded Inr]]
    let ?b = "capture_quote (ea_book ea)" and ?a = "capture_quote (me_book (rx_engine rx))"
    obtain s where s: "analyze_impact ld res ?b ?a = Inr s" "mi_side s = side"
      "mi_liquidity_consumed s = er_executed_quantity res" "mi_remaining_quantity s = q - er_executed_quantity res"
      "mi_fill_count s = length (er_trades res)"
      using analyze_impact_ok ok by metis
    have ia: "r1 = Inr res" "ia' = (if er_executed_quantity res = 0 then ia\<lparr>ia_execution := rx\<rparr>
        else ia\<lparr>ia_execution := rx, ia_impacts := (ia_impacts ia)(symbol \<mapsto> s)\<rparr>)"
      using assms(2,3) rx Inr s(1) by (auto simp: ia_execute_def risk_market_eq Let_def record_impact_def ea_book_def split: if_splits)
    define ea1 where "ea1 = share_handler (ea\<lparr>ea_execution := rx\<rparr>)"
    have ea1: "ea_execution ea1 = rx" "ea_book ea1 = me_book (rx_engine rx)"
      "ae_impact_by_symbol (ea_analytics ea1) = ae_impact_by_symbol (ea_analytics ea)"
      by (simp_all add: ea1_def ea_book_def)
    have ea: "r = Inr res" "ea' = (if er_executed_quantity res = 0 then ea1
        else guarded (record_market_impact ld symbol res ?b ?a) (ea_on_order_book_update ld symbol ea1))"
      using assms(1) rx Inr ea1(2) by (auto simp: ea_execute_def risk_market_eq Let_def ea1_def split: if_splits)
    have "er_executed_quantity res \<noteq> 0 \<Longrightarrow> latest_impact (ea_analytics ea') symbol = Some s"
      using s(1) ok by (simp add: ea(2) guarded_def record_market_impact_def validate_symbol_def latest_impact_def)
    then show ?thesis
      using rx Inr ia ea ea1 s(2-5) assms(3) by (auto simp: ia_latest_impact_def)
  qed
qed

definition sample_analytics :: analytics_engine where
  "sample_analytics = \<lparr>ae_handler = \<lparr>ah_vwap = \<lparr>rv_window_size = 2, rv_symbols = Map.empty\<rparr>,
     ah_statistics = \<lparr>st_symbols = Map.empty\<rparr>, ah_before_apply = (\<lambda>_. None)\<rparr>,
     ae_ofi = \<lparr>fi_window_size = 2, fi_symbols = Map.empty\<rparr>, ae_depth_levels = 10,
     ae_depth_by_symbol = Map.empty, ae_impact_by_symbol = Map.empty\<rparr>"

theorem adapters_record_impact_witness:
  "\<exists>s. ia_latest_impact (snd (ia_execute (\<lambda>x. x) (\<lambda>x. x) ''S'' 5 Buy
        \<lparr>ia_execution = risk_start, ia_impacts = Map.empty, ia_analytics_healthy = True\<rparr>)) ''S'' = Some s
     \<and> mi_liquidity_consumed s = 3 \<and> mi_remaining_quantity s = 2"
proof -
  let ?ea = "\<lparr>ea_execution = risk_start, ea_analytics = sample_analytics, ea_shares_handler = False, ea_analytics_healthy = True\<rparr>"
    and ?ia = "\<lparr>ia_execution = risk_start, ia_impacts = Map.empty, ia_analytics_healthy = True\<rparr>"
  let ?x = "ea_execute (\<lambda>x. x) (\<lambda>x. x) ''S'' 5 Buy ?ea"
  have f: "case fst ?x of Inl _ \<Rightarrow> False | Inr res \<Rightarrow> er_executed_quantity res = 3" by code_simp
  then obtain res where res: "fst ?x = Inr res" "er_executed_quantity res = 3" by (auto split: sum.splits)
  let ?y = "ia_execute (\<lambda>x. x) (\<lambda>x. x) ''S'' 5 Buy ?ia"
  obtain ea' where x: "?x = (Inr res, ea')" using res(1) by (metis prod.collapse)
  obtain r1 ia' where y: "?y = (r1, ia')" by fastforce
  show ?thesis using adapters_record_impact [OF x y] res(2) unfolding y by auto
qed

end
