(* ===== verification/Spec2Isabelle.thy ===== *)
theory Spec2Isabelle
  imports Engine_Types Direct_Matching Concurrent_Order_Flow Command_Line Analytics_Engine
begin

text \<open>
  The trading core of \<^emph>\<open>cmarket\<close>: a limit order book, a price-time priority matching engine, its
  single-threaded and its concurrent front end, positions under a risk limit, the analytics that
  observe the executions, and the market data feed.

  \<^bold>\<open>The program and its theories.\<close>

  \<^item> \<open>Prelude\<close>: the result types (\<open>cpp_error\<close>, \<open>'a result\<close> for functions that may throw, \<open>outcome\<close> for
    operations that may throw and have changed the state by then), 64-bit arithmetic of C++
    (\<open>to_i64\<close>, \<open>cdiv\<close>, \<open>cmod\<close>), lemmas on lists and maps, and the locale \<open>machine\<close> of step relations
    and their runs, interpreted on the engine's threads, the order flow adapter, the feed's connection
    and its stream. \<open>Ordered_Containers\<close>: \<open>std::set\<close>/\<open>std::map\<close> as
    sorted lists over a strict order, with a locale for the order. \<open>Floating\<close>: \<open>double\<close> and
    \<open>long double\<close> as rationals with a rounding function after each operation, a parameter. Its laws are
    the locales \<open>rounding\<close> (monotone, exact on integers up to a bound) and \<open>binary_format\<close> (exact on the
    values of a binary format), interpreted on rounding to nearest at 53, 64 and 113 bits.
  \<^item> \<open>Order_Types\<close>: \<open>limit_order.hpp\<close>, \<open>execution.hpp\<close>, \<open>validation.hpp\<close>, \<open>order_id_generator.hpp\<close>.
  \<^item> \<open>Order_Book\<close>: \<open>order_book.cpp\<close>, bids and asks as sorted lists of levels; every update,
    normalisation and query. \<open>Fixed_Point\<close>: the decimal text of prices and quantities.
  \<^item> \<open>Order_Manager\<close>: \<open>order_manager.cpp\<close>, the order vector with swap-and-pop, the id index, the two
    priority sets, removals and their restoration. \<open>Trade_Store\<close>: \<open>trade_store.hpp\<close>.
  \<^item> \<open>Matching_Engine\<close>: \<open>matching_engine.cpp\<close>, all operations with their try blocks, journals and
    rollbacks. \<open>Engine_State\<close>, \<open>Engine_Fills\<close>, \<open>Engine_Runs\<close>, \<open>Limit_Orders\<close>, \<open>Placement\<close>,
    \<open>Market_Orders\<close> and \<open>Modify_Orders\<close> hold the invariant \<open>engine_inv\<close>, the abstract matching
    \<open>fill_queue\<close>/\<open>fill_levels\<close> and the refinement lemmas. \<open>Direct_Matching\<close>: the matching loop without a
    journal, declared by the engine and not called. \<open>Engine_Types\<close>: what is stored stays in \<open>int64_t\<close>.
  \<^item> \<open>Blocking_Queue\<close>, \<open>Concurrent_Engine\<close>: \<open>blocking_queue.hpp\<close>, \<open>engine_command.hpp\<close>,
    \<open>concurrent_matching_engine.cpp\<close>; clients, worker and shutdown as the step relation \<open>step\<close>.
  \<^item> \<open>Positions\<close>, \<open>Trade_Analytics\<close>, \<open>Risk_Execution\<close>, \<open>Order_Flow\<close>: the position, risk, VWAP, trade
    statistics and order flow headers with their adapters. \<open>Concurrent_Order_Flow\<close>: the order flow
    adapter over the concurrent engine, \<open>ofi_concurrent_matching_adapter.hpp\<close>.
  \<^item> \<open>Market_Depth\<close>, \<open>Analytics_Engine\<close>: the depth, weighted price, concentration and market impact
    headers, \<open>analytics_engine.hpp\<close> and the two execution adapters.
  \<^item> \<open>Market_Feed\<close>: the \<open>websocket_*.hpp\<close> headers and the event handlers of \<open>websocket_client.cpp\<close>, with
    the JSON library as the parameter \<open>json_lib\<close>. \<open>Feed_Connection\<close>: \<open>reconnect_backoff.hpp\<close>,
    \<open>heartbeat_state.hpp\<close> and the callbacks of \<open>stream_market\<close> as the step relation \<open>conn_step\<close>.
    \<open>Market_Stream\<close>: the loop of \<open>stream_market\<close> with its signal handlers, \<open>stream_step\<close>. \<open>Command_Line\<close>:
    \<open>http_client.cpp\<close> and \<open>main.cpp\<close>.

  The engine calls the order manager, the trade store and the book; the concurrent engine owns an
  engine behind a queue; the risk layer calls the engine and then the positions and the analytics;
  the observers capture the engine's book; the feed keeps books of its own, one per token. This
  theory imports all of them and holds the properties of the engine and of the concurrent engine,
  and the one that spans engine and order flow observer.

  \<^bold>\<open>State and operations.\<close> A class is a record of its fields, a method a function on the record. A
  method that may throw returns \<open>Inl\<close> of the exception together with the state it leaves. Loops are
  recursive functions with a termination proof, and one, \<open>match_limit_order\<close>, which has no bound of
  its own, a partial function proved to end; no definition takes fuel. Map iterators, references
  and optional pointers are keys and options.

  \<^bold>\<open>What the lemmas show.\<close> For the engine: an accepted limit order refines abstract price-time
  matching and keeps the invariant (book totals, order indexes and queues agree, no crossed orders),
  a refused one leaves no trace, and an order is accepted whenever counters and containers have
  room; market orders fill the queue or the external levels, with an average price between the
  extremes; cancellation and modification do what they promise. One proved exception to the
  engine's exception safety is stated too: a market order that fails while it records a trade
  leaves the book larger than the orders. For the concurrent engine: every run is a serial
  execution of the accepted commands in the order of acceptance, shutdown terminates with every
  promise fulfilled, later calls are refused, and the invariant holds throughout. For the parts:
  normal forms and bounds of the book, round trips of numerals, checkpoints and removals, priority of
  the best order, profit accounting, the position limit, and that rolling indicators equal the sums
  over their windows as long as the sums fit the precision of the rounding; two lemmas show what
  happens otherwise, \<open>vwap_loses_trades\<close> for the rolling average and \<open>realized_pnl_wraps\<close> for the profit.
  For the feed: a book event replaces the token's book, a price change sets one price, no message ends
  the reading or damages a book, silence is noticed, and a signal, and nothing else, ends the
  stream. For the program: the exit status says whether the command did its work. The order flow
  adapter over the concurrent engine is linearised to the sequential one.

  \<^bold>\<open>Bounds.\<close> Ids, sequence numbers and trade ids are 64-bit words. Prices and quantities are integers;
  where the code computes in 64 bits without a check the model wraps (\<open>to_i64\<close>), where it widens to
  128 bits the model is exact. The vector of active orders and that of the trades have a maximal
  size, a state component, so that \<open>push_back\<close> on them can throw \<open>length_error\<close>.

  \<^bold>\<open>Not modelled.\<close> Other allocation failures: the level vectors of the book, the journals, the trades of a
  result and the nodes of sets, maps and queues can always grow; locking inside
  an operation (\<open>shared_mutex\<close> and \<open>mutex\<close> make each operation one atomic step); infinities and
  exponent limits of floating point beyond the explicit checks for finiteness;
  the network and the JSON library, parameters of the definitions that use them: a callback cancels
  what is outstanding, and the network decides when that completes. A \<open>std::function\<close> callback of the
  analytics handlers is the sequence of what its calls do, return or throw.
\<close>

section \<open>Shared notions of the engine properties\<close>

definition incoming_order :: "order_side \<Rightarrow> int \<Rightarrow> int \<Rightarrow> matching_engine \<Rightarrow> limit_order" where
  "incoming_order side p q e = \<lparr>lo_order_id = next_order_id (me_ids e), lo_side = side, lo_price_ticks = p,
     lo_original_quantity = q, lo_remaining_quantity = q, lo_sequence_number = me_next_sequence e\<rparr>"

definition book_shows_orders :: "matching_engine \<Rightarrow> bool" where
  "book_shows_orders e \<longleftrightarrow>
     (\<forall>side p. book_qty (me_book e) side p = resting_in (active_limit_orders e) side p)"

lemma incoming_order_simps [simp]:
  "lo_order_id (incoming_order side p q e) = next_order_id (me_ids e)" "lo_side (incoming_order side p q e) = side"
  "lo_price_ticks (incoming_order side p q e) = p" "lo_remaining_quantity (incoming_order side p q e) = q"
  by (simp_all add: incoming_order_def)

lemma engine_inv_uncrossed:
  assumes e: "engine_inv e" and ne: "active_limit_orders e \<noteq> []"
    and b: "best_bid (me_book e) = Some b" and a: "best_ask (me_book e) = Some a"
  shows "pl_price_ticks b < pl_price_ticks a"
proof -
  have s: "synced e" using e ne by (simp add: engine_inv_def active_limit_orders_def)
  have "b \<in> set (side_levels Buy (me_book e))" "a \<in> set (side_levels Sell (me_book e))"
    using a b by (auto simp: best_bid_def best_ask_def side_levels_def split: list.splits)
  then obtain x y where "x \<in> set (om_orders (me_orders e))" "lo_side x = Buy" "lo_price_ticks x = pl_price_ticks b"
    "y \<in> set (om_orders (me_orders e))" "lo_side y = Sell" "lo_price_ticks y = pl_price_ticks a"
    using level_has_order [OF s] by metis
  then show ?thesis using e unfolding engine_inv_def uncrossed_def by metis
qed

section \<open>Witness states\<close>

lemma one_ask_place:
  "fst (place_limit_order Buy 102 8 (engine_one_ask 10)) = Inr 2"
  by code_simp

section \<open>Placing limit orders\<close>

text \<open>C1 A limit order that is accepted gets the next order id, eats the opposite queue in price-time
  priority as far as its limit allows (\<open>fill_queue\<close>), records one trade per fill at the resting
  order's price, and rests with its remaining quantity at its place in its own queue; the
  engine invariant holds afterwards.\<close>
theorem place_refines_matching:
  assumes "engine_inv e" "i64 p" "i64 q" "place_limit_order side p q e = (Inr i, e')"
    and "fill_queue (limit_accepts side p) q (queue (opposite side) (me_orders e)) = (n, rest, fills)"
  shows "i = next_order_id (me_ids e) \<and> engine_inv e' \<and> book_shows_orders e'
    \<and> queue (opposite side) (me_orders e') = rest
    \<and> queue side (me_orders e') = own_after (incoming_order side p q e) n (queue side (me_orders e))
    \<and> (\<exists>new. trade_history e' = trade_history e @ new \<and> list_all2 (trade_of side (Some i)) fills new)
    \<and> q = n + sum_list (map snd fills) \<and> 0 \<le> n"
proof -
  note pl = place_limit_order_placed [OF assms(1-4)]
  let ?inc = "incoming_order side p q e"
  let ?c = "(place_start e)\<lparr>me_ids := \<lparr>next_order_id = i + 1\<rparr>, me_next_sequence := me_next_sequence e + 1\<rparr>"
  note start = place_start_synced [OF assms(1)]
  have c: "synced ?c" using start by simp
  have inc: "limit_order_ok ?inc" using pl(3,4) assms(2,3) by (simp add: limit_order_ok_def i64_def incoming_order_def)
  have placed: "placed ?inc ?c e'" using pl(1,5) by (simp add: incoming_order_def)
  obtain n' rest' fills' new where r: "fill_queue (limit_accepts side p) q (queue (opposite side) (me_orders ?c)) = (n', rest', fills')"
    "queue (opposite side) (me_orders e') = rest'"
    "queue side (me_orders e') = own_after ?inc n' (queue side (me_orders ?c))"
    "ts_trades (me_trades e') = ts_trades (me_trades ?c) @ new"
    "list_all2 (trade_of side (Some (next_order_id (me_ids e)))) fills' new" "synced e'"
    using placed_result [OF c inc placed] by (metis incoming_order_simps)
  have eq: "n' = n" "rest' = rest" "fills' = fills" using r(1) assms(5) start(2) by auto
  have ok: "\<forall>x \<in> set (queue (opposite side) (me_orders e)). order_ok x"
    using assms(1) queue_mem [of "me_orders e"] by (auto simp: engine_inv_def orders_ok_def)
  have "0 \<le> q" using pl(4) by simp
  from fill_queue_total(1,2) [OF ok this assms(5)] r eq pl(1) place_limit_order_inv [OF assms(1-4)] start(2,5)
  show ?thesis by (auto simp: trade_history_def book_shows_orders_def active_limit_orders_def synced_def)
qed

theorem place_refines_matching_witness:
  "\<exists>e'. place_limit_order Buy 102 8 (engine_one_ask 10) = (Inr 2, e')
     \<and> queue Sell (me_orders e') = []
     \<and> queue Buy (me_orders e') = [\<lparr>lo_order_id = 2, lo_side = Buy, lo_price_ticks = 102,
          lo_original_quantity = 8, lo_remaining_quantity = 3, lo_sequence_number = 2\<rparr>]"
proof -
  let ?e = "engine_one_ask 10"
  obtain e' where e': "place_limit_order Buy 102 8 ?e = (Inr 2, e')"
    by (metis prod.collapse one_ask_place)
  have fq: "fill_queue (limit_accepts Buy 102) 8 (queue (opposite Buy) (me_orders ?e)) =
      (3, [], [(\<lparr>lo_order_id = 1, lo_side = Sell, lo_price_ticks = 101,
         lo_original_quantity = 5, lo_remaining_quantity = 5, lo_sequence_number = 1\<rparr>, 5)])"
    by code_simp
  have own: "own_after (incoming_order Buy 102 8 ?e) 3 (queue Buy (me_orders ?e)) =
      [\<lparr>lo_order_id = 2, lo_side = Buy, lo_price_ticks = 102,
          lo_original_quantity = 8, lo_remaining_quantity = 3, lo_sequence_number = 2\<rparr>]"
    by code_simp
  show ?thesis
    using place_refines_matching [OF one_ask_inv _ _ e' fq] e' own by (auto simp: i64_def INT64_MIN_def INT64_MAX_def)
qed

text \<open>C2 A limit order that is refused, for whatever reason (arguments, exhausted ids, a full order or
  trade vector, a level overflow), leaves the engine exactly as it was: book, orders with their
  indexes and vector order, trades, id and sequence counters.\<close>
theorem place_exception_safe:
  assumes "engine_inv e" "i64 q" "place_limit_order side p q e = (Inl err, e')"
  shows "e' = e"
  by (rule place_limit_order_fails [OF assms])

theorem place_exception_safe_witness:
  "snd (place_limit_order Buy 102 8 (engine_one_ask 0)) = engine_one_ask 0
     \<and> fst (place_limit_order Buy 102 8 (engine_one_ask 0)) = Inl Length_error"
proof -
  have f: "fst (place_limit_order Buy 102 8 (engine_one_ask 0)) = Inl Length_error" by code_simp
  then obtain e' where "place_limit_order Buy 102 8 (engine_one_ask 0) = (Inl Length_error, e')"
    by (metis prod.collapse)
  from place_exception_safe [OF one_ask_inv _ this] this f show ?thesis
    by (simp add: i64_def INT64_MIN_def INT64_MAX_def)
qed

text \<open>C12 A limit order is accepted whenever the id generator is not exhausted, the trade store has room
  for its fills and, if a part of it has to rest, the sequence counter has not wrapped to zero, the
  order vector has room and its price level does not overflow.\<close>
theorem place_accepted:
  assumes "engine_inv e" "0 < p" "p \<le> INT64_MAX" "0 < q" "q \<le> INT64_MAX"
    and "next_order_id (me_ids e) \<noteq> UINT64_MAX" "can_place (incoming_order side p q e) (place_start e)"
  shows "\<exists>e'. place_limit_order side p q e = (Inr (next_order_id (me_ids e)), e')"
  using place_limit_order_total [OF assms(1-6)] assms(7) by (simp add: incoming_order_def)

theorem place_accepted_witness:
  "\<exists>e'. place_limit_order Buy 102 8 (engine_one_ask 10) = (Inr (next_order_id (me_ids (engine_one_ask 10))), e')"
proof -
  have "next_order_id (me_ids (engine_one_ask 10)) \<noteq> UINT64_MAX"
    "can_place (incoming_order Buy 102 8 (engine_one_ask 10)) (place_start (engine_one_ask 10))"
    by code_simp+
  then show ?thesis using place_accepted [OF one_ask_inv, of 102 8 10 Buy] by (simp add: INT64_MAX_def)
qed

section \<open>Market orders\<close>

text \<open>C4 A market order against active orders eats the opposite queue in price-time priority without a
  price limit until it is filled or the queue is empty. The result lists the recorded trades and
  adds up (executed plus remaining is the requested quantity), the own side is untouched and the
  invariant is kept. The trade store must have room for the fills.\<close>
theorem market_order_executes:
  assumes "engine_inv e" "active_limit_orders e \<noteq> []" "0 < q"
    and "fill_queue (\<lambda>_. True) q (queue (opposite side) (me_orders e)) = (n, rest, fills)"
    and "length (trade_history e) + length fills \<le> ts_max_size (me_trades e)"
  shows "\<exists>ts e'. execute_market_order ld side q e =
       (Inr \<lparr>er_side = side, er_requested_quantity = q, er_executed_quantity = sum_list (map snd fills),
             er_remaining_quantity = n, er_average_price_ticks = average_price ld fills, er_trades = ts\<rparr>, e')
    \<and> sum_list (map snd fills) + n = q \<and> (n = 0 \<or> rest = [])
    \<and> engine_inv e' \<and> book_shows_orders e' \<and> queue (opposite side) (me_orders e') = rest
    \<and> queue side (me_orders e') = queue side (me_orders e)
    \<and> trade_history e' = trade_history e @ ts \<and> list_all2 (trade_of side None) fills ts"
proof -
  have s: "synced e" using assms(1,2) by (simp add: engine_inv_def active_limit_orders_def)
  have ok: "\<forall>x \<in> set (queue (opposite side) (me_orders e)). order_ok x"
    using syncedD(2) [OF s] queue_mem [OF syncedD(1) [OF s]] by blast
  have "0 \<le> q" using assms(3) by simp
  note tot = fill_queue_total(2,6) [OF ok this assms(4)]
  show ?thesis
    using market_order_ok [OF assms(1) _ assms(3,4), of ld] assms(2,5) tot
    by (auto simp: active_limit_orders_def trade_history_def book_shows_orders_def synced_def)
qed

theorem market_order_executes_witness:
  "\<exists>ts e'. execute_market_order (\<lambda>x. x) Buy 8 (engine_one_ask 10) =
       (Inr \<lparr>er_side = Buy, er_requested_quantity = 8, er_executed_quantity = 5,
             er_remaining_quantity = 3, er_average_price_ticks = Some 101, er_trades = ts\<rparr>, e')
    \<and> queue Sell (me_orders e') = [] \<and> length ts = 1"
proof -
  let ?f = "[(\<lparr>lo_order_id = 1, lo_side = Sell, lo_price_ticks = 101,
         lo_original_quantity = 5, lo_remaining_quantity = 5, lo_sequence_number = 1\<rparr>, 5)]"
  have fq: "fill_queue (\<lambda>_. True) 8 (queue (opposite Buy) (me_orders (engine_one_ask 10))) = (3, [], ?f)"
    by code_simp
  have av: "average_price (\<lambda>x. x) ?f = Some 101" by code_simp
  have pre: "active_limit_orders (engine_one_ask 10) \<noteq> []"
    "length (trade_history (engine_one_ask 10)) + length ?f \<le> ts_max_size (me_trades (engine_one_ask 10))"
    by code_simp+
  show ?thesis
    using market_order_executes [OF one_ask_inv pre(1) _ fq pre(2), of "\<lambda>x. x"] av list_all2_lengthD by fastforce
qed

text \<open>C15 With no active orders a market order eats the levels of the external book from the best one on, and
  reports their rounded weighted total over the executed quantity as the average. The touched levels
  must have a positive price, as a trade needs one, and the trade store must have room for the trades
  (the vector behind it has a maximal size).\<close>
theorem market_levels_execute:
  assumes "engine_inv e" "active_limit_orders e = []" "0 < q"
    and "fill_levels q (side_levels (opposite side) (me_book e)) = (n, rest, fills)"
    and "\<forall>f \<in> set fills. 0 < fst f" "length (trade_history e) + length fills \<le> ts_max_size (me_trades e)"
  shows "\<exists>ts e'. execute_market_order ld side q e =
       (Inr \<lparr>er_side = side, er_requested_quantity = q, er_executed_quantity = sum_list (map snd fills),
             er_remaining_quantity = n,
             er_average_price_ticks = (if fills = [] then None else
               Some (trunc (ld (level_total ld 0 fills / ld (of_int (sum_list (map snd fills))))))),
             er_trades = ts\<rparr>, e')
    \<and> sum_list (map snd fills) + n = q \<and> (n = 0 \<or> rest = []) \<and> engine_inv e'
    \<and> side_levels (opposite side) (me_book e') = rest
    \<and> side_levels side (me_book e') = side_levels side (me_book e)
    \<and> trade_history e' = trade_history e @ ts \<and> list_all2 (level_trade side) fills ts"
proof -
  have "\<exists>before. levels_ok before (side_levels (opposite side) (me_book e))"
    using assms(1) by (cases side) (auto simp: engine_inv_def book_ok_def side_levels_def)
  then have "q = n + sum_list (map snd fills)" "n = 0 \<or> rest = []"
    using fill_levels_total [OF _ _ assms(4)] assms(3) by force+
  then show ?thesis
    using market_levels_ok [OF assms(1) _ assms(3-5), of ld] assms(2,6)
    by (fastforce simp: active_limit_orders_def trade_history_def)
qed

definition two_ask_levels :: order_book where
  "two_ask_levels = \<lparr>ob_bids = [], ob_asks = [\<lparr>pl_price_ticks = 100, pl_quantity = 3\<rparr>,
     \<lparr>pl_price_ticks = 102, pl_quantity = 4\<rparr>]\<rparr>"

theorem market_levels_execute_witness:
  "\<exists>ts e'. execute_market_order (\<lambda>x. x) Buy 5 (new_engine 10 10 two_ask_levels) =
       (Inr \<lparr>er_side = Buy, er_requested_quantity = 5, er_executed_quantity = 5,
             er_remaining_quantity = 0, er_average_price_ticks = Some 100, er_trades = ts\<rparr>, e')
    \<and> side_levels Sell (me_book e') = [\<lparr>pl_price_ticks = 102, pl_quantity = 2\<rparr>]"
proof -
  let ?e = "new_engine 10 10 two_ask_levels" and ?f = "[(100, 3), (102, 2)] :: (int \<times> int) list"
  have inv: "engine_inv ?e"
    by (rule engine_inv_new) (simp add: two_ask_levels_def book_ok_def levels_ok_def INT64_MAX_def)
  have fl: "fill_levels 5 (side_levels (opposite Buy) (me_book ?e)) = (0, [\<lparr>pl_price_ticks = 102, pl_quantity = 2\<rparr>], ?f)"
    "active_limit_orders ?e = []" "length (trade_history ?e) + length ?f \<le> ts_max_size (me_trades ?e)"
    by code_simp+
  have "level_total (\<lambda>x. x) 0 ?f / of_int (sum_list (map snd ?f)) = 504 / 5" "trunc (504 / 5) = 100" by code_simp+
  then show ?thesis using market_levels_execute [OF inv fl(2) _ fl(1) _ fl(3), of "\<lambda>x. x"] by auto
qed

text \<open>A market order that throws with no active orders leaves the engine exactly as it was.\<close>
lemma market_levels_exception_safe:
  assumes "active_limit_orders e = []" "execute_market_order ld side q e = (Inl err, e')"
  shows "e' = e"
  using market_no_orders_fails assms by (simp add: active_limit_orders_def)

text \<open>C16 A market order reports an average price exactly when it traded, against active orders or against the
  levels of the external book alike: the quotient of the notional and the quantity of the trades it
  reports, rounded once to \<open>long double\<close> and cut off. It lies between the lowest and the highest traded
  price. This holds for every rounding of \<open>long double\<close> that is monotone and exact on the integers up to
  a bound, as long as the traded notional stays within that bound.\<close>
theorem market_average_between:
  assumes "rounding ld bound" "execute_market_order ld side q e = (Inr res, e')"
    and "sum_list (map (\<lambda>t. tr_price_ticks t * tr_quantity t) (er_trades res)) \<le> bound"
  shows "er_average_price_ticks res = (if er_trades res = [] then None else
      Some (trunc (ld (of_int (sum_list (map (\<lambda>t. tr_price_ticks t * tr_quantity t) (er_trades res)))
        / of_int (sum_list (map tr_quantity (er_trades res)))))))
    \<and> (\<forall>a. er_average_price_ticks res = Some a \<longrightarrow>
         Min (tr_price_ticks ` set (er_trades res)) \<le> a \<and> a \<le> Max (tr_price_ticks ` set (er_trades res)))"
  using market_average [OF assms] by blast

theorem market_average_between_witness:
  "\<exists>res. fst (execute_market_order (\<lambda>x. x) Buy 5 (new_engine 10 10 two_ask_levels)) = Inr res
     \<and> length (er_trades res) = 2 \<and> er_average_price_ticks res = Some 100"
proof -
  define r where "r = execute_market_order (\<lambda>x. x) Buy 5 (new_engine 10 10 two_ask_levels)"
  have f: "case fst r of Inl _ \<Rightarrow> False | Inr res \<Rightarrow> length (er_trades res) = 2
      \<and> sum_list (map (\<lambda>t. tr_price_ticks t * tr_quantity t) (er_trades res)) = 504
      \<and> sum_list (map tr_quantity (er_trades res)) = 5" "trunc (504 / 5) = 100"
    unfolding r_def by code_simp+
  obtain res e' where r: "r = (Inr res, e')" using f by (cases r) (auto split: sum.splits)
  have v: "length (er_trades res) = 2" "sum_list (map (\<lambda>t. tr_price_ticks t * tr_quantity t) (er_trades res)) = 504"
    "sum_list (map tr_quantity (er_trades res)) = 5" using f(1) r by simp_all
  have "sum_list (map (\<lambda>t. tr_price_ticks t * tr_quantity t) (er_trades res)) \<le> INT64_MAX" using v(2) by (simp add: INT64_MAX_def)
  from market_average_between [OF exact.rounding_axioms r [unfolded r_def] this] v f(2) r show ?thesis
    unfolding r_def [symmetric] by (auto split: if_splits)
qed

text \<open>C18 The rollback of a market order against active orders is wrong when recording a trade throws: the
  journal entry of that trade is undone although its quantity had not been taken from the book, so
  the book shows more than the orders that rest there, and the invariant is broken.\<close>
theorem market_rollback_inflates_book:
  assumes "engine_inv e" "0 < q" "q \<le> INT64_MAX" "length (trade_history e) \<ge> ts_max_size (me_trades e)"
    and "queue (opposite side) (me_orders e) = x # xs"
    and "book_qty (me_book e) (opposite side) (lo_price_ticks x) + min q (lo_remaining_quantity x) \<le> INT64_MAX"
    and "execute_market_order ld side q e = (r, e')"
  shows "r = Inl Length_error \<and> active_limit_orders e' = active_limit_orders e \<and> \<not> engine_inv e'
    \<and> book_qty (me_book e') (opposite side) (lo_price_ticks x) =
        book_qty (me_book e) (opposite side) (lo_price_ticks x) + min q (lo_remaining_quantity x)"
proof -
  have "store_full e" using assms(4) by (simp add: store_full_def trade_history_def)
  from market_rollback_breaks_inv [OF assms(1) this assms(2,3,5-7)] show ?thesis
    by (simp add: active_limit_orders_def)
qed

theorem market_rollback_inflates_book_witness:
  "book_qty (me_book (engine_one_ask 0)) Sell 101 = 5
   \<and> fst (execute_market_order (\<lambda>x. x) Buy 3 (engine_one_ask 0)) = Inl Length_error
   \<and> book_qty (me_book (snd (execute_market_order (\<lambda>x. x) Buy 3 (engine_one_ask 0)))) Sell 101 = 8"
proof -
  let ?e = "engine_one_ask 0" and ?x = "\<lparr>lo_order_id = 1, lo_side = Sell, lo_price_ticks = 101,
         lo_original_quantity = 5, lo_remaining_quantity = 5, lo_sequence_number = 1\<rparr>"
  have b: "book_qty (me_book ?e) Sell 101 = 5" by code_simp
  have q: "queue (opposite Buy) (me_orders ?e) = [?x]"
    "length (trade_history ?e) \<ge> ts_max_size (me_trades ?e)" by code_simp+
  obtain r e' where ex: "execute_market_order (\<lambda>x. x) Buy 3 ?e = (r, e')" by fastforce
  have "r = Inl Length_error \<and> book_qty (me_book e') Sell 101 = 8"
    using market_rollback_inflates_book [OF one_ask_inv _ _ q(2,1) _ ex] b by (simp add: INT64_MAX_def)
  then show ?thesis using b ex by simp
qed

section \<open>Cancelling and modifying\<close>

text \<open>C17 Cancelling an active order succeeds, takes exactly that order out of its queue and its quantity
  out of the book, and changes nothing else; an unknown id is reported and changes nothing.\<close>
theorem cancel_removes_order:
  assumes "engine_inv e"
  shows "case om_find_order (me_orders e) k of
      None \<Rightarrow> cancel_order k e = (Inr False, e)
    | Some x \<Rightarrow> \<exists>e'. cancel_order k e = (Inr True, e') \<and> engine_inv e' \<and> book_shows_orders e'
        \<and> (\<forall>side. queue side (me_orders e') = filter (\<lambda>y. y \<noteq> x) (queue side (me_orders e)))
        \<and> trade_history e' = trade_history e \<and> me_ids e' = me_ids e \<and> me_next_sequence e' = me_next_sequence e"
proof (cases "om_find_order (me_orders e) k")
  case None
  then show ?thesis by (simp add: cancel_order_unknown)
next
  case (Some x)
  have wf: "om_wf (me_orders e)" using assms by (simp add: engine_inv_def orders_ok_def)
  obtain e' i where c: "cancel_order k e = (Inr True, e')" "engine_inv e'" "synced e'"
    "i < length (om_orders (me_orders e))" "om_orders (me_orders e) ! i = x"
    "om_orders (me_orders e') = swap_remove i (om_orders (me_orders e))"
    "me_ids e' = me_ids e" "me_next_sequence e' = me_next_sequence e" "me_trades e' = me_trades e"
    using cancel_order_known [OF assms Some] by metis
  have "queue side (me_orders e') = filter (\<lambda>y. y \<noteq> x) (queue side (me_orders e))" for side
    by (rule queue_remove [OF wf syncedD(1) [OF c(3)] c(4-6)])
  then show ?thesis using Some c
    by (auto simp: book_shows_orders_def active_limit_orders_def trade_history_def synced_def)
qed

theorem cancel_removes_order_witness:
  "\<exists>e'. cancel_order 1 (engine_one_ask 10) = (Inr True, e') \<and> queue Sell (me_orders e') = []
     \<and> engine_inv e' \<and> cancel_order 7 (engine_one_ask 10) = (Inr False, engine_one_ask 10)"
proof -
  let ?x = "\<lparr>lo_order_id = 1, lo_side = Sell, lo_price_ticks = 101,
         lo_original_quantity = 5, lo_remaining_quantity = 5, lo_sequence_number = 1\<rparr>"
  have f: "om_find_order (me_orders (engine_one_ask 10)) 1 = Some ?x"
    "om_find_order (me_orders (engine_one_ask 10)) 7 = None" "queue Sell (me_orders (engine_one_ask 10)) = [?x]"
    by code_simp+
  show ?thesis
    using cancel_removes_order [OF one_ask_inv, of 1 10] cancel_removes_order [OF one_ask_inv, of 7 10] f by auto
qed

text \<open>C9 Modifying an order at its own price edits it in place. It succeeds exactly when the level does not
  overflow and, if the quantity grows, the sequence counter is not zero. A smaller quantity
  keeps the order's sequence number, a larger one takes the next; book and orders agree afterwards.\<close>
theorem modify_same_price_in_place:
  assumes "engine_inv e" "om_find_order (me_orders e) k = Some x" "0 < q" "q \<le> INT64_MAX"
  shows "if book_qty (me_book e) (lo_side x) (lo_price_ticks x) + (q - lo_remaining_quantity x) \<le> INT64_MAX
       \<and> (q \<le> lo_remaining_quantity x \<or> me_next_sequence e \<noteq> 0)
    then (\<exists>i e'. modify_order k (lo_price_ticks x) q e = (Inr True, e') \<and> engine_inv e' \<and> book_shows_orders e'
        \<and> i < length (active_limit_orders e) \<and> active_limit_orders e ! i = x
        \<and> active_limit_orders e' = (active_limit_orders e)[i := modified_in_place q (me_next_sequence e) x])
    else (\<exists>err. modify_order k (lo_price_ticks x) q e = (Inl err, e))"
proof -
  have "x \<in> set (om_orders (me_orders e))" "om_wf (me_orders e)"
    using assms(1,2) om_find_order_Some_iff [of "me_orders e"] by (auto simp: engine_inv_def orders_ok_def)
  then have p: "0 < lo_price_ticks x" using assms(1) order_okD(1) by (auto simp: engine_inv_def orders_ok_def)
  have op: "modify_order k (lo_price_ticks x) q e = modify_same_price k x q e"
    using assms(2,3) p by (simp add: modify_order_def)
  show ?thesis (is "if ?c then _ else _")
  proof (cases ?c)
    case True
    then show ?thesis
      using modify_same_price_ok [OF assms] unfolding op
      by (auto simp: active_limit_orders_def book_shows_orders_def synced_def)
  next
    case False
    obtain r e' where r: "modify_same_price k x q e = (r, e')" by fastforce
    then obtain err where "r = Inl err" using False modify_same_price_needs [OF assms] by (cases r) auto
    then show ?thesis using modify_same_price_fails [OF assms] r False unfolding op by auto
  qed
qed

theorem modify_same_price_in_place_witness:
  "\<exists>i e'. modify_order 1 101 7 (engine_one_ask 10) = (Inr True, e')
     \<and> active_limit_orders e' = (active_limit_orders (engine_one_ask 10))[i := \<lparr>lo_order_id = 1, lo_side = Sell,
         lo_price_ticks = 101, lo_original_quantity = 7, lo_remaining_quantity = 7, lo_sequence_number = 2\<rparr>]"
proof -
  let ?e = "engine_one_ask 10" and ?x = "\<lparr>lo_order_id = 1, lo_side = Sell, lo_price_ticks = 101,
         lo_original_quantity = 5, lo_remaining_quantity = 5, lo_sequence_number = 1\<rparr>"
  have f: "om_find_order (me_orders ?e) 1 = Some ?x" "book_qty (me_book ?e) Sell 101 = 5" "me_next_sequence ?e = 2"
    "modified_in_place 7 2 ?x = \<lparr>lo_order_id = 1, lo_side = Sell,
         lo_price_ticks = 101, lo_original_quantity = 7, lo_remaining_quantity = 7, lo_sequence_number = 2\<rparr>"
    by code_simp+
  show ?thesis
    using modify_same_price_in_place [OF one_ask_inv f(1), of 7] f(2-4) by (auto simp: INT64_MAX_def)
qed

text \<open>C8 Modifying an order to a new price takes it out and places it anew under its own id: it loses its
  place, eats the opposite queue as a new order would, and rests with what is left. Or it
  throws and leaves the engine exactly as it was. The trade store must have room for the fills.\<close>
theorem modify_price_replaces:
  assumes "engine_inv e" "om_find_order (me_orders e) k = Some x" "p \<noteq> lo_price_ticks x"
    and "0 < p" "p \<le> INT64_MAX" "0 < q" "q \<le> INT64_MAX"
    and "fill_queue (limit_accepts (lo_side x) p) q (queue (opposite (lo_side x)) (me_orders e)) = (n, rest, fills)"
    and "length (trade_history e) + length fills \<le> ts_max_size (me_trades e)"
    and "modify_order k p q e = (r, e')"
  shows "case r of
      Inl err \<Rightarrow> e' = e
    | Inr found \<Rightarrow> found \<and> engine_inv e' \<and> book_shows_orders e'
        \<and> queue (opposite (lo_side x)) (me_orders e') = rest
        \<and> queue (lo_side x) (me_orders e') = own_after (repriced p q (me_next_sequence e) x) n
            (filter (\<lambda>y. y \<noteq> x) (queue (lo_side x) (me_orders e)))
        \<and> (\<exists>new. trade_history e' = trade_history e @ new \<and> list_all2 (trade_of (lo_side x) (Some (lo_order_id x))) fills new)"
proof -
  let ?m = "repriced p q (me_next_sequence e) x"
  have wf: "om_wf (me_orders e)" and id: "lo_order_id x < next_order_id (me_ids e)"
    using assms(1,2) om_find_order_Some_iff [of "me_orders e"] by (auto simp: engine_inv_def orders_ok_def)
  have room: "store_room ?m e" using assms(8,9) by (simp add: store_room_def trade_history_def)
  have m: "modify_price k x p q e = (r, e')" using assms(2-4,6,10) by (simp add: modify_order_def)
  have lim: "limit_order_ok ?m" using assms(4-7) by (simp add: limit_order_ok_def)
  consider c where "r = Inr True" "engine_inv c" "synced c" "placed ?m c e'" "me_ids c = me_ids e" "me_trades c = me_trades e"
      "\<forall>side. queue side (me_orders c) = filter (\<lambda>y. y \<noteq> x) (queue side (me_orders e))"
    | err where "r = Inl err" "e' = e"
    using modify_price_result [OF assms(1,2,4-7) room m] by blast
  then show ?thesis
  proof cases
    case (1 c)
    have "x \<notin> set (queue (opposite (lo_side x)) (me_orders e))" using queue_mem [OF wf] by auto
    then have opp: "queue (opposite (lo_side x)) (me_orders c) = queue (opposite (lo_side x)) (me_orders e)"
      using 1(7) by (auto simp: filter_id_conv)
    obtain n' rest' fills' new where r: "fill_queue (limit_accepts (lo_side x) p) q (queue (opposite (lo_side x)) (me_orders c)) = (n', rest', fills')"
      "queue (opposite (lo_side x)) (me_orders e') = rest'"
      "queue (lo_side x) (me_orders e') = own_after ?m n' (queue (lo_side x) (me_orders c))"
      "ts_trades (me_trades e') = ts_trades (me_trades c) @ new"
      "list_all2 (trade_of (lo_side x) (Some (lo_order_id x))) fills' new" "synced e'"
      using placed_result [OF 1(3) lim 1(4)] by (metis repriced_simps(1-4))
    have "n' = n" "rest' = rest" "fills' = fills" using r(1) assms(8) opp by auto
    then show ?thesis
      using r 1 placed_keeps_inv(1) [OF 1(2,3) lim 1(4)] id
      by (auto simp: trade_history_def book_shows_orders_def active_limit_orders_def synced_def)
  next
    case (2 err)
    then show ?thesis by simp
  qed
qed

definition engine_bid_ask :: matching_engine where
  "engine_bid_ask = snd (place_limit_order Buy 99 4 (engine_one_ask 10))"

lemma bid_ask_inv: "engine_inv engine_bid_ask"
  unfolding engine_bid_ask_def by (intro place_keeps_inv one_ask_inv i64_small) simp_all

theorem modify_price_replaces_witness:
  "\<exists>e'. modify_order 2 101 6 engine_bid_ask = (Inr True, e') \<and> queue Sell (me_orders e') = []
     \<and> queue Buy (me_orders e') = [\<lparr>lo_order_id = 2, lo_side = Buy, lo_price_ticks = 101,
          lo_original_quantity = 6, lo_remaining_quantity = 1, lo_sequence_number = 3\<rparr>]"
proof -
  let ?x = "\<lparr>lo_order_id = 2, lo_side = Buy, lo_price_ticks = 99,
          lo_original_quantity = 4, lo_remaining_quantity = 4, lo_sequence_number = 2\<rparr>"
  let ?a = "\<lparr>lo_order_id = 1, lo_side = Sell, lo_price_ticks = 101,
         lo_original_quantity = 5, lo_remaining_quantity = 5, lo_sequence_number = 1\<rparr>"
  have f: "om_find_order (me_orders engine_bid_ask) 2 = Some ?x"
    "fill_queue (limit_accepts (lo_side ?x) 101) 6 (queue (opposite (lo_side ?x)) (me_orders engine_bid_ask)) = (1, [], [(?a, 5)])"
    "length (trade_history engine_bid_ask) + length [(?a, 5)] \<le> ts_max_size (me_trades engine_bid_ask)"
    "own_after (repriced 101 6 (me_next_sequence engine_bid_ask) ?x) 1
            (filter (\<lambda>y. y \<noteq> ?x) (queue (lo_side ?x) (me_orders engine_bid_ask))) =
       [\<lparr>lo_order_id = 2, lo_side = Buy, lo_price_ticks = 101,
          lo_original_quantity = 6, lo_remaining_quantity = 1, lo_sequence_number = 3\<rparr>]"
    "fst (modify_order 2 101 6 engine_bid_ask) = Inr True"
    by code_simp+
  obtain e' where e': "modify_order 2 101 6 engine_bid_ask = (Inr True, e')" using f(5) by (metis prod.collapse)
  have "case (Inr True :: bool result) of Inl err \<Rightarrow> e' = engine_bid_ask
    | Inr found \<Rightarrow> found \<and> engine_inv e' \<and> book_shows_orders e'
        \<and> queue (opposite (lo_side ?x)) (me_orders e') = []
        \<and> queue (lo_side ?x) (me_orders e') = own_after (repriced 101 6 (me_next_sequence engine_bid_ask) ?x) 1
            (filter (\<lambda>y. y \<noteq> ?x) (queue (lo_side ?x) (me_orders engine_bid_ask)))
        \<and> (\<exists>new. trade_history e' = trade_history engine_bid_ask @ new
             \<and> list_all2 (trade_of (lo_side ?x) (Some (lo_order_id ?x))) [(?a, 5)] new)"
    by (rule modify_price_replaces [OF bid_ask_inv f(1) _ _ _ _ _ f(2,3) e']) (simp_all add: INT64_MAX_def)
  then show ?thesis using e' unfolding f(4) by simp
qed

text \<open>C10 A modification that throws leaves the engine exactly as it was, when the trade store has room for
  one trade per active order.\<close>
theorem modify_exception_safe:
  assumes "engine_inv e" "i64 p" "i64 q"
    and "length (trade_history e) + length (active_limit_orders e) \<le> ts_max_size (me_trades e)"
    and "modify_order k p q e = (Inl err, e')"
  shows "e' = e"
proof -
  have wf: "om_wf (me_orders e)" using assms(1) by (simp add: engine_inv_def orders_ok_def)
  have "store_room (repriced p q (me_next_sequence e) x) e" for x
  proof -
    obtain n rest fills where fq: "fill_queue (limit_accepts (lo_side x) p) q (queue (opposite (lo_side x)) (me_orders e)) = (n, rest, fills)"
      by (metis prod_cases3)
    have "length fills \<le> length (om_orders (me_orders e))"
      using fill_queue_length [OF fq] queue_length [OF wf, of "opposite (lo_side x)"] by simp
    then show ?thesis using assms(4) fq by (simp add: store_room_def trade_history_def active_limit_orders_def)
  qed
  then show ?thesis using modify_order_step(2) [OF assms(1-3) _ assms(5)] by blast
qed

text \<open>An engine with a bid that fills its level to the last unit, and a second one below it.\<close>

definition engine_full_level :: matching_engine where
  "engine_full_level = snd (place_limit_order Buy 99 4 (snd (place_limit_order Buy 100 INT64_MAX (new_engine 10 10 empty_book))))"

lemma full_level_inv: "engine_inv engine_full_level"
  unfolding engine_full_level_def
  by (intro place_keeps_inv engine_inv_new) (simp_all add: i64_def INT64_MIN_def INT64_MAX_def)

theorem modify_exception_safe_witness:
  "fst (modify_order 2 100 9 engine_full_level) = Inl (Overflow_error ''Bid quantity adjustment overflow.'')
   \<and> snd (modify_order 2 100 9 engine_full_level) = engine_full_level"
proof -
  have f: "fst (modify_order 2 100 9 engine_full_level) = Inl (Overflow_error ''Bid quantity adjustment overflow.'')"
    "length (trade_history engine_full_level) + length (active_limit_orders engine_full_level)
       \<le> ts_max_size (me_trades engine_full_level)"
    by code_simp+
  then obtain e' where e': "modify_order 2 100 9 engine_full_level
      = (Inl (Overflow_error ''Bid quantity adjustment overflow.''), e')" by (metis prod.collapse)
  have "e' = engine_full_level"
    by (rule modify_exception_safe [OF full_level_inv _ _ f(2) e']) (simp_all add: i64_def INT64_MIN_def INT64_MAX_def)
  then show ?thesis using e' by simp
qed

section \<open>The concurrent engine\<close>

text \<open>C3 Whatever the interleaving of client threads, worker and shutdown, the engine and the fulfilled
  promises are those of a single thread that runs a prefix of the accepted commands in the order in
  which they entered the queue; the others are in the worker's hands or in the queue, in order.\<close>
theorem concurrent_is_serial:
  assumes "runs ld (new_concurrent_engine e) tr ce"
  shows "\<exists>served. accepted tr = served @ in_hand (ce_worker ce) @ bq_queue (ce_queue ce)
    \<and> serve ld served (e, Map.empty) = (ce_engine ce, ce_promises ce)"
  using runs_stands [OF assms] by (auto simp: new_concurrent_engine_def new_queue_def stands_def)

definition demo_start :: concurrent_engine where
  "demo_start = new_concurrent_engine (new_engine 10 10 empty_book)"

definition demo_trace :: "event list" where
  "demo_trace = [Accepted 0 (Place_limit_buy 100 5), Accepted 1 (Execute_market_sell 2), Close]"

definition demo_closed :: concurrent_engine where
  "demo_closed = shutdown_close (snd (submit (Execute_market_sell 2) (snd (submit (Place_limit_buy 100 5) demo_start))))"

lemma demo_run: "runs ld demo_start demo_trace demo_closed"
proof -
  let ?s1 = "snd (submit (Place_limit_buy 100 5) demo_start)"
  let ?s2 = "snd (submit (Execute_market_sell 2) ?s1)"
  have a: "client_call (Place_limit_buy 100 5) demo_start = (Inr 0, ?s1)"
    "client_call (Execute_market_sell 2) ?s1 = (Inr 1, ?s2)"
    by (simp_all add: submit_def demo_start_def new_concurrent_engine_def new_queue_def bq_push_def)
  have "runs ld demo_start ([] @ [Accepted 0 (Place_limit_buy 100 5)]) ?s1"
    by (rule runs_step [OF runs_start step.accept [OF a(1)]])
  from runs_step [OF runs_step [OF this step.accept [OF a(2)]] step.shut]
  show ?thesis unfolding demo_trace_def demo_closed_def by simp
qed

theorem concurrent_is_serial_witness:
  "\<exists>served. accepted demo_trace = served @ in_hand (ce_worker demo_closed) @ bq_queue (ce_queue demo_closed)
    \<and> serve (\<lambda>x. x) served (new_engine 10 10 empty_book, Map.empty) = (ce_engine demo_closed, ce_promises demo_closed)"
  by (rule concurrent_is_serial [OF demo_run [unfolded demo_start_def]])

lemma joined_all_served:
  assumes "runs ld (new_concurrent_engine e) tr ce" "join_returns ce"
  shows "serve ld (accepted tr) (e, Map.empty) = (ce_engine ce, ce_promises ce)"
    "dom (ce_promises ce) = fst ` set (accepted tr)"
proof -
  have "stands ld (new_concurrent_engine e) tr ce"
    using runs_stands [OF assms(1)] by (simp add: new_concurrent_engine_def new_queue_def)
  then show s: "serve ld (accepted tr) (e, Map.empty) = (ce_engine ce, ce_promises ce)"
    using assms(2) by (auto simp: stands_def join_returns_def in_hand_def new_concurrent_engine_def)
  show "dom (ce_promises ce) = fst ` set (accepted tr)"
    using serve_promises [of ld "accepted tr" e Map.empty] s by simp
qed

text \<open>C14 \<open>shutdown\<close> cannot hang and loses nothing: from every reachable state with a closed queue the worker
  alone comes to its end, within two steps per queued command and two more, and then every accepted
  command has been run in order and every future has its value or exception: the promises are exactly
  the accepted tickets, all different.\<close>
theorem shutdown_serves_all:
  assumes "runs ld (new_concurrent_engine e) tr ce" "is_shutdown ce"
  shows "\<exists>n ce'. n \<le> 2 * bq_size (ce_queue ce) + 2
    \<and> runs ld (new_concurrent_engine e) (tr @ replicate n Worker_step) ce' \<and> join_returns ce'
    \<and> serve ld (accepted tr) (e, Map.empty) = (ce_engine ce', ce_promises ce')
    \<and> dom (ce_promises ce') = fst ` set (accepted tr) \<and> distinct (map fst (accepted tr))"
proof -
  obtain n ce' where r: "n \<le> 2 * bq_size (ce_queue ce) + 2"
    "runs ld (new_concurrent_engine e) (tr @ replicate n Worker_step) ce'" "join_returns ce'"
    using drains [OF assms(1)] assms(2) by (auto simp: is_shutdown_def bq_is_closed_def join_returns_def bq_size_def)
  have "accepted (tr @ replicate n Worker_step) = accepted tr" by (simp add: accepted_def)
  with joined_all_served [OF r(2,3)] runs_tickets [OF assms(1)] r show ?thesis by auto
qed

theorem shutdown_serves_all_witness:
  "\<exists>n ce'. n \<le> 6 \<and> runs (\<lambda>x. x) demo_start (demo_trace @ replicate n Worker_step) ce' \<and> join_returns ce'
     \<and> dom (ce_promises ce') = {0, 1}"
proof -
  have d: "is_shutdown demo_closed" "bq_size (ce_queue demo_closed) = 2" by code_simp+
  have "accepted demo_trace = [(0, Place_limit_buy 100 5), (1, Execute_market_sell 2)]"
    by (simp add: accepted_def demo_trace_def)
  with shutdown_serves_all [OF demo_run [of "\<lambda>x. x", unfolded demo_start_def] d(1)] d(2)
  show ?thesis unfolding demo_start_def by auto
qed

text \<open>A call on an engine that is shut down throws and enqueues nothing; before that it is accepted.\<close>
lemma submit_after_shutdown:
  "(\<exists>err. fst (client_call command ce) = Inl err) = is_shutdown ce
   \<and> (is_shutdown ce \<longrightarrow> ce_queue (snd (client_call command ce)) = ce_queue ce)
   \<and> (\<not> is_shutdown ce \<longrightarrow> bq_queue (ce_queue (snd (client_call command ce))) = bq_queue (ce_queue ce) @ [(ce_next_ticket ce, command)])"
  by (simp add: submit_def Let_def bq_push_def is_shutdown_def bq_is_closed_def)

lemma demo_finishes:
  "\<exists>tr ce. runs (\<lambda>x. x) demo_start tr ce \<and> join_returns ce \<and> accepted tr = accepted demo_trace
    \<and> (\<forall>x \<in> set (accepted tr). command_i64 (snd x))
    \<and> (\<forall>k < length (accepted tr). trade_room (fst (serve (\<lambda>x. x) (take k (accepted tr)) (new_engine 10 10 empty_book, Map.empty))))"
proof -
  have cl: "bq_closed (ce_queue demo_closed)" by code_simp
  obtain n ce where r: "runs (\<lambda>x. x) demo_start (demo_trace @ replicate n Worker_step) ce" "ce_worker ce = Finished"
    using drains [OF demo_run cl] by blast
  let ?tr = "demo_trace @ replicate n Worker_step"
  have acc: "accepted ?tr = accepted demo_trace" by (simp add: accepted_def demo_trace_def)
  have len: "length (accepted demo_trace) = 2" by code_simp
  have "trade_room (fst (serve (\<lambda>x. x) (take 0 (accepted demo_trace)) (new_engine 10 10 empty_book, Map.empty)))"
    "trade_room (fst (serve (\<lambda>x. x) (take (Suc 0) (accepted demo_trace)) (new_engine 10 10 empty_book, Map.empty)))"
    by code_simp+
  then have "\<forall>k < length (accepted ?tr).
      trade_room (fst (serve (\<lambda>x. x) (take k (accepted ?tr)) (new_engine 10 10 empty_book, Map.empty)))"
    unfolding acc len less_2_cases_iff by blast
  moreover have "\<forall>x \<in> set (accepted demo_trace). command_i64 (snd x)" by code_simp
  ultimately show ?thesis using r acc by (intro exI [of _ ?tr] exI [of _ ce]) (simp add: join_returns_def)
qed

text \<open>C5 Along every run of a concurrent engine that starts with a well-formed book and no orders, as long
  as the trade store has room for one trade per active order before each command, the engine
  invariant holds; so while there are active orders the book shows exactly their remaining
  quantities, price by price, and its best bid is below its best ask.\<close>
theorem runs_keep_book_uncrossed:
  assumes "runs ld (new_concurrent_engine (new_engine max_orders max_trades book)) tr ce" "book_ok book"
    and "\<forall>x \<in> set (accepted tr). command_i64 (snd x)"
    and "\<forall>k < length (accepted tr).
           trade_room (fst (serve ld (take k (accepted tr)) (new_engine max_orders max_trades book, Map.empty)))"
  shows "engine_inv (ce_engine ce)
    \<and> (active_limit_orders (ce_engine ce) \<noteq> [] \<longrightarrow> book_shows_orders (ce_engine ce)
        \<and> (\<forall>b a. best_bid (me_book (ce_engine ce)) = Some b \<longrightarrow> best_ask (me_book (ce_engine ce)) = Some a \<longrightarrow>
             pl_price_ticks b < pl_price_ticks a))"
proof -
  have inv: "engine_inv (ce_engine ce)"
    by (rule runs_preserve [OF assms(1) process_command_inv engine_inv_new [OF assms(2)] assms(3,4)])
  then show ?thesis
    using engine_inv_uncrossed [OF inv]
    by (auto simp: engine_inv_def book_shows_orders_def active_limit_orders_def synced_def)
qed

theorem runs_keep_book_uncrossed_witness:
  "\<exists>tr ce. runs (\<lambda>x. x) demo_start tr ce \<and> join_returns ce \<and> accepted tr = accepted demo_trace
     \<and> engine_inv (ce_engine ce)"
proof -
  obtain tr ce where d: "runs (\<lambda>x. x) demo_start tr ce" "join_returns ce" "accepted tr = accepted demo_trace"
    "\<forall>x \<in> set (accepted tr). command_i64 (snd x)"
    "\<forall>k < length (accepted tr). trade_room (fst (serve (\<lambda>x. x) (take k (accepted tr)) (new_engine 10 10 empty_book, Map.empty)))"
    using demo_finishes by blast
  from runs_keep_book_uncrossed [OF d(1) [unfolded demo_start_def] _ d(4,5)] have "engine_inv (ce_engine ce)" by simp
  with d(1-3) show ?thesis by blast
qed

text \<open>C6 Along the same runs every price and quantity that the engine stores, in its active orders, in the
  levels of the book and in the recorded trades, is a value of the code's type \<open>std::int64_t\<close>, when those
  of the initial book and of the commands are: the model's integers never leave it.\<close>
theorem runs_stay_in_int64:
  assumes "runs ld (new_concurrent_engine (new_engine max_orders max_trades book)) tr ce" "book_ok book" "book_i64 book"
    and "\<forall>x \<in> set (accepted tr). command_i64 (snd x)"
    and "\<forall>k < length (accepted tr).
           trade_room (fst (serve ld (take k (accepted tr)) (new_engine max_orders max_trades book, Map.empty)))"
  shows "(\<forall>x \<in> set (active_limit_orders (ce_engine ce)). order_i64 x)
    \<and> (\<forall>l \<in> set (ob_bids (me_book (ce_engine ce))) \<union> set (ob_asks (me_book (ce_engine ce))). level_i64 l)
    \<and> (\<forall>t \<in> set (trade_history (ce_engine ce)). trade_i64 t)"
proof -
  let ?e = "new_engine max_orders max_trades book"
  have new: "engine_inv ?e \<and> stored_i64 ?e"
    using engine_inv_new [OF assms(2)] assms(3)
    by (simp add: stored_i64_def trades_i64_def new_engine_def new_order_manager_def new_trade_store_def)
  have "engine_inv (ce_engine ce) \<and> stored_i64 (ce_engine ce)"
    by (rule runs_preserve [where P = "\<lambda>e. engine_inv e \<and> stored_i64 e", OF assms(1) _ new assms(4,5)])
      (simp add: process_command_inv process_command_i64)
  then show ?thesis
    by (simp add: stored_i64_def book_i64_def trades_i64_def active_limit_orders_def trade_history_def)
qed

theorem runs_stay_in_int64_witness:
  "\<exists>tr ce. runs (\<lambda>x. x) demo_start tr ce \<and> join_returns ce \<and> length (accepted tr) = 2
     \<and> (\<forall>t \<in> set (trade_history (ce_engine ce)). trade_i64 t)"
proof -
  obtain tr ce where d: "runs (\<lambda>x. x) demo_start tr ce" "join_returns ce" "accepted tr = accepted demo_trace"
    "\<forall>x \<in> set (accepted tr). command_i64 (snd x)"
    "\<forall>k < length (accepted tr). trade_room (fst (serve (\<lambda>x. x) (take k (accepted tr)) (new_engine 10 10 empty_book, Map.empty)))"
    using demo_finishes by blast
  have "book_i64 empty_book" by (simp add: book_i64_def empty_book_def)
  from runs_stay_in_int64 [OF d(1) [unfolded demo_start_def] _ this d(4,5)] have "\<forall>t \<in> set (trade_history (ce_engine ce)). trade_i64 t"
    by simp
  moreover have "length (accepted demo_trace) = 2" by code_simp
  ultimately show ?thesis using d(1-3) by (intro exI [of _ tr] exI [of _ ce]) simp
qed


section \<open>The engine observed by order flow analytics\<close>

lemma synced_snapshot_valid:
  assumes "engine_inv e" "synced e" "symbol \<noteq> []"
  shows "validate_snapshot symbol (book_snapshot (me_book e)) = Inr ()"
proof -
  have pos: "0 < pl_price_ticks l \<and> 0 < pl_quantity l" if l: "l \<in> set (side_levels side (me_book e))" for l side
  proof -
    obtain x where "x \<in> set (om_orders (me_orders e))" "lo_price_ticks x = pl_price_ticks l"
      using level_has_order [OF assms(2) l] by blast
    then have "0 < pl_price_ticks l" using order_okD(1) assms(1) by (metis engine_inv_def orders_ok_def)
    moreover have "levels_ok (if side = Buy then bid_before else ask_before) (side_levels side (me_book e))"
      using assms(1) by (cases side) (auto simp: engine_inv_def book_ok_def side_levels_def)
    ultimately show ?thesis
      using l by (simp add: levels_ok_def)
  qed
  have b: "b \<in> set (side_levels Buy (me_book e))" if "best_bid (me_book e) = Some b" for b
    using that by (auto simp: best_bid_def side_levels_def split: list.splits)
  have a: "a \<in> set (side_levels Sell (me_book e))" if "best_ask (me_book e) = Some a" for a
    using that by (auto simp: best_ask_def side_levels_def split: list.splits)
  have unc: "pl_price_ticks x < pl_price_ticks y" if "best_bid (me_book e) = Some x" "best_ask (me_book e) = Some y" for x y
  proof -
    have "active_limit_orders e \<noteq> []"
      using level_has_order [OF assms(2) b [OF that(1)]] by (auto simp: active_limit_orders_def)
    then show ?thesis using engine_inv_uncrossed [OF assms(1) _ that] by simp
  qed
  show ?thesis
    using pos [OF b] pos [OF a] assms(3)
    by (auto dest: unc simp: validate_snapshot_def book_snapshot_def ofi_validate_level_def split: option.splits)
qed

lemma capture_valid:
  assumes "validate_snapshot (oe_symbol oe) (book_snapshot (me_book (oe_engine oe))) = Inr ()" "oe_symbol oe \<noteq> []"
  shows "oe_engine (capture_after_commit ld oe) = oe_engine oe"
    and "case oh_before_capture (oe_handler oe) 0 of
        Some err \<Rightarrow> \<not> oe_analytics_healthy (capture_after_commit ld oe)
          \<and> oh_ofi (oe_handler (capture_after_commit ld oe)) = oh_ofi (oe_handler oe)
      | None \<Rightarrow> oe_analytics_healthy (capture_after_commit ld oe) = oe_analytics_healthy oe
          \<and> (\<exists>st. fi_symbols (oh_ofi (oe_handler (capture_after_commit ld oe))) (oe_symbol oe) = Some st
               \<and> of_previous st = book_snapshot (me_book (oe_engine oe)))"
  using assms
  by (auto simp: capture_after_commit_def ofi_capture_def ofi_update_def Let_def ofi_record_event_def
      split: option.splits prod.splits sum.splits)

text \<open>C25 A limit order through the observed engine has exactly the outcome and the engine it has without
  the observer, whatever the callback before the capture does; a refused order leaves the observed
  engine as it was. The book an accepted order leaves can always be captured: when the callback
  returns (or there is none) the analytics stay as healthy as they were and the indicator's latest
  snapshot is the best bid and ask of the new book. When the callback throws, the order stays
  committed, the analytics are marked unhealthy and the indicator is unchanged.\<close>
theorem ofi_adapter_follows_engine:
  assumes "engine_inv (oe_engine oe)" "i64 p" "i64 q" "oe_symbol oe \<noteq> []"
    and "(if side = Buy then oe_place_limit_buy ld p q oe else oe_place_limit_sell ld p q oe) = (r, oe')"
  shows "place_limit_order side p q (oe_engine oe) = (r, oe_engine oe')
    \<and> (case r of Inl err \<Rightarrow> oe' = oe
       | Inr i \<Rightarrow> (case oh_before_capture (oe_handler oe) 0 of
             None \<Rightarrow> oe_analytics_healthy oe' = oe_analytics_healthy oe
               \<and> (\<exists>st. fi_symbols (oh_ofi (oe_handler oe')) (oe_symbol oe) = Some st
                    \<and> of_previous st = book_snapshot (me_book (oe_engine oe')))
           | Some err \<Rightarrow> \<not> oe_analytics_healthy oe' \<and> oh_ofi (oe_handler oe') = oh_ofi (oe_handler oe)))"
proof -
  have op: "oe_observed ld (\<lambda>_. True) (place_limit_order side p q) oe = (r, oe')"
    using assms(5) by (cases side) (simp_all add: oe_place_limit_buy_def oe_place_limit_sell_def
        place_limit_buy_def place_limit_sell_def [abs_def])
  obtain r1 e1 where e1: "place_limit_order side p q (oe_engine oe) = (r1, e1)" by fastforce
  show ?thesis
  proof (cases r1)
    case (Inl err)
    then have "e1 = oe_engine oe" using place_limit_order_fails [OF assms(1,3)] e1 by blast
    then show ?thesis using op e1 Inl by (auto simp: oe_observed_def)
  next
    case (Inr i)
    have inv: "engine_inv e1" "synced e1"
      using place_limit_order_inv [OF assms(1-3)] place_limit_order_synced [OF assms(1-3)] e1 Inr by blast+
    have oe': "oe' = capture_after_commit ld (oe\<lparr>oe_engine := e1\<rparr>)" "r = Inr i"
      using op e1 Inr by (auto simp: oe_observed_def)
    from capture_valid [of "oe\<lparr>oe_engine := e1\<rparr>" ld] synced_snapshot_valid [OF inv assms(4)] assms(4)
    show ?thesis using e1 Inr unfolding oe' by (auto split: option.splits)
  qed
qed

definition observed_one_ask :: "(nat \<Rightarrow> cpp_error option) \<Rightarrow> ofi_engine" where
  "observed_one_ask callback = \<lparr>oe_engine = engine_one_ask 10,
     oe_handler = \<lparr>oh_ofi = \<lparr>fi_window_size = 3, fi_symbols = Map.empty\<rparr>, oh_before_capture = callback\<rparr>,
     oe_symbol = ''S'', oe_analytics_healthy = True\<rparr>"

theorem ofi_adapter_follows_engine_witness:
  "(\<exists>st. fi_symbols (oh_ofi (oe_handler (snd (oe_place_limit_buy (\<lambda>x. x) 99 4 (observed_one_ask (\<lambda>_. None)))))) ''S'' = Some st
     \<and> os_best_bid (of_previous st) = Some \<lparr>ol_price_ticks = 99, ol_quantity = 4\<rparr>)
   \<and> \<not> oe_analytics_healthy (snd (oe_place_limit_buy (\<lambda>x. x) 99 4 (observed_one_ask (\<lambda>_. Some (Runtime_error ''failure'')))))"
proof -
  have pre: "engine_inv (oe_engine (observed_one_ask g))" "oe_symbol (observed_one_ask g) = ''S''"
    "oh_before_capture (oe_handler (observed_one_ask g)) = g" for g
    using one_ask_inv by (simp_all add: observed_one_ask_def)
  note law = ofi_adapter_follows_engine [OF pre(1) i64_small i64_small, where ld = "\<lambda>x. x" and side = Buy and p = 99 and q = 4]
  let ?f = "\<lambda>_. None" and ?g = "\<lambda>_. Some (Runtime_error ''failure'')"
  have r: "fst (oe_place_limit_buy (\<lambda>x. x) 99 4 (observed_one_ask ?f)) = Inr 2"
    "fst (oe_place_limit_buy (\<lambda>x. x) 99 4 (observed_one_ask ?g)) = Inr 2"
    "os_best_bid (book_snapshot (me_book (oe_engine (snd (oe_place_limit_buy (\<lambda>x. x) 99 4 (observed_one_ask ?f))))))
       = Some \<lparr>ol_price_ticks = 99, ol_quantity = 4\<rparr>"
    by code_simp+
  obtain oe1 oe2 where x: "oe_place_limit_buy (\<lambda>x. x) 99 4 (observed_one_ask ?f) = (Inr 2, oe1)"
    "oe_place_limit_buy (\<lambda>x. x) 99 4 (observed_one_ask ?g) = (Inr 2, oe2)"
    using r(1,2) by (metis prod.collapse)
  have "\<exists>st. fi_symbols (oh_ofi (oe_handler oe1)) ''S'' = Some st \<and> of_previous st = book_snapshot (me_book (oe_engine oe1))"
    "\<not> oe_analytics_healthy oe2"
    using law [of ?f "Inr 2" oe1] law [of ?g "Inr 2" oe2] x pre(2,3) by simp_all
  then show ?thesis using r(3) x by auto
qed

end
